(* ===== verification/Prelude.thy ===== *)
theory Prelude
  imports Complex_Main "HOL-Library.List_Lexorder" "HOL-Library.Char_ord" "HOL-Library.Sublist"
begin

section \<open>Prelude: Go strings, integers, errors and list lemmas\<close>

text \<open>
  The vocabulary every component shares: Go strings with the functions of the packages
  \<^verbatim>\<open>strings\<close>, \<^verbatim>\<open>strconv\<close> and \<^verbatim>\<open>unicode\<close> that the source calls, Go errors with
  \<^verbatim>\<open>errors.Is\<close>, 64-bit wrap-around, and the list lemmas of the component proofs.
  A Go string is a list of runes; a rune is a \<^typ>\<open>char\<close>, so texts range over the code
  points U+0000 to U+00FF, on which the classifications below are those of the Unicode
  tables. Go compares strings by their bytes, which on these texts is the lexicographic
  order of code points that \<open>List_Lexorder\<close> provides.
\<close>

named_theorems go_string \<open>facts on Go string functions\<close>
named_theorems go_error \<open>facts on Go errors\<close>

type_synonym gotime = int
type_synonym duration = int
type_synonym metadata = "string \<rightharpoonup> string"

subsection \<open>Character classes (package unicode, Latin-1 range)\<close>

definition code_of :: "char \<Rightarrow> nat" where
  "code_of c = of_char c"

definition is_space :: "char \<Rightarrow> bool" where
  "is_space c = (let n = code_of c in (9 \<le> n \<and> n \<le> 13) \<or> n = 32 \<or> n = 133 \<or> n = 160)"

definition is_letter :: "char \<Rightarrow> bool" where
  "is_letter c = (let n = code_of c in (65 \<le> n \<and> n \<le> 90) \<or> (97 \<le> n \<and> n \<le> 122) \<or> n = 170
     \<or> n = 181 \<or> n = 186 \<or> (192 \<le> n \<and> n \<le> 214) \<or> (216 \<le> n \<and> n \<le> 246) \<or> 248 \<le> n)"

definition is_number :: "char \<Rightarrow> bool" where
  "is_number c = (let n = code_of c in (48 \<le> n \<and> n \<le> 57) \<or> n = 178 \<or> n = 179 \<or> n = 185
     \<or> (188 \<le> n \<and> n \<le> 190))"

definition is_punct :: "char \<Rightarrow> bool" where
  "is_punct c = (let n = code_of c in (33 \<le> n \<and> n \<le> 35) \<or> (37 \<le> n \<and> n \<le> 42) \<or> (44 \<le> n \<and> n \<le> 47)
     \<or> n = 58 \<or> n = 59 \<or> n = 63 \<or> n = 64 \<or> (91 \<le> n \<and> n \<le> 93) \<or> n = 95 \<or> n = 123 \<or> n = 125
     \<or> n = 161 \<or> n = 167 \<or> n = 171 \<or> n = 182 \<or> n = 183 \<or> n = 187 \<or> n = 191)"

definition lower_char :: "char \<Rightarrow> char" where
  "lower_char c = (let n = code_of c in
     if (65 \<le> n \<and> n \<le> 90) \<or> (192 \<le> n \<and> n \<le> 222 \<and> n \<noteq> 215) then char_of (n + 32) else c)"

definition to_lower :: "string \<Rightarrow> string" where
  "to_lower s = map lower_char s"

lemma length_to_lower [simp]: "length (to_lower s) = length s"
  by (simp add: to_lower_def)

subsection \<open>Package strings\<close>

abbreviation NL :: string where "NL \<equiv> ''\<newline>''"

definition trim_left :: "string \<Rightarrow> string" where
  "trim_left s = dropWhile is_space s"

definition trim_space :: "string \<Rightarrow> string" where
  "trim_space s = rev (trim_left (rev (trim_left s)))"

definition blank :: "string \<Rightarrow> bool" where
  "blank s \<longleftrightarrow> trim_space s = ''''"

fun split_by :: "(char \<Rightarrow> bool) \<Rightarrow> string \<Rightarrow> string list" where
  "split_by p [] = [[]]"
| "split_by p (c # s) =
     (if p c then [] # split_by p s
      else (case split_by p s of [] \<Rightarrow> [[c]] | w # ws \<Rightarrow> (c # w) # ws))"

definition fields_func :: "(char \<Rightarrow> bool) \<Rightarrow> string \<Rightarrow> string list" where
  "fields_func p s = filter (\<lambda>w. w \<noteq> []) (split_by p s)"

definition str_fields :: "string \<Rightarrow> string list" where
  "str_fields s = fields_func is_space s"

fun join_with :: "string \<Rightarrow> string list \<Rightarrow> string" where
  "join_with sep [] = []"
| "join_with sep [x] = x"
| "join_with sep (x # y # zs) = x @ sep @ join_with sep (y # zs)"

definition has_prefix :: "string \<Rightarrow> string \<Rightarrow> bool" where
  "has_prefix s p \<longleftrightarrow> take (length p) s = p"

definition has_suffix :: "string \<Rightarrow> string \<Rightarrow> bool" where
  "has_suffix s p \<longleftrightarrow> has_prefix (rev s) (rev p)"

fun contains :: "string \<Rightarrow> string \<Rightarrow> bool" where
  "contains [] p = (p = [])"
| "contains (c # s) p = (has_prefix (c # s) p \<or> contains s p)"

fun index_of :: "string \<Rightarrow> string \<Rightarrow> nat option" where
  "index_of [] p = (if p = [] then Some 0 else None)"
| "index_of (c # s) p = (if has_prefix (c # s) p then Some 0 else map_option Suc (index_of s p))"

text \<open>\<open>strings.ReplaceAll\<close> for a non-empty pattern; the first argument counts the
  characters of a match still to be skipped.\<close>

fun replace_skip :: "nat \<Rightarrow> string \<Rightarrow> string \<Rightarrow> string \<Rightarrow> string" where
  "replace_skip k [] old new = []"
| "replace_skip (Suc k) (c # s) old new = replace_skip k s old new"
| "replace_skip 0 (c # s) old new =
     (if has_prefix (c # s) old then new @ replace_skip (length old - 1) s old new
      else c # replace_skip 0 s old new)"

definition replace_all :: "string \<Rightarrow> string \<Rightarrow> string \<Rightarrow> string" where
  "replace_all s old new = replace_skip 0 s old new"

lemma has_prefix_iff [go_string]: "has_prefix s p \<longleftrightarrow> (\<exists>t. s = p @ t)"
  unfolding has_prefix_def by (metis append_eq_conv_conj append_take_drop_id)

lemma has_prefix_empty [simp]: "has_prefix s [] "
  by (simp add: has_prefix_def)

lemma has_prefix_self [simp]: "has_prefix s s"
  by (simp add: has_prefix_def)

lemma has_prefix_append [simp]: "has_prefix (p @ t) p"
  by (simp add: has_prefix_def)

lemma has_prefix_trans: "has_prefix s p \<Longrightarrow> has_prefix p q \<Longrightarrow> has_prefix s q"
  by (auto simp: has_prefix_iff)

lemma contains_iff [go_string]: "contains s p \<longleftrightarrow> (\<exists>a b. s = a @ p @ b)"
proof (induction s)
  case (Cons c s)
  show ?case
  proof
    assume "contains (c # s) p"
    then consider t where "c # s = p @ t" | a b where "s = a @ p @ b"
      using Cons.IH by (auto simp: has_prefix_iff)
    then show "\<exists>a b. c # s = a @ p @ b"
    proof cases
      case 1 then show ?thesis by (intro exI [of _ "[]"] exI [of _ t]) simp
    next
      case 2 then show ?thesis by (intro exI [of _ "c # a"] exI [of _ b]) simp
    qed
  next
    assume "\<exists>a b. c # s = a @ p @ b"
    then obtain a b where "c # s = a @ p @ b" by blast
    then show "contains (c # s) p"
    proof (cases a)
      case Nil
      with \<open>c # s = a @ p @ b\<close> have "has_prefix (c # s) p" by (simp add: has_prefix_def)
      then show ?thesis by simp
    next
      case (Cons d a')
      with \<open>c # s = a @ p @ b\<close> Cons.IH show ?thesis by auto
    qed
  qed
qed auto

lemma blank_Nil [simp]: "blank []"
  by (simp add: blank_def trim_space_def trim_left_def)

lemma trim_space_Nil [simp]: "trim_space [] = []"
  by (simp add: trim_space_def trim_left_def)

lemma dropWhile_space_nil: "dropWhile P xs = [] \<longleftrightarrow> (\<forall>x \<in> set xs. P x)"
  by (rule dropWhile_eq_Nil_conv)

lemma blank_iff [go_string]: "blank s \<longleftrightarrow> (\<forall>c \<in> set s. is_space c)"
proof -
  have "blank s \<longleftrightarrow> (\<forall>c \<in> set (dropWhile is_space s). is_space c)"
    by (simp add: blank_def trim_space_def trim_left_def dropWhile_eq_Nil_conv)
  also have "\<dots> \<longleftrightarrow> (\<forall>c \<in> set s. is_space c)"
    by (induction s) auto
  finally show ?thesis .
qed

lemma dropWhile_idem: "dropWhile P (dropWhile P xs) = dropWhile P xs"
  by (induction xs) auto

lemma trim_left_rev_dropWhile:
  "xs = [] \<or> \<not> P (hd xs) \<Longrightarrow> dropWhile P (rev (dropWhile P (rev xs))) = rev (dropWhile P (rev xs))"
  by (cases xs) (auto simp: dropWhile_append dropWhile_eq_Nil_conv)

lemma dropWhile_hd: "dropWhile P xs = [] \<or> \<not> P (hd (dropWhile P xs))"
  using hd_dropWhile [of P xs] by blast

lemma trim_space_idem [simp]: "trim_space (trim_space s) = trim_space s"
proof -
  let ?l = "dropWhile is_space s"
  have "dropWhile is_space (rev (dropWhile is_space (rev ?l))) = rev (dropWhile is_space (rev ?l))"
    by (rule trim_left_rev_dropWhile) (rule dropWhile_hd)
  then show ?thesis
    by (simp add: trim_space_def trim_left_def dropWhile_idem)
qed

lemma blank_trim_space [simp]: "blank (trim_space s) = blank s"
  unfolding blank_def by (simp only: trim_space_idem)

lemma trim_space_eq_Nil [simp]: "trim_space s = [] \<longleftrightarrow> blank s"
  by (rule blank_def [symmetric])

lemma set_trim_space: "set (trim_space s) \<subseteq> set s"
  unfolding trim_space_def trim_left_def
  by (metis set_dropWhileD set_rev subsetI)

lemma length_trim_space: "length (trim_space s) \<le> length s"
  unfolding trim_space_def trim_left_def
  by (metis length_dropWhile_le length_rev order_trans)

lemma split_by_nonempty [simp]: "split_by p s \<noteq> []"
  by (induction s) (auto split: list.splits)

lemma split_by_no_sep: "\<forall>w \<in> set (split_by p s). \<forall>c \<in> set w. \<not> p c"
  by (induction s) (auto split: if_splits list.splits)

lemma fields_func_words [go_string]:
  "w \<in> set (fields_func p s) \<Longrightarrow> w \<noteq> [] \<and> (\<forall>c \<in> set w. \<not> p c)"
  using split_by_no_sep [of p s] by (auto simp: fields_func_def)


lemma split_by_free: "\<forall>c \<in> set w. \<not> p c \<Longrightarrow> split_by p w = [w]"
  by (induction w) auto

lemma split_by_append_sep:
  "\<forall>c \<in> set w. \<not> p c \<Longrightarrow> p d \<Longrightarrow> split_by p (w @ d # s) = w # split_by p s"
  by (induction w) auto

lemma fields_func_join:
  assumes "p sp" and "\<forall>w \<in> set ws. w \<noteq> [] \<and> (\<forall>c \<in> set w. \<not> p c)"
  shows "fields_func p (join_with [sp] ws) = ws"
  using assms(2)
proof (induction "[sp]" ws rule: join_with.induct)
  case 1 then show ?case by (simp add: fields_func_def)
next
  case (2 x) then show ?case by (simp add: fields_func_def split_by_free)
next
  case (3 x y zs)
  then have "split_by p (join_with [sp] (x # y # zs)) = x # split_by p (join_with [sp] (y # zs))"
    using assms(1) by (simp add: split_by_append_sep)
  with 3 show ?case by (simp add: fields_func_def)
qed

text \<open>\<open>strings.Join(strings.Fields(s), " ")\<close>, the white-space normal form of a text.\<close>

definition squeeze :: "string \<Rightarrow> string" where
  "squeeze s = join_with '' '' (str_fields s)"

lemma space_is_space [simp]: "is_space CHR '' ''"
  by (simp add: is_space_def code_of_def)

lemma str_fields_squeeze [simp]: "str_fields (squeeze s) = str_fields s"
  unfolding squeeze_def str_fields_def
  by (rule fields_func_join) (auto dest: fields_func_words)

lemma squeeze_idem [simp]: "squeeze (squeeze s) = squeeze s"
  by (simp add: squeeze_def [of "squeeze s"]) (simp add: squeeze_def)

subsection \<open>Occurrences of a phrase\<close>

lemma contains_sep:
  assumes "c \<notin> set p" "p \<noteq> []"
  shows "contains (a @ c # b) p \<longleftrightarrow> contains a p \<or> contains b p"
proof
  assume "contains (a @ c # b) p"
  then obtain x y where "a @ c # b = x @ p @ y" by (auto simp: contains_iff)
  then consider us where "a = x @ us" "us @ c # b = p @ y" | us where "c # b = us @ p @ y"
    by (auto simp: append_eq_append_conv2)
  then show "contains a p \<or> contains b p"
  proof cases
    case 1
    from 1(2) consider vs where "us = p @ vs" | vs where "p = us @ vs" "c # b = vs @ y"
      by (auto simp: append_eq_append_conv2)
    then show ?thesis
    proof cases
      case (1 vs) then show ?thesis using \<open>a = x @ us\<close> by (auto simp: contains_iff)
    next
      case (2 vs)
      then have "vs = []" using assms by (cases vs) auto
      with 2 \<open>a = x @ us\<close> have "a = x @ p @ []" by simp
      then show ?thesis unfolding contains_iff by blast
    qed
  next
    case (2 us)
    then show ?thesis using assms by (cases us; cases p) (auto simp: contains_iff)
  qed
next
  have ex: "contains (u @ x @ v) p" if x: "contains x p" for u v x
  proof -
    obtain y z where "x = y @ p @ z" using x unfolding contains_iff by blast
    then have "u @ x @ v = (u @ y) @ p @ (z @ v)" by simp
    then show ?thesis unfolding contains_iff by blast
  qed
  assume "contains a p \<or> contains b p"
  then show "contains (a @ c # b) p" using ex [of a "[]" "c # b"] ex [of b "a @ [c]" "[]"] by auto
qed

lemma contains_join:
  assumes "c \<notin> set p" "p \<noteq> []"
  shows "contains (join_with [c] ls) p \<longleftrightarrow> (\<exists>l \<in> set ls. contains l p)"
proof (induction "[c]" ls rule: join_with.induct)
  case 1 then show ?case using assms(2) by simp
next
  case (3 x y zs)
  then show ?case using contains_sep [OF assms] by simp
qed simp

lemma contains_take: "contains (take n s) p \<Longrightarrow> contains s p"
proof -
  assume "contains (take n s) p"
  then obtain a b where "take n s = a @ p @ b" unfolding contains_iff by blast
  then have "s = a @ p @ (b @ drop n s)" using append_take_drop_id [of n s] by simp
  then show ?thesis unfolding contains_iff by blast
qed

lemma contains_rev: "contains (rev s) (rev p) = contains s p"
proof -
  have "contains (rev s) (rev p)" if sp: "contains s p" for s p
  proof -
    obtain a b where "s = a @ p @ b" using sp unfolding contains_iff by blast
    then have "rev s = rev b @ rev p @ rev a" by simp
    then show ?thesis unfolding contains_iff by blast
  qed
  from this [of s p] this [of "rev s" "rev p"] show ?thesis by auto
qed

lemma trim_space_split: "\<exists>a b. s = a @ trim_space s @ b \<and> blank a \<and> blank b"
proof -
  have drop: "\<exists>a. xs = a @ dropWhile is_space xs \<and> blank a" for xs
    by (intro exI [of _ "takeWhile is_space xs"]) (auto simp: blank_iff dest: set_takeWhileD)
  let ?l = "dropWhile is_space s"
  obtain a where a: "s = a @ ?l" "blank a" using drop by blast
  obtain b where b: "rev ?l = b @ dropWhile is_space (rev ?l)" "blank b" using drop by blast
  from arg_cong [OF b(1), of rev] have "?l = trim_space s @ rev b" by (simp add: trim_space_def trim_left_def)
  with a b(2) show ?thesis by (intro exI [of _ a] exI [of _ "rev b"]) (auto simp: blank_iff)
qed

lemma contains_trim_space: "contains (trim_space s) p \<Longrightarrow> contains s p"
proof -
  assume "contains (trim_space s) p"
  then obtain x y where "trim_space s = x @ p @ y" unfolding contains_iff by blast
  moreover obtain a b where "s = a @ trim_space s @ b" using trim_space_split by blast
  ultimately have "s = (a @ x) @ p @ (y @ b)" by simp
  then show ?thesis unfolding contains_iff by blast
qed

lemma to_lower_append [simp]: "to_lower (a @ b) = to_lower a @ to_lower b"
  by (simp add: to_lower_def)

lemma to_lower_Cons [simp]: "to_lower (c # b) = lower_char c # to_lower b"
  by (simp add: to_lower_def)

lemma to_lower_take: "to_lower (take n s) = take n (to_lower s)"
  by (simp add: to_lower_def take_map)

lemma to_lower_join: "to_lower (join_with sep ls) = join_with (to_lower sep) (map to_lower ls)"
  by (induction sep ls rule: join_with.induct) (simp_all add: to_lower_def)

lemma code_of_char_of: "n < 256 \<Longrightarrow> code_of (char_of n) = n"
  by (simp add: code_of_def)

lemma is_space_lower: "is_space (lower_char c) = is_space c"
  by (auto simp: lower_char_def is_space_def Let_def code_of_char_of)

lemma blank_to_lower: "blank (to_lower s) = blank s"
  by (simp add: blank_iff to_lower_def is_space_lower)

lemma blank_lower_append [simp]: "blank (a @ b) \<longleftrightarrow> blank a \<and> blank b"
  by (auto simp: blank_iff)

text \<open>White space around a text hides no phrase that begins and ends with other characters.\<close>

lemma contains_inside_blank:
  assumes "blank a" "blank b" "p \<noteq> []" "\<not> is_space (hd p)" "\<not> is_space (last p)" "contains (a @ s @ b) p"
  shows "contains s p"
proof -
  have left: "contains s q" if "blank a" "q \<noteq> []" "\<not> is_space (hd q)" "contains (a @ s) q" for a s q
    using that
  proof (induction a)
    case (Cons c a)
    then have "\<not> has_prefix (c # a @ s) q"
      by (cases q) (auto simp: blank_iff has_prefix_def)
    with Cons show ?case by (auto simp: blank_iff)
  qed simp
  from left [OF assms(1,3,4)] assms(6) have "contains (rev (s @ b)) (rev p)" by (simp only: contains_rev)
  then have "contains (rev b @ rev s) (rev p)" by simp
  moreover have "blank (rev b)" "\<not> is_space (hd (rev p))"
    using assms(2,3,5) by (simp_all add: blank_iff hd_rev)
  ultimately have "contains (rev s) (rev p)" using left [of "rev b" "rev p" "rev s"] assms(3) by simp
  then show ?thesis by (simp only: contains_rev)
qed

lemma contains_trimmed:
  assumes "p \<noteq> []" "\<not> is_space (hd p)" "\<not> is_space (last p)" "contains (to_lower s) p"
  shows "contains (to_lower (trim_space s)) p"
proof -
  obtain a b where ab: "s = a @ trim_space s @ b" "blank a" "blank b" using trim_space_split by blast
  then have "to_lower s = to_lower a @ to_lower (trim_space s) @ to_lower b" by (metis to_lower_append)
  with assms ab(2,3) show ?thesis
    using contains_inside_blank [of "to_lower a" "to_lower b" p] by (simp add: blank_to_lower)
qed

subsection \<open>Package strconv\<close>

fun nat_str :: "nat \<Rightarrow> string" where
  "nat_str n = (if n < 10 then [char_of (48 + n)] else nat_str (n div 10) @ [char_of (48 + n mod 10)])"

declare nat_str.simps [simp del]

definition itoa :: "int \<Rightarrow> string" where
  "itoa i = (if i < 0 then ''-'' @ nat_str (nat (- i)) else nat_str (nat i))"

definition digit_val :: "char \<Rightarrow> nat option" where
  "digit_val c = (let n = code_of c in if 48 \<le> n \<and> n \<le> 57 then Some (n - 48) else None)"

fun digits_val :: "nat \<Rightarrow> string \<Rightarrow> nat option" where
  "digits_val acc [] = Some acc"
| "digits_val acc (c # s) = (case digit_val c of None \<Rightarrow> None | Some d \<Rightarrow> digits_val (10 * acc + d) s)"

definition unsigned_val :: "string \<Rightarrow> nat option" where
  "unsigned_val s = (if s = [] then None else digits_val 0 s)"

definition int64_range :: "int \<Rightarrow> bool" where
  "int64_range i \<longleftrightarrow> - (2 ^ 63) \<le> i \<and> i < 2 ^ 63"

definition in_int64 :: "int \<Rightarrow> int option" where
  "in_int64 i = (if int64_range i then Some i else None)"

definition atoi :: "string \<Rightarrow> int option" where
  "atoi s = (case s of
     [] \<Rightarrow> None
   | c # r \<Rightarrow>
       if c = CHR ''-'' then Option.bind (unsigned_val r) (\<lambda>n. in_int64 (- int n))
       else if c = CHR ''+'' then Option.bind (unsigned_val r) (\<lambda>n. in_int64 (int n))
       else Option.bind (unsigned_val s) (\<lambda>n. in_int64 (int n)))"

lemma digit_val_digit: "n < 10 \<Longrightarrow> digit_val (char_of (48 + n)) = Some n"
  by (simp add: digit_val_def code_of_def)

lemma digits_val_append: "digits_val acc (s @ t) = Option.bind (digits_val acc s) (\<lambda>a. digits_val a t)"
  by (induction s arbitrary: acc) (auto split: option.splits)

lemma digits_val_nat_str: "digits_val 0 (nat_str n) = Some n"
proof (induction n rule: nat_str.induct)
  case (1 n)
  then show ?case
    by (subst nat_str.simps) (auto simp: digit_val_digit digits_val_append)
qed

lemma nat_str_nonempty [simp]: "nat_str n \<noteq> []"
  by (subst nat_str.simps) simp

lemma nat_str_digits: "c \<in> set (nat_str n) \<Longrightarrow> \<exists>d < 10::nat. c = char_of (48 + d)"
proof (induction n rule: nat_str.induct)
  case (1 n)
  have lt: "n mod 10 < 10" by simp
  from "1.prems" have "c \<in> set (if n < 10 then [char_of (48 + n)]
      else nat_str (n div 10) @ [char_of (48 + n mod 10)])"
    by (simp only: nat_str.simps [of n])
  then consider "n < 10" "c = char_of (48 + n)" | "\<not> n < 10" "c \<in> set (nat_str (n div 10))"
    | "c = char_of (48 + n mod 10)"
    by (auto split: if_splits)
  then show ?case
    using "1.IH" lt by cases blast+
qed

lemma digit_not_sign: "d < (10::nat) \<Longrightarrow> char_of (48 + d) \<noteq> CHR ''-'' \<and> char_of (48 + d) \<noteq> CHR ''+''"
proof -
  assume "d < 10"
  then have "digit_val (char_of (48 + d)) \<noteq> None" by (simp add: digit_val_digit)
  moreover have "digit_val CHR ''-'' = None" and "digit_val CHR ''+'' = None"
    by (simp_all add: digit_val_def code_of_def)
  ultimately show ?thesis by auto
qed

lemma nat_str_hd: "\<exists>c r. nat_str n = c # r \<and> c \<noteq> CHR ''-'' \<and> c \<noteq> CHR ''+''"
proof (cases "nat_str n")
  case (Cons c r)
  then have "c \<in> set (nat_str n)" by simp
  with Cons show ?thesis using nat_str_digits digit_not_sign by metis
qed simp

lemma unsigned_val_nat_str [simp]: "unsigned_val (nat_str n) = Some n"
  by (simp add: unsigned_val_def digits_val_nat_str)

lemma atoi_itoa [simp]:
  assumes "int64_range i"
  shows "atoi (itoa i) = Some i"
proof (cases "i < 0")
  case True
  with assms show ?thesis by (simp add: atoi_def itoa_def in_int64_def)
next
  case False
  obtain c r where c: "nat_str (nat i) = c # r" "c \<noteq> CHR ''-''" "c \<noteq> CHR ''+''"
    using nat_str_hd by blast
  then have "unsigned_val (c # r) = Some (nat i)" using unsigned_val_nat_str [of "nat i"] by simp
  with c False assms show ?thesis by (simp add: atoi_def itoa_def in_int64_def)
qed

lemma nat_str_inj: "nat_str m = nat_str n \<Longrightarrow> m = n"
  using unsigned_val_nat_str by (metis option.inject)

text \<open>Two's complement wrap-around of a Go \<^verbatim>\<open>int64\<close>.\<close>

definition wrap64 :: "int \<Rightarrow> int" where
  "wrap64 i = (i + 2 ^ 63) mod 2 ^ 64 - 2 ^ 63"

lemma wrap64_id: "int64_range i \<Longrightarrow> wrap64 i = i"
  by (simp add: wrap64_def int64_range_def)

lemma wrap64_range: "int64_range (wrap64 i)"
  by (simp add: wrap64_def int64_range_def)

subsection \<open>Errors\<close>

text \<open>
  The sentinel errors of \<^verbatim>\<open>errors.go\<close> and \<^verbatim>\<open>internal/rag/context.go\<close>, those of package
  \<^verbatim>\<open>context\<close>, and the seven of the provider library that the code tests for.
\<close>

datatype sentinel =
    ErrInvalidConfig | ErrUnsupportedSource | ErrAgentClosed | ErrSessionClosed
  | ErrContextAssembly | ErrEvidenceInsufficient | ErrToolCallLimitExceeded | ErrToolCallInvalid
  | ErrToolArgumentInvalid | ErrToolCallDenied | ErrStructuredOutputTarget
  | ErrStructuredOutputInvalid | ErrExecutionBudgetExceeded | ErrProviderCircuitOpen
  | ErrSessionCallbackReentry | ErrInvalidContextLimit | ErrNoContextAssembled
  | CtxCanceled | CtxDeadlineExceeded
  | ProvErrRateLimit | ProvErrAuth | ProvErrTimeout | ProvErrServerError | ProvErrNetwork
  | ProvErrInvalidRequest | ProvErrContextLength

text \<open>An error value: its text, the sentinel it is (if it is one), and what it wraps.\<close>

datatype go_error = GoError (err_text: string) (err_sentinel: "sentinel option") (err_wraps: "go_error list")

type_synonym 'a result = "go_error + 'a"

fun err_is :: "go_error \<Rightarrow> sentinel \<Rightarrow> bool" where
  "err_is (GoError t so ws) s = (so = Some s \<or> (\<exists>w \<in> set ws. err_is w s))"

definition sentinel_error :: "string \<Rightarrow> sentinel \<Rightarrow> go_error" where
  "sentinel_error t s = GoError t (Some s) []"

definition errorf :: "string \<Rightarrow> go_error list \<Rightarrow> go_error" where
  "errorf t ws = GoError t None ws"

text \<open>\<open>errors.Join\<close> of non-nil errors: the texts on lines of their own, every one wrapped.\<close>

definition errors_join :: "go_error list \<Rightarrow> go_error" where
  "errors_join es = GoError (join_with NL (map err_text es)) None es"

lemma err_is_errorf [simp]: "err_is (errorf t ws) s \<longleftrightarrow> (\<exists>w \<in> set ws. err_is w s)"
  by (simp add: errorf_def)

lemma err_is_join [simp]: "err_is (errors_join es) s \<longleftrightarrow> (\<exists>e \<in> set es. err_is e s)"
  by (simp add: errors_join_def)

lemma err_is_sentinel [simp]: "err_is (sentinel_error t s) s' \<longleftrightarrow> s = s'"
  by (simp add: sentinel_error_def)

lemma err_text_errorf [simp]: "err_text (errorf t ws) = t"
  by (simp add: errorf_def)

text \<open>\<open>fmt.Errorf\<close> with a text, a colon and \<open>%w\<close>.\<close>

definition wrap_err :: "string \<Rightarrow> go_error \<Rightarrow> go_error" where
  "wrap_err what e = errorf (what @ '': '' @ err_text e) [e]"

lemma err_is_wrap_err [simp]: "err_is (wrap_err t e) s = err_is e s"
  by (simp add: wrap_err_def)

definition invalid_config :: "string \<Rightarrow> go_error" where
  "invalid_config t = errorf t [sentinel_error ''ragagent: invalid config'' ErrInvalidConfig]"

lemma err_is_invalid_config [simp]: "err_is (invalid_config t) s \<longleftrightarrow> s = ErrInvalidConfig"
  by (auto simp: invalid_config_def)

text \<open>What a call that may panic does.\<close>

datatype 'a outcome = Returned 'a | Panicked string

subsection \<open>Package slices\<close>

text \<open>\<open>slices.Compact\<close> of \<open>slices.Sort\<close>, as every path list is normalised.\<close>

definition sort_compact :: "string list \<Rightarrow> string list" where
  "sort_compact xs = remdups_adj (sort xs)"

lemma set_sort_compact [simp]: "set (sort_compact xs) = set xs"
  by (simp add: sort_compact_def)

lemma sorted_sort_compact: "sorted (sort_compact xs)"
  by (simp add: sort_compact_def)

lemma distinct_remdups_adj_sorted: "sorted (xs :: 'a :: linorder list) \<Longrightarrow> distinct (remdups_adj xs)"
  by (induction xs rule: remdups_adj.induct) (auto simp: order.antisym)

lemma distinct_sort_compact: "distinct (sort_compact xs)"
  by (simp add: sort_compact_def distinct_remdups_adj_sorted)

lemma sort_compact_unique: "set xs = set ys \<Longrightarrow> sort_compact xs = sort_compact ys"
  by (metis sorted_distinct_set_unique sorted_sort_compact distinct_sort_compact set_sort_compact)

lemma sort_compact_Nil [simp]: "sort_compact [] = []"
  by (simp add: sort_compact_def)

lemma sort_compact_eq_Nil [simp]: "sort_compact xs = [] \<longleftrightarrow> xs = []"
  by (metis set_empty set_sort_compact)

subsection \<open>Quoting (verb %q of package fmt)\<close>

definition hex_digit :: "nat \<Rightarrow> char" where
  "hex_digit n = (if n < 10 then char_of (48 + n) else char_of (87 + n))"

definition quote_char :: "char \<Rightarrow> string" where
  "quote_char c = (let n = code_of c in
     if n = 34 \<or> n = 92 then [char_of (92 :: nat), c]
     else if n = 7 then [char_of (92 :: nat), CHR ''a''] else if n = 8 then [char_of (92 :: nat), CHR ''b'']
     else if n = 12 then [char_of (92 :: nat), CHR ''f''] else if n = 10 then [char_of (92 :: nat), CHR ''n'']
     else if n = 13 then [char_of (92 :: nat), CHR ''r''] else if n = 9 then [char_of (92 :: nat), CHR ''t'']
     else if n = 11 then [char_of (92 :: nat), CHR ''v'']
     else if n < 32 \<or> n = 127 then [char_of (92 :: nat), CHR ''x'', hex_digit (n div 16), hex_digit (n mod 16)]
     else if 127 < n \<and> n \<le> 160 \<or> n = 173
     then [char_of (92 :: nat), CHR ''u'', CHR ''0'', CHR ''0'', hex_digit (n div 16), hex_digit (n mod 16)]
     else [c])"

definition quoted :: "string \<Rightarrow> string" where
  "quoted s = [char_of (34 :: nat)] @ concat (map quote_char s) @ [char_of (34 :: nat)]"

end
