(* ===== verification/Domain.thy ===== *)
theory Domain
  imports Prelude
begin

section \<open>Domain: the data types the components exchange\<close>

text \<open>
  The structs of \<^verbatim>\<open>types.go\<close>, \<^verbatim>\<open>knowledge_types.go\<close>, \<^verbatim>\<open>internal/storage/store.go\<close>,
  \<^verbatim>\<open>internal/rag\<close> and \<^verbatim>\<open>internal/llm/chat.go\<close>, as records whose fields keep the source's
  names behind a prefix of the struct. The root package declares \<^verbatim>\<open>ChunkRecord\<close>,
  \<^verbatim>\<open>SearchHit\<close> and \<^verbatim>\<open>SearchFilter\<close> a second time with the same fields and copies
  between the two (\<^verbatim>\<open>component_adapters.go\<close>), so one record stands for both; the copies are
  identities on values. Metadata maps are partial functions; a nil map is the empty one, as
  every reader of the source treats it. Scores are \<^verbatim>\<open>float32\<close> in the source and exact reals
  here.
\<close>

subsection \<open>Knowledge and retrieval\<close>

record knowledge_file =
  kf_Path :: string
  kf_Title :: string
  kf_Metadata :: metadata

record document =
  doc_ID :: string
  doc_SourcePath :: string
  doc_Title :: string
  doc_Metadata :: metadata
  doc_Content :: string

record chunk =
  ch_ChunkID :: string
  ch_ParentID :: string
  ch_SourcePath :: string
  ch_Title :: string
  ch_Metadata :: metadata
  ch_Text :: string
  ch_StartRune :: nat
  ch_EndRune :: nat

type_synonym embedding = "real list"

record chunk_record =
  cr_ChunkID :: string
  cr_ParentID :: string
  cr_SourcePath :: string
  cr_Title :: string
  cr_Text :: string
  cr_StartRune :: int
  cr_EndRune :: int
  cr_Metadata :: metadata
  cr_Embedding :: embedding

record search_hit =
  hit_Chunk :: chunk_record
  hit_Score :: real

record search_filter =
  sf_SourcePaths :: "string list"
  sf_SourcePrefixes :: "string list"
  sf_Metadata :: metadata

definition empty_filter :: search_filter where
  "empty_filter = \<lparr>sf_SourcePaths = [], sf_SourcePrefixes = [], sf_Metadata = Map.empty\<rparr>"

definition hit_id :: "search_hit \<Rightarrow> string" where
  "hit_id h = cr_ChunkID (hit_Chunk h)"

record citation =
  cit_SourcePath :: string
  cit_Title :: string
  cit_ChunkID :: string
  cit_StartRune :: int
  cit_EndRune :: int

record memory_scope =
  ms_UserID :: string
  ms_Tenant :: string

record query_options =
  qo_Filter :: search_filter
  qo_MemoryScope :: memory_scope

definition citationsFromHits :: "search_hit list \<Rightarrow> citation list" where
  "citationsFromHits hits = map (\<lambda>h.
     \<lparr>cit_SourcePath = cr_SourcePath (hit_Chunk h), cit_Title = cr_Title (hit_Chunk h),
      cit_ChunkID = cr_ChunkID (hit_Chunk h), cit_StartRune = cr_StartRune (hit_Chunk h),
      cit_EndRune = cr_EndRune (hit_Chunk h)\<rparr>) hits"

subsection \<open>Metrics and fallbacks\<close>

record retrieval_metrics =
  rm_HybridEnabled :: bool
  rm_RerankEnabled :: bool
  rm_RawCandidateCount :: nat
  rm_VectorCandidateCount :: nat
  rm_LexicalCandidateCount :: nat
  rm_FusedCandidateCount :: nat
  rm_RerankShortlistCount :: nat
  rm_FinalHitCount :: nat

datatype fallback_stage = FallbackStageHybrid | FallbackStageRerank
datatype fallback_target = FallbackTargetVectorOnly | FallbackTargetHybrid

record fallback_event =
  fe_Stage :: fallback_stage
  fe_FallbackTo :: fallback_target
  fe_Err :: go_error

record model_metrics =
  mm_Model :: string
  mm_Stream :: bool
  mm_OutputChars :: nat

subsection \<open>Conversation turns and chat messages\<close>

record turn =
  tn_User :: string
  tn_Assistant :: string

text \<open>The role is a string in the source; \<open>RoleNone\<close> is the empty one of a zero message.\<close>

datatype role = RoleNone | RoleSystem | RoleUser | RoleAssistant | RoleTool

record tool_call =
  tc_ID :: string
  tc_Name :: string
  tc_Arguments :: string

record message =
  msg_Role :: role
  msg_Content :: string
  msg_ToolCalls :: "tool_call list"
  msg_ToolCallID :: string

definition text_message :: "role \<Rightarrow> string \<Rightarrow> message" where
  "text_message r c = \<lparr>msg_Role = r, msg_Content = c, msg_ToolCalls = [], msg_ToolCallID = ''''\<rparr>"

definition userQueries :: "turn list \<Rightarrow> string list" where
  "userQueries turns = map tn_User turns"

definition turnsToMessages :: "turn list \<Rightarrow> message list" where
  "turnsToMessages turns = concat (map (\<lambda>t.
     (if blank (tn_User t) then [] else [text_message RoleUser (tn_User t)]) @
     (if blank (tn_Assistant t) then [] else [text_message RoleAssistant (tn_Assistant t)])) turns)"

lemma msg_text_message [simp]:
  "msg_Content (text_message r c) = c" "msg_Role (text_message r c) = r"
  by (simp_all add: text_message_def)

lemma length_turnsToMessages: "length (turnsToMessages ts) \<le> 2 * length ts"
  by (induction ts) (auto simp: turnsToMessages_def)

end
