(* ===== verification/History.thy ===== *)
theory History
  imports Domain
begin

section \<open>Bounded session history\<close>

text \<open>
  The in-process history of a session (\<^verbatim>\<open>internal/memory/history.go\<close>) and the Redis-backed
  store of \<^verbatim>\<open>history_store.go\<close>, both instances of one contract: a store that keeps the last
  rounds of a conversation. A Redis list is the map of the keys to their values; the
  commands \<^verbatim>\<open>RPUSH\<close>, \<^verbatim>\<open>LTRIM\<close>, \<^verbatim>\<open>LRANGE\<close> and \<^verbatim>\<open>DEL\<close> are given with their documented
  meaning, and the JSON codec of a turn is a parameter whose round trip is a hypothesis.
\<close>

subsection \<open>The in-process history\<close>

record history =
  h_maxRounds :: int
  h_turns :: "turn list"

definition newHistory :: "int \<Rightarrow> history" where
  "newHistory maxRounds = \<lparr>h_maxRounds = maxRounds, h_turns = []\<rparr>"

definition history_append :: "history \<Rightarrow> string \<Rightarrow> string \<Rightarrow> history" where
  "history_append h user assistant =
     (if h_maxRounds h \<le> 0 then h\<lparr>h_turns := []\<rparr>
      else let turns = h_turns h @ [\<lparr>tn_User = user, tn_Assistant = assistant\<rparr>]
           in if int (length turns) > h_maxRounds h
              then h\<lparr>h_turns := drop (nat (int (length turns) - h_maxRounds h)) turns\<rparr>
              else h\<lparr>h_turns := turns\<rparr>)"

definition history_clear :: "history \<Rightarrow> history" where
  "history_clear h = h\<lparr>h_turns := []\<rparr>"

definition lastUserQueries :: "history \<Rightarrow> string list" where
  "lastUserQueries h = map tn_User (h_turns h)"

definition history_bounded :: "history \<Rightarrow> bool" where
  "history_bounded h \<longleftrightarrow> int (length (h_turns h)) \<le> max 0 (h_maxRounds h)"

text \<open>The last \<open>n\<close> elements of a list.\<close>

definition last_n :: "nat \<Rightarrow> 'a list \<Rightarrow> 'a list" where
  "last_n n xs = drop (length xs - n) xs"

lemma length_last_n [simp]: "length (last_n n xs) = min n (length xs)"
  by (simp add: last_n_def)

lemma last_n_all: "length xs \<le> n \<Longrightarrow> last_n n xs = xs"
  by (simp add: last_n_def)

lemma last_n_0 [simp]: "last_n 0 xs = []"
  by (simp add: last_n_def)

lemma last_n_append_last: "last_n n (last_n n xs @ [y]) = last_n n (xs @ [y])"
proof (cases "length xs \<le> n")
  case True
  then show ?thesis by (simp add: last_n_def)
next
  case False
  then show ?thesis by (cases n) (simp_all add: last_n_def Suc_diff_Suc)
qed

lemma turn_eta [simp]: "\<lparr>tn_User = tn_User t, tn_Assistant = tn_Assistant t\<rparr> = (t :: turn)"
  by simp

lemma history_append_turns:
  "h_turns (history_append h u a) =
     last_n (nat (h_maxRounds h)) (h_turns h @ [\<lparr>tn_User = u, tn_Assistant = a\<rparr>])"
proof (cases "h_maxRounds h \<le> 0")
  case True
  then show ?thesis by (simp add: history_append_def)
next
  case False
  let ?ts = "h_turns h @ [\<lparr>tn_User = u, tn_Assistant = a\<rparr>]"
  have "nat (int (length ?ts) - h_maxRounds h) = length ?ts - nat (h_maxRounds h)"
    using False by linarith
  with False show ?thesis
    by (auto simp: history_append_def Let_def last_n_def)
qed

lemma history_append_maxRounds [simp]: "h_maxRounds (history_append h u a) = h_maxRounds h"
  by (simp add: history_append_def Let_def)

lemma history_clear_simps [simp]:
  "h_turns (history_clear h) = []" "h_maxRounds (history_clear h) = h_maxRounds h"
  by (simp_all add: history_clear_def)

lemma newHistory_simps [simp]: "h_turns (newHistory n) = []" "h_maxRounds (newHistory n) = n"
  by (simp_all add: newHistory_def)

lemma history_bounded_append: "history_bounded (history_append h u a)"
  by (simp add: history_bounded_def history_append_turns)

subsection \<open>The contract of a round store\<close>

text \<open>
  What a session relies on: loading after an append gives the last rounds of what was there
  with the new turn at the end, clearing empties it, and no operation touches another
  session. \<open>cap\<close> is the number of rounds kept (\<open>None\<close> for no limit).
\<close>

definition keep :: "nat option \<Rightarrow> 'a list \<Rightarrow> 'a list" where
  "keep cap xs = (case cap of None \<Rightarrow> xs | Some n \<Rightarrow> last_n n xs)"

locale round_store =
  fixes cap :: "nat option"
    and valid :: "'s \<Rightarrow> 'k \<Rightarrow> bool"
    and load :: "'s \<Rightarrow> 'k \<Rightarrow> turn list"
    and append_turn :: "'s \<Rightarrow> 'k \<Rightarrow> turn \<Rightarrow> 's"
    and clear :: "'s \<Rightarrow> 'k \<Rightarrow> 's"
  assumes load_append: "valid s k \<Longrightarrow> load (append_turn s k t) k = keep cap (load s k @ [t])"
    and valid_append: "valid s k \<Longrightarrow> valid (append_turn s k t) k"
    and load_append_other: "k' \<noteq> k \<Longrightarrow> load (append_turn s k t) k' = load s k'"
    and load_clear: "load (clear s k) k = []"
    and valid_clear: "valid (clear s k) k"
    and load_clear_other: "k' \<noteq> k \<Longrightarrow> load (clear s k) k' = load s k'"
begin

lemma load_append_many:
  assumes "valid s k" "load s k = keep cap (load s k)"
  shows "valid (fold (\<lambda>t s. append_turn s k t) ts s) k
       \<and> load (fold (\<lambda>t s. append_turn s k t) ts s) k = keep cap (load s k @ ts)"
  using assms
proof (induction ts rule: rev_induct)
  case Nil
  then show ?case by simp
next
  case (snoc t ts)
  then show ?case
    by (simp add: load_append valid_append keep_def last_n_append_last split: option.splits flip: append_assoc)
qed

lemma conversation:
  "load (fold (\<lambda>t s. append_turn s k t) ts (clear s k)) k = keep cap ts"
  using load_append_many [of "clear s k" k ts]
  by (simp add: load_clear valid_clear keep_def last_n_def split: option.splits)

lemma conversation_isolated:
  "k' \<noteq> k \<Longrightarrow> load (fold (\<lambda>t s. append_turn s k t) ts (clear s k)) k' = load s k'"
  by (induction ts rule: rev_induct) (simp_all add: load_clear_other load_append_other)

end

text \<open>
  The in-process histories of the sessions of an agent: every session has its own history of
  at most \<open>n\<close> rounds.
\<close>

definition proc_load :: "('k \<Rightarrow> history) \<Rightarrow> 'k \<Rightarrow> turn list" where
  "proc_load s k = h_turns (s k)"

definition proc_append :: "int \<Rightarrow> ('k \<Rightarrow> history) \<Rightarrow> 'k \<Rightarrow> turn \<Rightarrow> ('k \<Rightarrow> history)" where
  "proc_append n s k t =
     s(k := history_append ((s k)\<lparr>h_maxRounds := n\<rparr>) (tn_User t) (tn_Assistant t))"

definition proc_clear :: "('k \<Rightarrow> history) \<Rightarrow> 'k \<Rightarrow> ('k \<Rightarrow> history)" where
  "proc_clear s k = s(k := history_clear (s k))"

interpretation proc: round_store "Some (nat n)" "\<lambda>s k. True" proc_load "proc_append n" proc_clear for n
  by unfold_locales
     (auto simp: proc_load_def proc_append_def proc_clear_def history_append_turns keep_def)

subsection \<open>The Redis history store\<close>

record redis_history_config =
  rh_KeyPrefix :: string
  rh_TTL :: duration
  rh_MaxRounds :: int

definition rh_normalized :: "redis_history_config \<Rightarrow> redis_history_config" where
  "rh_normalized c =
     (let p = trim_space (rh_KeyPrefix c)
      in c\<lparr>rh_KeyPrefix := (if p = '''' then ''ragagent:history'' else p)\<rparr>)"

definition newRedisHistoryStore ::
  "'client option \<Rightarrow> redis_history_config \<Rightarrow> (redis_history_config) result" where
  "newRedisHistoryStore client cfg =
     (if client = None then Inl (invalid_config ''redis history store client is required'')
      else if rh_TTL cfg < 0 then Inl (invalid_config ''redis history store ttl must be non-negative'')
      else if rh_MaxRounds cfg < 0
        then Inl (invalid_config ''redis history store max rounds must be non-negative'')
      else Inr (rh_normalized cfg))"

definition rh_key :: "redis_history_config \<Rightarrow> string \<Rightarrow> string" where
  "rh_key cfg sessionID = rh_KeyPrefix cfg @ '':'' @ sessionID"

type_synonym redis_lists = "string \<Rightarrow> string list"

text \<open>\<^verbatim>\<open>LTRIM key (-n) -1\<close> keeps the last \<open>n\<close> elements.\<close>

definition redis_ltrim_last :: "nat \<Rightarrow> string list \<Rightarrow> string list" where
  "redis_ltrim_last n xs = last_n n xs"

fun decode_all :: "(string \<Rightarrow> turn result) \<Rightarrow> string list \<Rightarrow> (turn list) result" where
  "decode_all dec [] = Inr []"
| "decode_all dec (v # vs) = (case dec v of
     Inl e \<Rightarrow> Inl (errorf (''redis history decode turn: '' @ err_text e) [e])
   | Inr t \<Rightarrow> (case decode_all dec vs of Inl e \<Rightarrow> Inl e | Inr ts \<Rightarrow> Inr (t # ts)))"

definition rh_Load ::
  "(string \<Rightarrow> turn result) \<Rightarrow> redis_history_config \<Rightarrow> redis_lists \<Rightarrow> string \<Rightarrow> (turn list) result" where
  "rh_Load dec cfg db sessionID = decode_all dec (db (rh_key cfg sessionID))"

definition rh_Append ::
  "(turn \<Rightarrow> string) \<Rightarrow> redis_history_config \<Rightarrow> redis_lists \<Rightarrow> string \<Rightarrow> turn \<Rightarrow> redis_lists" where
  "rh_Append enc cfg db sessionID t =
     (let key = rh_key cfg sessionID; vs = db key @ [enc t]
      in db(key := (if rh_MaxRounds cfg > 0 then redis_ltrim_last (nat (rh_MaxRounds cfg)) vs else vs)))"

definition rh_Clear :: "redis_history_config \<Rightarrow> redis_lists \<Rightarrow> string \<Rightarrow> redis_lists" where
  "rh_Clear cfg db sessionID = db(rh_key cfg sessionID := [])"

lemma rh_key_inj [simp]: "rh_key cfg a = rh_key cfg b \<longleftrightarrow> a = b"
  by (simp add: rh_key_def)

lemma decode_all_map:
  "\<forall>t. dec (enc t) = Inr t \<Longrightarrow> decode_all dec (map enc ts) = Inr ts"
  by (induction ts) auto

text \<open>The store with its list of turns in the clear: what the Redis database encodes.\<close>

definition rh_cap :: "redis_history_config \<Rightarrow> nat option" where
  "rh_cap cfg = (if rh_MaxRounds cfg > 0 then Some (nat (rh_MaxRounds cfg)) else None)"

lemma rh_Append_lists:
  assumes "db (rh_key cfg k) = map enc ts"
  shows "rh_Append enc cfg db k t (rh_key cfg k) = map enc (keep (rh_cap cfg) (ts @ [t]))"
  using assms
  by (simp add: rh_Append_def Let_def keep_def rh_cap_def redis_ltrim_last_def last_n_def drop_map)

lemma rh_Append_other: "k' \<noteq> k \<Longrightarrow> rh_Append enc cfg db k t (rh_key cfg k') = db (rh_key cfg k')"
  by (simp add: rh_Append_def Let_def)

lemma rh_Clear_other: "k' \<noteq> k \<Longrightarrow> rh_Clear cfg db k (rh_key cfg k') = db (rh_key cfg k')"
  by (simp add: rh_Clear_def)

lemma rh_Load_lists:
  assumes "\<forall>t. dec (enc t) = Inr t" and "db (rh_key cfg k) = map enc ts"
  shows "rh_Load dec cfg db k = Inr ts"
  using assms by (simp add: rh_Load_def decode_all_map)

text \<open>
  The Redis store keeps the contract for the lists that its own codec wrote. The turns a
  list holds are read back with \<^verbatim>\<open>Load\<close>; a list of undecodable values reads as empty here.
\<close>

definition rh_turns :: "(string \<Rightarrow> turn result) \<Rightarrow> redis_history_config \<Rightarrow> redis_lists \<Rightarrow> string \<Rightarrow> turn list" where
  "rh_turns dec cfg db k = (case rh_Load dec cfg db k of Inr ts \<Rightarrow> ts | Inl _ \<Rightarrow> [])"

definition rh_valid :: "(turn \<Rightarrow> string) \<Rightarrow> redis_history_config \<Rightarrow> redis_lists \<Rightarrow> string \<Rightarrow> bool" where
  "rh_valid enc cfg db k \<longleftrightarrow> db (rh_key cfg k) \<in> range (map enc)"

lemma redis_round_store:
  assumes rt: "\<forall>t. dec (enc t) = Inr t"
  shows "round_store (rh_cap cfg) (rh_valid enc cfg) (rh_turns dec cfg) (rh_Append enc cfg) (rh_Clear cfg)"
proof unfold_locales
  fix db k t
  assume "rh_valid enc cfg db k"
  then obtain ts where ts: "db (rh_key cfg k) = map enc ts" by (auto simp: rh_valid_def)
  from rh_Append_lists [where enc = enc and db = db and cfg = cfg and t = t, OF this]
  have app: "rh_Append enc cfg db k t (rh_key cfg k) = map enc (keep (rh_cap cfg) (ts @ [t]))" .
  show "rh_turns dec cfg (rh_Append enc cfg db k t) k = keep (rh_cap cfg) (rh_turns dec cfg db k @ [t])"
    using rh_Load_lists [where dec = dec and enc = enc and cfg = cfg and k = k, OF rt] ts app
    by (simp add: rh_turns_def)
  show "rh_valid enc cfg (rh_Append enc cfg db k t) k"
    using app by (simp add: rh_valid_def)
qed (auto simp: rh_turns_def rh_Load_def rh_Append_other rh_Clear_other rh_Clear_def rh_valid_def image_iff)

text \<open>A codec with the round-trip law, for the witnesses: a turn as tagged characters.\<close>

fun tag_turn :: "turn \<Rightarrow> string" where
  "tag_turn t = concat (map (\<lambda>c. [CHR ''u'', c]) (tn_User t)) @ concat (map (\<lambda>c. [CHR ''a'', c]) (tn_Assistant t))"

fun untag :: "string \<Rightarrow> turn" where
  "untag (x # c # s) = (let t = untag s in
     if x = CHR ''u'' then t\<lparr>tn_User := c # tn_User t\<rparr> else t\<lparr>tn_Assistant := c # tn_Assistant t\<rparr>)"
| "untag _ = \<lparr>tn_User = '''', tn_Assistant = ''''\<rparr>"

lemma untag_assistant:
  "untag (concat (map (\<lambda>c. [CHR ''a'', c]) s)) = \<lparr>tn_User = '''', tn_Assistant = s\<rparr>"
  by (induction s) (simp_all add: Let_def)

lemma untag_tag: "untag (tag_turn t) = t"
proof -
  have "untag (concat (map (\<lambda>c. [CHR ''u'', c]) u) @ concat (map (\<lambda>c. [CHR ''a'', c]) a))
      = \<lparr>tn_User = u, tn_Assistant = a\<rparr>" for u a
    by (induction u) (simp_all add: untag_assistant Let_def)
  then show ?thesis by simp
qed



text \<open>The in-process histories keep, for each session, the last maxRounds turns appended
  since it was cleared, and no operation of one session changes another.\<close>

theorem process_history_conversation:
  "proc_load (fold (\<lambda>t s. proc_append n s k t) ts (proc_clear s k)) k = last_n (nat n) ts
   \<and> (proc_load (fold (\<lambda>t s. proc_append n s k t) ts (proc_clear s k))) (k := []) = (proc_load s) (k := [])"
  using proc.conversation [of n k ts s] proc.conversation_isolated [of _ k n ts s]
  by (auto simp: keep_def fun_eq_iff)

end
