(* ===== verification/PromptCache.thy ===== *)
theory PromptCache
  imports Domain "HOL-Library.AList"
begin

section \<open>Prompt caches\<close>

text \<open>
  \<^verbatim>\<open>prompt_cache.go\<close>: the bounded in-memory cache with its LRU list, the Redis cache, the
  two-level cache built from any two caches, and the adapter the graph layer uses. The
  in-memory cache is modelled with its pointers: \<open>pc_items\<close> is the Go map from keys to list
  elements (an association list with distinct keys, so its length is \<^verbatim>\<open>len(c.items)\<close>),
  \<open>pc_lru\<close> the list of elements, front first, and \<open>pc_heap\<close> what each element points to.
  Its abstraction is the list of entries from the most to the least recently used one. The
  eviction loop is a \<^theory_text>\<open>partial_function\<close>, so that its termination is a theorem.
  A time of 0 is Go's zero time.
\<close>

type_synonym messages = "message list"

record prompt_cache_config =
  pcc_MaxEntries :: int
  pcc_TTL :: duration

definition pcc_normalized :: "prompt_cache_config \<Rightarrow> prompt_cache_config" where
  "pcc_normalized c = (if pcc_MaxEntries c \<le> 0 then c\<lparr>pcc_MaxEntries := 1024\<rparr> else c)"

record prompt_cache_entry =
  pe_key :: string
  pe_messages :: messages
  pe_expiresAt :: gotime

record mem_cache =
  pc_items :: "(string \<times> nat) list"
  pc_lru :: "nat list"
  pc_heap :: "nat \<Rightarrow> prompt_cache_entry"
  pc_next :: nat
  pc_cfg :: prompt_cache_config

definition newInMemoryPromptCache :: "prompt_cache_config \<Rightarrow> mem_cache" where
  "newInMemoryPromptCache cfg =
     \<lparr>pc_items = [], pc_lru = [],
      pc_heap = (\<lambda>_. \<lparr>pe_key = '''', pe_messages = [], pe_expiresAt = 0\<rparr>),
      pc_next = 0, pc_cfg = pcc_normalized cfg\<rparr>"

definition pc_expiresAt :: "gotime \<Rightarrow> mem_cache \<Rightarrow> gotime" where
  "pc_expiresAt now c = (if pcc_TTL (pc_cfg c) \<le> 0 then 0 else now + pcc_TTL (pc_cfg c))"

definition pc_expired :: "gotime \<Rightarrow> prompt_cache_entry \<Rightarrow> bool" where
  "pc_expired now e \<longleftrightarrow> pe_expiresAt e \<noteq> 0 \<and> \<not> pe_expiresAt e > now"

definition pc_removeElement :: "mem_cache \<Rightarrow> nat \<Rightarrow> mem_cache" where
  "pc_removeElement c e = c\<lparr>pc_lru := remove1 e (pc_lru c),
     pc_items := AList.delete (pe_key (pc_heap c e)) (pc_items c)\<rparr>"

definition pc_moveToFront :: "mem_cache \<Rightarrow> nat \<Rightarrow> mem_cache" where
  "pc_moveToFront c e = c\<lparr>pc_lru := e # remove1 e (pc_lru c)\<rparr>"

definition pc_Get :: "gotime \<Rightarrow> mem_cache \<Rightarrow> string \<Rightarrow> messages option \<times> mem_cache" where
  "pc_Get now c key = (case map_of (pc_items c) key of
     None \<Rightarrow> (None, c)
   | Some e \<Rightarrow>
       if pc_expired now (pc_heap c e) then (None, pc_removeElement c e)
       else (Some (pe_messages (pc_heap c e)), pc_moveToFront c e))"

text \<open>\<^verbatim>\<open>removeElement(c.lru.Back())\<close>: nothing happens on an empty list.\<close>

definition pc_removeBack :: "mem_cache \<Rightarrow> mem_cache" where
  "pc_removeBack c = (case pc_lru c of [] \<Rightarrow> c | _ # _ \<Rightarrow> pc_removeElement c (last (pc_lru c)))"

partial_function (option) pc_evict :: "mem_cache \<Rightarrow> mem_cache option" where
  "pc_evict c = (if int (length (pc_items c)) > pcc_MaxEntries (pc_cfg c)
                 then pc_evict (pc_removeBack c) else Some c)"

definition pc_Set :: "gotime \<Rightarrow> mem_cache \<Rightarrow> string \<Rightarrow> messages \<Rightarrow> mem_cache option" where
  "pc_Set now c key messages = (case map_of (pc_items c) key of
     Some e \<Rightarrow> Some (pc_moveToFront (c\<lparr>pc_heap := (pc_heap c)(e :=
         (pc_heap c e)\<lparr>pe_messages := messages, pe_expiresAt := pc_expiresAt now c\<rparr>)\<rparr>) e)
   | None \<Rightarrow>
       (let e = pc_next c;
            entry = \<lparr>pe_key = key, pe_messages = messages, pe_expiresAt = pc_expiresAt now c\<rparr>
        in pc_evict (c\<lparr>pc_heap := (pc_heap c)(e := entry), pc_next := Suc e,
             pc_lru := e # pc_lru c, pc_items := (key, e) # pc_items c\<rparr>)))"

fun pc_deleteKeys :: "mem_cache \<Rightarrow> string list \<Rightarrow> mem_cache" where
  "pc_deleteKeys c [] = c"
| "pc_deleteKeys c (k # ks) = pc_deleteKeys
     (case map_of (pc_items c) k of Some e \<Rightarrow> pc_removeElement c e | None \<Rightarrow> c) ks"

definition pc_Delete :: "go_error option \<Rightarrow> mem_cache \<Rightarrow> string list \<Rightarrow> go_error option \<times> mem_cache" where
  "pc_Delete ctx_err c keys = (case ctx_err of Some e \<Rightarrow> (Some e, c) | None \<Rightarrow> (None, pc_deleteKeys c keys))"

definition pc_Clear :: "go_error option \<Rightarrow> mem_cache \<Rightarrow> go_error option \<times> mem_cache" where
  "pc_Clear ctx_err c = (case ctx_err of Some e \<Rightarrow> (Some e, c)
     | None \<Rightarrow> (None, c\<lparr>pc_items := [], pc_lru := []\<rparr>))"

text \<open>The sweep of \<^verbatim>\<open>removeExpiredLocked\<close> walks the list from its back.\<close>

fun pc_sweep :: "gotime \<Rightarrow> nat list \<Rightarrow> mem_cache \<Rightarrow> mem_cache" where
  "pc_sweep now [] c = c"
| "pc_sweep now (e # es) c =
     pc_sweep now es (if pc_expired now (pc_heap c e) then pc_removeElement c e else c)"

definition pc_removeExpired :: "gotime \<Rightarrow> mem_cache \<Rightarrow> mem_cache" where
  "pc_removeExpired now c = pc_sweep now (rev (pc_lru c)) c"

definition pc_Stats :: "gotime \<Rightarrow> go_error option \<Rightarrow> mem_cache \<Rightarrow> nat result \<times> mem_cache" where
  "pc_Stats now ctx_err c = (case ctx_err of Some e \<Rightarrow> (Inl e, c)
     | None \<Rightarrow> let c' = pc_removeExpired now c in (Inr (length (pc_items c')), c'))"

subsection \<open>The representation invariant\<close>

definition pc_wf :: "mem_cache \<Rightarrow> bool" where
  "pc_wf c \<longleftrightarrow> distinct (map fst (pc_items c)) \<and> distinct (pc_lru c)
     \<and> (\<forall>k e. map_of (pc_items c) k = Some e \<longleftrightarrow> e \<in> set (pc_lru c) \<and> pe_key (pc_heap c e) = k)
     \<and> (\<forall>e \<in> set (pc_lru c). e < pc_next c)"

definition pc_inv :: "mem_cache \<Rightarrow> bool" where
  "pc_inv c \<longleftrightarrow> pc_wf c \<and> 0 < pcc_MaxEntries (pc_cfg c)
     \<and> int (length (pc_items c)) \<le> pcc_MaxEntries (pc_cfg c)"

text \<open>The abstraction: the entries, most recently used first.\<close>

definition pc_abs :: "mem_cache \<Rightarrow> prompt_cache_entry list" where
  "pc_abs c = map (pc_heap c) (pc_lru c)"

lemma pc_wf_keys_inj: "pc_wf c \<Longrightarrow> inj_on (\<lambda>e. pe_key (pc_heap c e)) (set (pc_lru c))"
  unfolding pc_wf_def inj_on_def by (metis option.inject)

lemma pc_wf_dom: "pc_wf c \<Longrightarrow> fst ` set (pc_items c) = (\<lambda>e. pe_key (pc_heap c e)) ` set (pc_lru c)"
  unfolding pc_wf_def by (auto simp: image_iff) (metis map_of_eq_Some_iff fst_conv weak_map_of_SomeI)+

lemma pc_wf_length:
  assumes "pc_wf c"
  shows "length (pc_items c) = length (pc_lru c)"
proof -
  have "length (pc_items c) = card (fst ` set (pc_items c))"
    using assms by (metis pc_wf_def distinct_card length_map set_map)
  also have "\<dots> = card (set (pc_lru c))"
    using pc_wf_dom [OF assms] pc_wf_keys_inj [OF assms] by (simp add: card_image)
  also have "\<dots> = length (pc_lru c)"
    using assms by (simp add: pc_wf_def distinct_card)
  finally show ?thesis .
qed

lemma pc_wf_remove:
  assumes "pc_wf c" "e \<in> set (pc_lru c)"
  shows "pc_wf (pc_removeElement c e)"
proof -
  have key: "map_of (pc_items c) (pe_key (pc_heap c e)) = Some e"
    using assms by (simp add: pc_wf_def)
  have "map_of (AList.delete (pe_key (pc_heap c e)) (pc_items c)) k = Some x \<longleftrightarrow>
        x \<in> set (remove1 e (pc_lru c)) \<and> pe_key (pc_heap c x) = k" for k x
    using assms key pc_wf_keys_inj [OF assms(1)] unfolding pc_wf_def inj_on_def
    by (auto simp: delete_conv)
  then show ?thesis
    using assms unfolding pc_wf_def pc_removeElement_def
    by (auto simp: distinct_delete)
qed

lemma pc_wf_front:
  assumes "pc_wf c" "e \<in> set (pc_lru c)"
  shows "pc_wf (pc_moveToFront c e)"
  using assms unfolding pc_wf_def pc_moveToFront_def by auto


lemma pc_removeElement_simps [simp]:
  "pc_heap (pc_removeElement c e) = pc_heap c" "pc_cfg (pc_removeElement c e) = pc_cfg c"
  "pc_lru (pc_removeElement c e) = remove1 e (pc_lru c)"
  by (simp_all add: pc_removeElement_def)

lemma pc_moveToFront_simps [simp]:
  "pc_heap (pc_moveToFront c e) = pc_heap c" "pc_cfg (pc_moveToFront c e) = pc_cfg c"
  "pc_items (pc_moveToFront c e) = pc_items c"
  "pc_lru (pc_moveToFront c e) = e # remove1 e (pc_lru c)"
  by (simp_all add: pc_moveToFront_def)

lemma pc_inv_remove:
  assumes "pc_inv c" "e \<in> set (pc_lru c)"
  shows "pc_inv (pc_removeElement c e)"
proof -
  have wf: "pc_wf c" "pc_wf (pc_removeElement c e)"
    using assms pc_wf_remove by (auto simp: pc_inv_def)
  have "length (pc_items (pc_removeElement c e)) \<le> length (pc_items c)"
    using wf by (simp add: pc_wf_length length_remove1)
  with assms wf show ?thesis by (simp add: pc_inv_def)
qed

lemma pc_inv_front: "pc_inv c \<Longrightarrow> e \<in> set (pc_lru c) \<Longrightarrow> pc_inv (pc_moveToFront c e)"
  by (simp add: pc_inv_def pc_wf_front)

lemma pc_inv_lookup: "pc_inv c \<Longrightarrow> map_of (pc_items c) k = Some e \<Longrightarrow> e \<in> set (pc_lru c)"
  unfolding pc_inv_def pc_wf_def by blast

lemma pc_inv_new: "pc_inv (newInMemoryPromptCache cfg)"
  by (simp add: pc_inv_def pc_wf_def newInMemoryPromptCache_def pcc_normalized_def)

lemma pc_inv_Get: "pc_inv c \<Longrightarrow> pc_inv (snd (pc_Get now c k))"
  by (auto simp: pc_Get_def intro: pc_inv_remove pc_inv_front pc_inv_lookup split: option.splits)

lemma pc_wf_heap_update:
  "pc_wf c \<Longrightarrow> pe_key v = pe_key (pc_heap c e) \<Longrightarrow> pc_wf (c\<lparr>pc_heap := (pc_heap c)(e := v)\<rparr>)"
  unfolding pc_wf_def by simp

lemma pc_wf_push:
  assumes "pc_wf c" "map_of (pc_items c) (pe_key v) = None"
  shows "pc_wf (c\<lparr>pc_heap := (pc_heap c)(pc_next c := v), pc_next := Suc (pc_next c),
     pc_lru := pc_next c # pc_lru c, pc_items := (pe_key v, pc_next c) # pc_items c\<rparr>)"
proof -
  have fresh: "pc_next c \<notin> set (pc_lru c)" and lt: "\<And>e. e \<in> set (pc_lru c) \<Longrightarrow> e < pc_next c"
    and key: "\<And>k e. map_of (pc_items c) k = Some e \<longleftrightarrow> e \<in> set (pc_lru c) \<and> pe_key (pc_heap c e) = k"
    and d: "distinct (map fst (pc_items c))" "distinct (pc_lru c)"
    using assms(1) unfolding pc_wf_def by auto
  have new: "pe_key v \<notin> fst ` set (pc_items c)"
    using assms(2) by (simp add: map_of_eq_None_iff)
  have "(if k = pe_key v then Some (pc_next c) else map_of (pc_items c) k) = Some x \<longleftrightarrow>
     x \<in> set (pc_next c # pc_lru c) \<and> pe_key (((pc_heap c)(pc_next c := v)) x) = k" for k x
    using key [of k x] assms(2) fresh by auto
  then show ?thesis
    using d new fresh lt unfolding pc_wf_def by (auto simp: less_Suc_eq)
qed

text \<open>
  The eviction loop returns on every well-formed cache with a positive bound, and what it
  returns keeps the most recent entries.
\<close>

lemma pc_evict_returns:
  assumes "pc_wf c" "0 < pcc_MaxEntries (pc_cfg c)"
  shows "\<exists>c'. pc_evict c = Some c' \<and> pc_inv c' \<and> pc_heap c' = pc_heap c \<and> pc_cfg c' = pc_cfg c
     \<and> pc_lru c' = take (nat (pcc_MaxEntries (pc_cfg c))) (pc_lru c)"
  using assms
proof (induction "length (pc_lru c)" arbitrary: c rule: less_induct)
  case less
  let ?m = "nat (pcc_MaxEntries (pc_cfg c))"
  show ?case
  proof (cases "length (pc_lru c) \<le> ?m")
    case True
    then have "int (length (pc_items c)) \<le> pcc_MaxEntries (pc_cfg c)"
      using less.prems by (simp add: pc_wf_length)
    then have "pc_evict c = Some c" "pc_inv c"
      using less.prems by (simp_all add: pc_evict.simps pc_inv_def)
    with True show ?thesis by simp
  next
    case False
    then have ne: "pc_lru c \<noteq> []" by auto
    let ?c = "pc_removeElement c (last (pc_lru c))"
    have dist: "distinct (pc_lru c)" using less.prems by (simp add: pc_wf_def)
    have lru: "remove1 (last (pc_lru c)) (pc_lru c) = butlast (pc_lru c)"
      using ne dist by (metis append_butlast_last_id distinct_append not_distinct_conv_prefix
          remove1_append remove1.simps(2) append_Nil2 butlast_snoc distinct1_rotate rotate1.simps(2))
    have wf: "pc_wf ?c" using less.prems(1) ne by (intro pc_wf_remove) auto
    have "length (pc_lru ?c) < length (pc_lru c)" using ne by (simp add: lru)
    from less.hyps [OF this wf] less.prems(2) obtain c' where
      c': "pc_evict ?c = Some c'" "pc_inv c'" "pc_heap c' = pc_heap c" "pc_cfg c' = pc_cfg c"
      "pc_lru c' = take ?m (butlast (pc_lru c))"
      by (auto simp: lru)
    have "int (length (pc_items c)) > pcc_MaxEntries (pc_cfg c)"
      using False less.prems by (simp add: pc_wf_length)
    then have "pc_evict c = pc_evict (pc_removeBack c)" by (simp add: pc_evict.simps)
    also have "pc_removeBack c = ?c"
      using ne by (auto simp: pc_removeBack_def split: list.splits)
    finally have "pc_evict c = Some c'" using c'(1) by simp
    moreover have "take ?m (butlast (pc_lru c)) = take ?m (pc_lru c)"
      using False by (simp add: take_butlast)
    ultimately show ?thesis using c' by auto
  qed
qed

lemma pc_Set_returns:
  assumes "pc_inv c"
  shows "\<exists>c'. pc_Set now c k m = Some c' \<and> pc_inv c' \<and> pc_cfg c' = pc_cfg c"
proof (cases "map_of (pc_items c) k")
  case None
  have "pc_wf c" "0 < pcc_MaxEntries (pc_cfg c)" using assms by (auto simp: pc_inv_def)
  then show ?thesis
    using None pc_evict_returns [OF pc_wf_push [of c "\<lparr>pe_key = k, pe_messages = m, pe_expiresAt = pc_expiresAt now c\<rparr>"]]
    by (auto simp: pc_Set_def Let_def)
next
  case (Some e)
  then have e: "e \<in> set (pc_lru c)" using assms by (rule_tac pc_inv_lookup)
  have "pc_inv (c\<lparr>pc_heap := (pc_heap c)(e := (pc_heap c e)\<lparr>pe_messages := m, pe_expiresAt := pc_expiresAt now c\<rparr>)\<rparr>)"
    using assms by (simp add: pc_inv_def pc_wf_heap_update)
  then show ?thesis
    using Some e by (auto simp: pc_Set_def intro: pc_inv_front)
qed

lemma pc_inv_deleteKeys: "pc_inv c \<Longrightarrow> pc_inv (pc_deleteKeys c ks)"
  by (induction ks arbitrary: c)
     (auto split: option.splits intro: pc_inv_remove pc_inv_lookup)

lemma pc_inv_sweep:
  "pc_inv c \<Longrightarrow> distinct es \<Longrightarrow> set es \<subseteq> set (pc_lru c) \<Longrightarrow> pc_inv (pc_sweep now es c)"
proof (induction es arbitrary: c)
  case (Cons e es)
  have d: "distinct (pc_lru c)" using Cons.prems by (simp add: pc_inv_def pc_wf_def)
  then show ?case
    using Cons by (auto intro!: Cons.IH intro: pc_inv_remove)
qed simp

lemma pc_inv_removeExpired: "pc_inv c \<Longrightarrow> pc_inv (pc_removeExpired now c)"
  unfolding pc_removeExpired_def by (rule pc_inv_sweep) (auto simp: pc_inv_def pc_wf_def)

lemma pc_inv_Clear: "pc_inv c \<Longrightarrow> pc_inv (snd (pc_Clear err c))"
  by (auto simp: pc_Clear_def pc_inv_def pc_wf_def split: option.splits)


subsection \<open>Refinement of an LRU list\<close>

text \<open>
  The specification works on the list of entries alone. A look-up moves a live entry to the
  front and drops an expired one, a store puts the entry in front and keeps the first \<open>n\<close>.
\<close>

definition others :: "string \<Rightarrow> prompt_cache_entry list \<Rightarrow> prompt_cache_entry list" where
  "others k es = filter (\<lambda>e. pe_key e \<noteq> k) es"

definition lru_get :: "gotime \<Rightarrow> string \<Rightarrow> prompt_cache_entry list \<Rightarrow> messages option \<times> prompt_cache_entry list" where
  "lru_get now k es = (case filter (\<lambda>e. pe_key e = k) es of
     [] \<Rightarrow> (None, es)
   | e # _ \<Rightarrow> if pc_expired now e then (None, others k es) else (Some (pe_messages e), e # others k es))"

definition lru_set :: "nat \<Rightarrow> prompt_cache_entry \<Rightarrow> prompt_cache_entry list \<Rightarrow> prompt_cache_entry list" where
  "lru_set n e es = take n (e # others (pe_key e) es)"

lemma pc_abs_remove1:
  assumes "pc_wf c" "e \<in> set (pc_lru c)"
  shows "map (pc_heap c) (remove1 e (pc_lru c)) = others (pe_key (pc_heap c e)) (pc_abs c)"
proof -
  have "remove1 e (pc_lru c) = filter (\<lambda>x. x \<noteq> e) (pc_lru c)"
    using assms(1) by (simp add: pc_wf_def distinct_remove1_removeAll removeAll_filter_not_eq eq_commute)
  also have "\<dots> = filter (\<lambda>x. pe_key (pc_heap c x) \<noteq> pe_key (pc_heap c e)) (pc_lru c)"
    using pc_wf_keys_inj [OF assms(1)] assms(2) by (intro filter_cong refl) (auto simp: inj_on_def)
  finally show ?thesis by (simp add: others_def pc_abs_def filter_map comp_def)
qed

lemma filter_eq_single: "e \<in> set xs \<Longrightarrow> distinct xs \<Longrightarrow> filter (\<lambda>x. x = e) xs = [e]"
  by (induction xs) (auto simp: filter_empty_conv)

lemma pc_abs_find:
  assumes "pc_wf c" "map_of (pc_items c) k = Some e"
  shows "filter (\<lambda>x. pe_key x = k) (pc_abs c) = [pc_heap c e]"
proof -
  have e: "e \<in> set (pc_lru c)" "pe_key (pc_heap c e) = k" and d: "distinct (pc_lru c)"
    using assms unfolding pc_wf_def by blast+
  have "filter (\<lambda>x. pe_key (pc_heap c x) = k) (pc_lru c) = filter (\<lambda>x. x = e) (pc_lru c)"
    using pc_wf_keys_inj [OF assms(1)] e by (intro filter_cong refl) (auto simp: inj_on_def)
  also have "\<dots> = [e]" using e(1) d by (rule filter_eq_single)
  finally show ?thesis by (simp add: pc_abs_def filter_map comp_def)
qed

lemma pc_abs_absent:
  assumes "pc_wf c" "map_of (pc_items c) k = None"
  shows "\<forall>x \<in> set (pc_abs c). pe_key x \<noteq> k"
  using assms unfolding pc_wf_def pc_abs_def by (metis imageE list.set_map option.distinct(1))

lemma pc_Get_refines:
  assumes "pc_inv c"
  shows "fst (pc_Get now c k) = fst (lru_get now k (pc_abs c))
       \<and> pc_abs (snd (pc_Get now c k)) = snd (lru_get now k (pc_abs c))"
proof (cases "map_of (pc_items c) k")
  case None
  moreover have "filter (\<lambda>x. pe_key x = k) (pc_abs c) = []"
    using pc_abs_absent [of c k] None assms by (simp add: pc_inv_def filter_empty_conv)
  ultimately show ?thesis by (simp add: pc_Get_def lru_get_def)
next
  case (Some e)
  have wf: "pc_wf c" and e: "e \<in> set (pc_lru c)" "pe_key (pc_heap c e) = k"
    using assms Some by (auto simp: pc_inv_def pc_wf_def)
  show ?thesis
    using Some pc_abs_find [OF wf Some] pc_abs_remove1 [OF wf e(1)] e(2)
    by (simp add: pc_Get_def lru_get_def pc_abs_def)
qed

lemma pc_abs_length: "pc_inv c \<Longrightarrow> length (pc_abs c) \<le> nat (pcc_MaxEntries (pc_cfg c))"
  by (auto simp: pc_inv_def pc_abs_def dest: pc_wf_length)

lemma length_others: "length (others k es) \<le> length es"
  by (simp add: others_def)

lemma others_less: "x \<in> set es \<Longrightarrow> pe_key x = k \<Longrightarrow> length (others k es) < length es"
  unfolding others_def by (rule length_filter_less [of x]) auto

lemma pc_Set_refines:
  assumes "pc_inv c" "pc_Set now c k m = Some c'"
  shows "pc_abs c' = lru_set (nat (pcc_MaxEntries (pc_cfg c)))
     \<lparr>pe_key = k, pe_messages = m, pe_expiresAt = pc_expiresAt now c\<rparr> (pc_abs c)"
proof (cases "map_of (pc_items c) k")
  case None
  let ?v = "\<lparr>pe_key = k, pe_messages = m, pe_expiresAt = pc_expiresAt now c\<rparr>"
  let ?c = "c\<lparr>pc_heap := (pc_heap c)(pc_next c := ?v), pc_next := Suc (pc_next c),
     pc_lru := pc_next c # pc_lru c, pc_items := (k, pc_next c) # pc_items c\<rparr>"
  have wf: "pc_wf ?c" and pos: "0 < pcc_MaxEntries (pc_cfg ?c)"
    using pc_wf_push [of c ?v] None assms(1) by (auto simp: pc_inv_def)
  have fresh: "pc_next c \<notin> set (pc_lru c)" using assms(1) unfolding pc_inv_def pc_wf_def by auto
  have heap: "map ((pc_heap c)(pc_next c := ?v)) (pc_lru c) = pc_abs c"
    using fresh by (auto simp: pc_abs_def intro: map_cong)
  have oth: "others k (pc_abs c) = pc_abs c"
    using pc_abs_absent [of c k] None assms(1) by (simp add: others_def pc_inv_def)
  have "pc_abs c' = take (nat (pcc_MaxEntries (pc_cfg c))) (?v # map ((pc_heap c)(pc_next c := ?v)) (pc_lru c))"
    using assms(2) None pc_evict_returns [OF wf pos]
    by (auto simp: pc_Set_def Let_def pc_abs_def take_map [symmetric])
  also have "\<dots> = take (nat (pcc_MaxEntries (pc_cfg c))) (?v # others k (pc_abs c))"
    by (simp only: heap oth)
  finally show ?thesis
    by (simp add: lru_set_def)
next
  case (Some e)
  let ?v = "\<lparr>pe_key = k, pe_messages = m, pe_expiresAt = pc_expiresAt now c\<rparr>"
  have wf: "pc_wf c" and e: "e \<in> set (pc_lru c)" "pe_key (pc_heap c e) = k"
    using assms(1) Some by (auto simp: pc_inv_def pc_wf_def)
  have d: "distinct (pc_lru c)" using wf by (simp add: pc_wf_def)
  have v: "(pc_heap c e)\<lparr>pe_messages := m, pe_expiresAt := pc_expiresAt now c\<rparr> = ?v"
    using e(2) by simp
  have "pc_abs c' = ?v # map ((pc_heap c)(e := ?v)) (remove1 e (pc_lru c))"
    using assms(2) Some v by (auto simp: pc_Set_def pc_abs_def)
  also have "map ((pc_heap c)(e := ?v)) (remove1 e (pc_lru c)) = map (pc_heap c) (remove1 e (pc_lru c))"
    using d by (intro map_cong) auto
  finally have "pc_abs c' = ?v # others k (pc_abs c)"
    using pc_abs_remove1 [OF wf e(1)] e(2) by simp
  moreover have "length (others k (pc_abs c)) < length (pc_abs c)"
    using e by (intro others_less [of "pc_heap c e"]) (auto simp: pc_abs_def)
  ultimately show ?thesis
    using pc_abs_length [OF assms(1)] by (simp add: lru_set_def)
qed

subsection \<open>The contract of a prompt cache and the two-level cache\<close>

text \<open>
  The interface \<^verbatim>\<open>PromptCache\<close>. \<open>content\<close> is what a cache may return for a key. A look-up
  returns only stored content, a store returns, and neither invents content for any key. A
  cache may forget, so nothing is promised about misses.
\<close>

locale sound_cache =
  fixes get :: "gotime \<Rightarrow> 'c \<Rightarrow> string \<Rightarrow> messages option \<times> 'c"
    and set_to :: "gotime \<Rightarrow> 'c \<Rightarrow> string \<Rightarrow> messages \<Rightarrow> 'c option"
    and content :: "'c \<Rightarrow> string \<rightharpoonup> messages"
    and inv :: "'c \<Rightarrow> bool"
  assumes get_content: "inv c \<Longrightarrow> get t c k = (Some m, c') \<Longrightarrow> content c k = Some m"
    and get_keeps: "inv c \<Longrightarrow> inv (snd (get t c k)) \<and> content (snd (get t c k)) \<subseteq>\<^sub>m content c"
    and set_keeps: "inv c \<Longrightarrow> \<exists>c'. set_to t c k m = Some c' \<and> inv c' \<and> content c' \<subseteq>\<^sub>m (content c)(k \<mapsto> m)"
begin

text \<open>Running look-ups and stores: every hit is what the last store of that key wrote.\<close>

definition agrees :: "'c \<Rightarrow> (string \<rightharpoonup> messages) \<Rightarrow> bool" where
  "agrees c M \<longleftrightarrow> inv c \<and> content c \<subseteq>\<^sub>m M"

lemma agrees_get: "agrees c M \<Longrightarrow> agrees (snd (get t c k)) M"
  unfolding agrees_def using get_keeps map_le_trans by blast

lemma map_le_upd_mono: "f \<subseteq>\<^sub>m g \<Longrightarrow> f(k \<mapsto> m) \<subseteq>\<^sub>m g(k \<mapsto> m)"
  by (auto simp: map_le_def)

lemma agrees_set: "agrees c M \<Longrightarrow> \<exists>c'. set_to t c k m = Some c' \<and> agrees c' (M(k \<mapsto> m))"
  unfolding agrees_def using set_keeps map_le_trans map_le_upd_mono by metis

lemma agrees_hit: "agrees c M \<Longrightarrow> get t c k = (Some m, c') \<Longrightarrow> M k = Some m"
  unfolding agrees_def map_le_def using get_content by (metis domI)

end

definition pc_content :: "mem_cache \<Rightarrow> string \<rightharpoonup> messages" where
  "pc_content c k = map_option (\<lambda>e. pe_messages (pc_heap c e)) (map_of (pc_items c) k)"

lemma pc_content_remove: "pc_content (pc_removeElement c e) \<subseteq>\<^sub>m pc_content c"
  by (auto simp: map_le_def pc_content_def pc_removeElement_def delete_conv)

lemma pc_content_front [simp]: "pc_content (pc_moveToFront c e) = pc_content c"
  by (simp add: pc_content_def fun_eq_iff)

lemma pc_content_abs:
  assumes "pc_wf c"
  shows "pc_content c k = map_option pe_messages (find (\<lambda>e. pe_key e = k) (pc_abs c))"
proof (cases "map_of (pc_items c) k")
  case None
  then have "find (\<lambda>e. pe_key e = k) (pc_abs c) = None"
    using pc_abs_absent [OF assms] by (simp add: find_None_iff)
  with None show ?thesis by (simp add: pc_content_def)
next
  case (Some e)
  have "find (\<lambda>e. pe_key e = k) xs = Some v"
    if "filter (\<lambda>e. pe_key e = k) xs = [v]" for xs and v :: prompt_cache_entry
    using that by (induction xs) (auto split: if_splits)
  from this [OF pc_abs_find [OF assms Some]] Some show ?thesis by (simp add: pc_content_def)
qed

lemma find_take: "find P (take n xs) = Some x \<Longrightarrow> find P xs = Some x"
  by (induction xs arbitrary: n) (auto simp: take_Cons split: nat.splits if_splits)

lemma find_others: "find (\<lambda>e. pe_key e = k') (others k xs) = Some x \<Longrightarrow>
    find (\<lambda>e. pe_key e = k') xs = Some x \<and> k' \<noteq> k"
  by (induction xs) (auto simp: others_def split: if_splits)

lemma lru_set_content:
  assumes "find (\<lambda>e. pe_key e = k) (lru_set n v es) = Some x"
  shows "if k = pe_key v then x = v else find (\<lambda>e. pe_key e = k) es = Some x"
  using find_take [OF assms [unfolded lru_set_def]] by (auto split: if_splits dest: find_others)

interpretation mem: sound_cache pc_Get pc_Set pc_content pc_inv
proof unfold_locales
  fix c t k m c'
  assume "pc_inv c" "pc_Get t c k = (Some m, c')"
  then show "pc_content c k = Some m"
    by (auto simp: pc_Get_def pc_content_def split: option.splits if_splits)
next
  fix c t k
  assume "pc_inv c"
  then show "pc_inv (snd (pc_Get t c k)) \<and> pc_content (snd (pc_Get t c k)) \<subseteq>\<^sub>m pc_content c"
    using pc_inv_Get [of c t k] by (auto simp: pc_Get_def pc_content_remove split: option.splits)
next
  fix c t k m
  assume c: "pc_inv c"
  then obtain c' where c': "pc_Set t c k m = Some c'" "pc_inv c'"
    using pc_Set_returns by blast
  have wf: "pc_wf c" "pc_wf c'" using c c'(2) by (auto simp: pc_inv_def)
  have "pc_content c' \<subseteq>\<^sub>m (pc_content c)(k \<mapsto> m)"
    unfolding map_le_def
  proof
    fix k' assume "k' \<in> dom (pc_content c')"
    then obtain x where "find (\<lambda>e. pe_key e = k') (pc_abs c') = Some x"
      by (auto simp: pc_content_abs [OF wf(2)])
    note x = this
    show "pc_content c' k' = ((pc_content c)(k \<mapsto> m)) k'"
      using lru_set_content [OF x [unfolded pc_Set_refines [OF c c'(1)]]] x
      by (auto simp: pc_content_abs wf split: if_splits)
  qed
  with c' show "\<exists>c'. pc_Set t c k m = Some c' \<and> pc_inv c' \<and> pc_content c' \<subseteq>\<^sub>m (pc_content c)(k \<mapsto> m)"
    by blast
qed

subsection \<open>Two levels\<close>

text \<open>
  An interface value is the record of its methods; a nil interface is \<open>None\<close>. The state of
  the two caches is the pair of their states. The maintenance methods are optional, as the
  type assertion to \<^verbatim>\<open>PromptCacheMaintenance\<close> makes them.
\<close>

record 'c cache_ops =
  co_Get :: "gotime \<Rightarrow> 'c \<Rightarrow> string \<Rightarrow> messages option \<times> 'c"
  co_Set :: "gotime \<Rightarrow> 'c \<Rightarrow> string \<Rightarrow> messages \<Rightarrow> 'c option"
  co_Delete :: "('c \<Rightarrow> string list \<Rightarrow> go_error option \<times> 'c) option"
  co_Clear :: "('c \<Rightarrow> go_error option \<times> 'c) option"
  co_Stats :: "(gotime \<Rightarrow> 'c \<Rightarrow> nat result \<times> 'c) option"

definition tl_Get ::
  "'a cache_ops option \<Rightarrow> 'b cache_ops option \<Rightarrow> gotime \<Rightarrow> 'a \<times> 'b \<Rightarrow> string
   \<Rightarrow> (messages option \<times> ('a \<times> 'b)) option" where
  "tl_Get local remote now s key =
     (case (case local of None \<Rightarrow> (None, fst s) | Some l \<Rightarrow> co_Get l now (fst s) key) of
        (Some msgs, a) \<Rightarrow> Some (Some msgs, (a, snd s))
      | (None, a) \<Rightarrow>
          (case remote of None \<Rightarrow> Some (None, (a, snd s))
           | Some r \<Rightarrow> (case co_Get r now (snd s) key of
                (None, b) \<Rightarrow> Some (None, (a, b))
              | (Some msgs, b) \<Rightarrow>
                  (case local of None \<Rightarrow> Some (Some msgs, (a, b))
                   | Some l \<Rightarrow> map_option (\<lambda>a'. (Some msgs, (a', b))) (co_Set l now a key msgs)))))"

definition opt_set :: "'c cache_ops option \<Rightarrow> gotime \<Rightarrow> 'c \<Rightarrow> string \<Rightarrow> messages \<Rightarrow> 'c option" where
  "opt_set ops now c key m = (case ops of None \<Rightarrow> Some c | Some f \<Rightarrow> co_Set f now c key m)"

definition tl_Set ::
  "'a cache_ops option \<Rightarrow> 'b cache_ops option \<Rightarrow> gotime \<Rightarrow> 'a \<times> 'b \<Rightarrow> string \<Rightarrow> messages
   \<Rightarrow> ('a \<times> 'b) option" where
  "tl_Set local remote now s key m =
     Option.bind (opt_set local now (fst s) key m)
       (\<lambda>a. map_option (Pair a) (opt_set remote now (snd s) key m))"

text \<open>\<^verbatim>\<open>errors.Join(err, e)\<close> of two errors that may be nil.\<close>

definition join_opt :: "go_error option \<Rightarrow> go_error option \<Rightarrow> go_error option" where
  "join_opt a b = (case (a, b) of
     (None, None) \<Rightarrow> None
   | (Some x, None) \<Rightarrow> Some (errors_join [x])
   | (None, Some y) \<Rightarrow> Some (errors_join [y])
   | (Some x, Some y) \<Rightarrow> Some (errors_join [x, y]))"

definition maint :: "('c \<Rightarrow> go_error option \<times> 'c) option \<Rightarrow> 'c \<Rightarrow> go_error option \<Rightarrow> go_error option \<times> 'c" where
  "maint f c err = (case f of None \<Rightarrow> (err, c) | Some g \<Rightarrow> (case g c of (e, c') \<Rightarrow> (join_opt err e, c')))"

definition tl_Delete ::
  "'a cache_ops option \<Rightarrow> 'b cache_ops option \<Rightarrow> 'a \<times> 'b \<Rightarrow> string list \<Rightarrow> go_error option \<times> ('a \<times> 'b)" where
  "tl_Delete local remote s keys =
     (case maint (Option.bind local (\<lambda>l. map_option (\<lambda>f c. f c keys) (co_Delete l))) (fst s) None of
        (err, a) \<Rightarrow>
          (case maint (Option.bind remote (\<lambda>r. map_option (\<lambda>f c. f c keys) (co_Delete r))) (snd s) err of
             (err', b) \<Rightarrow> (err', (a, b))))"

definition tl_Clear ::
  "'a cache_ops option \<Rightarrow> 'b cache_ops option \<Rightarrow> 'a \<times> 'b \<Rightarrow> go_error option \<times> ('a \<times> 'b)" where
  "tl_Clear local remote s =
     (case maint (Option.bind local co_Clear) (fst s) None of
        (err, a) \<Rightarrow> (case maint (Option.bind remote co_Clear) (snd s) err of (err', b) \<Rightarrow> (err', (a, b))))"

definition tl_Stats ::
  "'a cache_ops option \<Rightarrow> 'b cache_ops option \<Rightarrow> gotime \<Rightarrow> 'a \<times> 'b \<Rightarrow> nat result \<times> ('a \<times> 'b)" where
  "tl_Stats local remote now s =
     (case Option.bind remote co_Stats of
        Some f \<Rightarrow> (case f now (snd s) of (n, b) \<Rightarrow> (n, (fst s, b)))
      | None \<Rightarrow> (case Option.bind local co_Stats of
            Some f \<Rightarrow> (case f now (fst s) of (n, a) \<Rightarrow> (n, (a, snd s)))
          | None \<Rightarrow> (Inr 0, s)))"

text \<open>\<^verbatim>\<open>rootToGraphPromptCache\<close>: a nil inner cache always misses and stores nothing.\<close>

definition adapter_Get :: "'c cache_ops option \<Rightarrow> gotime \<Rightarrow> 'c \<Rightarrow> string \<Rightarrow> messages option \<times> 'c" where
  "adapter_Get ops now c key = (case ops of None \<Rightarrow> (None, c) | Some f \<Rightarrow> co_Get f now c key)"

definition adapter_Set :: "'c cache_ops option \<Rightarrow> gotime \<Rightarrow> 'c \<Rightarrow> string \<Rightarrow> messages \<Rightarrow> 'c option" where
  "adapter_Set ops now c key m = opt_set ops now c key m"

text \<open>
  Two sound caches side by side, and their methods as the two-level cache sees them: hits are
  what was last stored through it.
\<close>

locale two_level = L: sound_cache getL setL contentL invL + R: sound_cache getR setR contentR invR
  for getL :: "gotime \<Rightarrow> 'a \<Rightarrow> string \<Rightarrow> messages option \<times> 'a" and setL contentL invL
  and getR :: "gotime \<Rightarrow> 'b \<Rightarrow> string \<Rightarrow> messages option \<times> 'b" and setR contentR invR +
  fixes local_ops :: "'a cache_ops" and remote_ops :: "'b cache_ops"
  assumes local_ops: "co_Get local_ops = getL" "co_Set local_ops = setL"
    and remote_ops: "co_Get remote_ops = getR" "co_Set remote_ops = setR"
begin

text \<open>Both levels agree with one history of stores.\<close>

definition both :: "'a \<times> 'b \<Rightarrow> (string \<rightharpoonup> messages) \<Rightarrow> bool" where
  "both s M \<longleftrightarrow> L.agrees (fst s) M \<and> R.agrees (snd s) M"

lemma get_both:
  assumes "both s M"
  shows "\<exists>r s'. tl_Get (Some local_ops) (Some remote_ops) t s k = Some (r, s') \<and> both s' M
     \<and> (\<forall>m. r = Some m \<longrightarrow> M k = Some m)"
proof (cases "getL t (fst s) k")
  case L: (Pair r a)
  then have a: "L.agrees a M" using assms L.agrees_get [of "fst s" M t k] by (simp add: both_def)
  show ?thesis
  proof (cases r)
    case (Some m)
    then have "M k = Some m" using assms L L.agrees_hit by (auto simp: both_def)
    with Some L a assms show ?thesis by (auto simp: tl_Get_def local_ops both_def)
  next
    case r: None
    show ?thesis
    proof (cases "getR t (snd s) k")
      case R: (Pair r' b)
      then have b: "R.agrees b M" using assms R.agrees_get [of "snd s" M t k] by (simp add: both_def)
      show ?thesis
      proof (cases r')
        case None
        with R L r a b show ?thesis
          by (auto simp: tl_Get_def local_ops remote_ops both_def)
      next
        case (Some m)
        then have M: "M k = Some m" using assms R R.agrees_hit by (auto simp: both_def)
        obtain a' where a': "setL t a k m = Some a'" "L.agrees a' (M(k \<mapsto> m))"
          using L.agrees_set [OF a] by blast
        have "M(k \<mapsto> m) = M" using M by (rule map_upd_triv)
        with Some R L r a' b M show ?thesis
          by (auto simp: tl_Get_def local_ops remote_ops both_def)
      qed
    qed
  qed
qed

lemma set_both:
  assumes "both s M"
  shows "\<exists>s'. tl_Set (Some local_ops) (Some remote_ops) t s k m = Some s' \<and> both s' (M(k \<mapsto> m))"
proof -
  obtain a b where "setL t (fst s) k m = Some a" "L.agrees a (M(k \<mapsto> m))"
    "setR t (snd s) k m = Some b" "R.agrees b (M(k \<mapsto> m))"
    using assms L.agrees_set R.agrees_set unfolding both_def by metis
  then show ?thesis
    by (simp add: tl_Set_def opt_set_def local_ops remote_ops both_def)
qed

end

definition mem_ops :: "mem_cache cache_ops" where
  "mem_ops = \<lparr>co_Get = pc_Get, co_Set = pc_Set, co_Delete = Some (pc_Delete None),
     co_Clear = Some (pc_Clear None), co_Stats = Some (\<lambda>now. pc_Stats now None)\<rparr>"

interpretation mem2: two_level pc_Get pc_Set pc_content pc_inv pc_Get pc_Set pc_content pc_inv
  mem_ops mem_ops
  by unfold_locales (simp_all add: mem_ops_def)

text \<open>A run of look-ups and stores on the two-level cache over two in-memory caches.\<close>

datatype cache_op = OpGet gotime string | OpSet gotime string messages

fun tl_run :: "cache_op list \<Rightarrow> mem_cache \<times> mem_cache \<Rightarrow> (messages option list \<times> (mem_cache \<times> mem_cache)) option" where
  "tl_run [] s = Some ([], s)"
| "tl_run (OpGet t k # ops) s =
     Option.bind (tl_Get (Some mem_ops) (Some mem_ops) t s k)
       (\<lambda>(r, s'). map_option (\<lambda>(rs, s''). (r # rs, s'')) (tl_run ops s'))"
| "tl_run (OpSet t k m # ops) s =
     Option.bind (tl_Set (Some mem_ops) (Some mem_ops) t s k m) (tl_run ops)"

text \<open>What the stores of the run alone would answer to each look-up.\<close>

fun ideal_run :: "cache_op list \<Rightarrow> (string \<rightharpoonup> messages) \<Rightarrow> messages option list" where
  "ideal_run [] M = []"
| "ideal_run (OpGet t k # ops) M = M k # ideal_run ops M"
| "ideal_run (OpSet t k m # ops) M = ideal_run ops (M(k \<mapsto> m))"

lemma tl_run_sound:
  assumes "mem2.both s M"
  shows "\<exists>rs s'. tl_run ops s = Some (rs, s') \<and> pc_inv (fst s') \<and> pc_inv (snd s')
     \<and> list_all2 (\<lambda>r i. r = None \<or> r = i) rs (ideal_run ops M)"
  using assms
proof (induction ops arbitrary: s M)
  case Nil
  then show ?case by (simp add: mem2.both_def mem.agrees_def)
next
  case (Cons op ops)
  show ?case
  proof (cases op)
    case (OpGet t k)
    obtain r s' where s': "tl_Get (Some mem_ops) (Some mem_ops) t s k = Some (r, s')" "mem2.both s' M"
      "\<forall>m. r = Some m \<longrightarrow> M k = Some m"
      using mem2.get_both [OF Cons.prems] by blast
    from Cons.IH [OF s'(2)] s'(1,3) OpGet show ?thesis
      by (cases r) auto
  next
    case (OpSet t k m)
    obtain s' where s': "tl_Set (Some mem_ops) (Some mem_ops) t s k m = Some s'" "mem2.both s' (M(k \<mapsto> m))"
      using mem2.set_both [OF Cons.prems] by blast
    from Cons.IH [OF s'(2)] s'(1) OpSet show ?thesis by (simp del: fun_upd_apply)
  qed
qed

lemma pc_content_new: "pc_content (newInMemoryPromptCache cfg) = Map.empty"
  by (simp add: pc_content_def newInMemoryPromptCache_def fun_eq_iff)

lemma new_both: "mem2.both (newInMemoryPromptCache c1, newInMemoryPromptCache c2) Map.empty"
  by (simp add: mem2.both_def mem.agrees_def pc_inv_new pc_content_new)

subsection \<open>The Redis cache\<close>

record redis_prompt_config =
  rp_KeyPrefix :: string
  rp_TTL :: duration

definition rp_normalized :: "redis_prompt_config \<Rightarrow> redis_prompt_config" where
  "rp_normalized c = (if rp_KeyPrefix c = '''' then c\<lparr>rp_KeyPrefix := ''ragagent:prompt''\<rparr> else c)"

definition redisKey :: "redis_prompt_config \<Rightarrow> string \<Rightarrow> string" where
  "redisKey c key = rp_KeyPrefix c @ '':'' @ key"

text \<open>
  The database maps keys to JSON texts; \<open>dec\<close> and \<open>enc\<close> are the JSON codec, \<open>None\<close> an
  error, \<open>ok\<close> whether the server took the write.
\<close>

definition rp_Get :: "(string \<Rightarrow> messages option) \<Rightarrow> redis_prompt_config \<Rightarrow> (string \<rightharpoonup> string) \<Rightarrow> string \<Rightarrow> messages option" where
  "rp_Get dec cfg db key = Option.bind (db (redisKey cfg key)) dec"

definition rp_Set :: "(messages \<Rightarrow> string option) \<Rightarrow> redis_prompt_config \<Rightarrow> bool \<Rightarrow> (string \<rightharpoonup> string) \<Rightarrow> string \<Rightarrow> messages \<Rightarrow> (string \<rightharpoonup> string)" where
  "rp_Set enc cfg ok db key m = (case enc m of None \<Rightarrow> db
     | Some data \<Rightarrow> if ok then db(redisKey cfg key \<mapsto> data) else db)"

definition rp_Delete :: "redis_prompt_config \<Rightarrow> go_error option \<Rightarrow> go_error option \<Rightarrow> (string \<rightharpoonup> string) \<Rightarrow> string list \<Rightarrow> go_error option \<times> (string \<rightharpoonup> string)" where
  "rp_Delete cfg ctx_err srv_err db keys = (case ctx_err of Some e \<Rightarrow> (Some e, db)
     | None \<Rightarrow> if keys = [] then (None, db)
        else (case srv_err of Some e \<Rightarrow> (Some e, db)
              | None \<Rightarrow> (None, db |` (- redisKey cfg ` set keys))))"

lemma redisKey_inj [simp]: "redisKey c a = redisKey c b \<longleftrightarrow> a = b"
  by (simp add: redisKey_def)

subsection \<open>Properties\<close>

text \<open>C4: The pointer-level in-memory cache refines an LRU list of at most MaxEntries entries: a
  look-up answers as the list does and leaves the list's result, and a store returns (the
  eviction loop ends), keeps the invariant and puts the entry in front of the first MaxEntries.\<close>

theorem mem_cache_refines_lru:
  assumes "pc_inv c"
  shows "(fst (pc_Get now c k), pc_abs (snd (pc_Get now c k))) = lru_get now k (pc_abs c)
    \<and> pc_inv (snd (pc_Get now c k))
    \<and> (\<exists>c'. pc_Set now c k m = Some c' \<and> pc_inv c'
         \<and> pc_abs c' = lru_set (nat (pcc_MaxEntries (pc_cfg c)))
             \<lparr>pe_key = k, pe_messages = m, pe_expiresAt = pc_expiresAt now c\<rparr> (pc_abs c))"
  using pc_Get_refines [OF assms, of now k] pc_inv_Get [OF assms, of now k]
    pc_Set_returns [OF assms, of now k m] pc_Set_refines [OF assms, of now k m]
  by (auto simp: prod_eq_iff)

theorem mem_cache_refines_lru_witness:
  "\<exists>c'. pc_Set 5 (newInMemoryPromptCache \<lparr>pcc_MaxEntries = 1, pcc_TTL = 10\<rparr>) ''k'' [text_message RoleUser ''q''] = Some c'
     \<and> pc_abs c' = [\<lparr>pe_key = ''k'', pe_messages = [text_message RoleUser ''q''], pe_expiresAt = 15\<rparr>]"
  using mem_cache_refines_lru [OF pc_inv_new [of "\<lparr>pcc_MaxEntries = 1, pcc_TTL = 10\<rparr>"],
      of 5 "''k''" "[text_message RoleUser ''q'']"]
  by (auto simp: newInMemoryPromptCache_def pcc_normalized_def pc_abs_def lru_set_def pc_expiresAt_def others_def)

text \<open>A two-level cache over two in-memory caches, from its creation on, returns from every
  look-up and store, and whatever a look-up finds is what the last store of that key wrote,
  whichever level answers and whatever either level has evicted or expired.\<close>

theorem two_level_hits_are_last_stored:
  "\<exists>rs s'. tl_run ops (newInMemoryPromptCache c1, newInMemoryPromptCache c2) = Some (rs, s')
     \<and> pc_inv (fst s') \<and> pc_inv (snd s')
     \<and> list_all2 (\<lambda>r i. r = None \<or> r = i) rs (ideal_run ops Map.empty)"
  by (rule tl_run_sound [OF new_both])

end
