(* ===== verification/RedisCache.thy ===== *)
theory RedisCache
  imports PromptCache
begin

section \<open>Maintenance of the Redis prompt cache\<close>

text \<open>
  \<^verbatim>\<open>redisPromptCache.Clear\<close> and \<^verbatim>\<open>Stats\<close> of \<^verbatim>\<open>prompt_cache.go\<close>, which walk the keys that match the pattern
  \<^verbatim>\<open>prefix:*\<close> with a SCAN iterator. The server is a parameter: \<open>glob\<close> is its pattern matching and \<open>scan\<close> the
  keys the iterator returns, with the error it ends with. As documented, an iteration that ends without an
  error returns every matching key that was there all the time, and may return a key more than once.
\<close>

type_synonym redis_db = "string \<rightharpoonup> string"

text \<open>The characters without a meaning of their own in a pattern.\<close>

definition plain_key :: "string \<Rightarrow> bool" where
  "plain_key p \<longleftrightarrow> set p \<inter> (set ''*?[]^'' \<union> {CHR 0x5C}) = {}"

definition glob_laws :: "(string \<Rightarrow> string \<Rightarrow> bool) \<Rightarrow> bool" where
  "glob_laws glob \<longleftrightarrow> (\<forall>p k. plain_key p \<longrightarrow> (glob (p @ ''*'') k \<longleftrightarrow> has_prefix k p))
     \<and> (\<forall>p q s t. plain_key p \<longrightarrow> plain_key q \<longrightarrow> glob (p @ ''*'' @ q @ ''*'') (p @ s @ q @ t))"

definition scan_laws :: "(string \<Rightarrow> string \<Rightarrow> bool) \<Rightarrow> (redis_db \<Rightarrow> string \<Rightarrow> string list \<times> go_error option) \<Rightarrow> bool" where
  "scan_laws glob scan \<longleftrightarrow> (\<forall>db p. set (fst (scan db p)) \<subseteq> {k \<in> dom db. glob p k}
     \<and> (snd (scan db p) = None \<longrightarrow> {k \<in> dom db. glob p k} \<subseteq> set (fst (scan db p))))"

text \<open>One Del per key the iterator returns, up to the first that fails.\<close>

primrec clear_loop :: "(string \<Rightarrow> go_error option) \<Rightarrow> string list \<Rightarrow> redis_db \<Rightarrow> go_error option \<times> redis_db" where
  "clear_loop srv [] db = (None, db)"
| "clear_loop srv (k # ks) db = (case srv k of Some e \<Rightarrow> (Some e, db) | None \<Rightarrow> clear_loop srv ks (db(k := None)))"

definition rp_Clear ::
  "(redis_db \<Rightarrow> string \<Rightarrow> string list \<times> go_error option) \<Rightarrow> (string \<Rightarrow> go_error option) \<Rightarrow> redis_prompt_config
   \<Rightarrow> go_error option \<Rightarrow> redis_db \<Rightarrow> go_error option \<times> redis_db" where
  "rp_Clear scan srv cfg ctx_err db = (case ctx_err of Some e \<Rightarrow> (Some e, db)
     | None \<Rightarrow> (case scan db (redisKey cfg ''*'') of (ks, scan_err) \<Rightarrow>
         (case clear_loop srv ks db of (Some e, db) \<Rightarrow> (Some e, db) | (None, db) \<Rightarrow> (scan_err, db))))"

definition rp_Stats ::
  "(redis_db \<Rightarrow> string \<Rightarrow> string list \<times> go_error option) \<Rightarrow> redis_prompt_config \<Rightarrow> go_error option \<Rightarrow> redis_db \<Rightarrow> nat result" where
  "rp_Stats scan cfg ctx_err db = (case ctx_err of Some e \<Rightarrow> Inl e
     | None \<Rightarrow> (case scan db (redisKey cfg ''*'') of (ks, Some e) \<Rightarrow> Inl e | (ks, None) \<Rightarrow> Inr (length ks)))"

lemma clear_loop_result:
  "clear_loop srv ks db = (r, db') \<Longrightarrow> \<exists>xs. set xs \<subseteq> set ks \<and> db' = db |` (- set xs) \<and> (r = None \<longrightarrow> xs = ks)"
proof (induction ks arbitrary: db)
  case (Cons k ks)
  show ?case
  proof (cases "srv k")
    case None
    with Cons.prems have "clear_loop srv ks (db(k := None)) = (r, db')" by simp
    from Cons.IH [OF this] obtain xs where xs: "set xs \<subseteq> set ks" "db' = (db(k := None)) |` (- set xs)" "r = None \<longrightarrow> xs = ks"
      by blast
    have "db' = db |` (- set (k # xs))" by (rule ext) (simp add: xs(2) restrict_map_def)
    then show ?thesis using xs by (intro exI [of _ "k # xs"]) auto
  next
    case (Some e)
    with Cons.prems have "r = Some e" "db' = db" by simp_all
    then show ?thesis by (intro exI [of _ "[]"]) (simp add: restrict_map_def)
  qed
qed (simp add: restrict_map_def)

text \<open>A server with these laws exists, and one whose iterations end without an error on every finite database.\<close>

lemma redis_laws_satisfiable:
  "\<exists>glob scan. glob_laws glob \<and> scan_laws glob scan \<and> (\<forall>db p. finite (dom db) \<longrightarrow> snd (scan db p) = None)"
proof -
  define glob where "glob p k \<longleftrightarrow> (\<forall>q. plain_key q \<longrightarrow> p = q @ ''*'' \<longrightarrow> has_prefix k q)" for p k
  define scan where "scan db p = (if finite (dom db) then (SOME ks. set ks = {k \<in> dom db. glob p k}, None)
    else ([], Some (errorf ''scan'' [])))" for db :: redis_db and p
  have "glob_laws glob" unfolding glob_laws_def glob_def plain_key_def by auto
  moreover have "set (fst (scan db p)) = {k \<in> dom db. glob p k}" if "finite (dom db)" for db p
    using someI_ex [OF finite_list [of "{k \<in> dom db. glob p k}"]] that by (simp add: scan_def)
  then have "scan_laws glob scan" unfolding scan_laws_def by (auto simp: scan_def)
  moreover have "\<forall>db p. finite (dom db) \<longrightarrow> snd (scan db p) = None" by (simp add: scan_def)
  ultimately show ?thesis by blast
qed

definition own_keys :: "redis_prompt_config \<Rightarrow> string set" where
  "own_keys cfg = {k. has_prefix k (rp_KeyPrefix cfg @ '':'')}"

lemma plain_prefix:
  "plain_key (rp_KeyPrefix cfg) \<Longrightarrow> glob_laws glob \<Longrightarrow> glob (redisKey cfg ''*'') k \<longleftrightarrow> k \<in> own_keys cfg"
  unfolding redisKey_def own_keys_def glob_laws_def plain_key_def
  by (drule conjunct1, drule spec [of _ "rp_KeyPrefix cfg @ '':''"]) simp

text \<open>With a prefix without special characters, Clear removes the entries of the cache and nothing else, even
  when it fails half way, and all of them when it succeeds.\<close>

lemma redis_clear_is_exact:
  assumes "scan_laws glob scan" "glob_laws glob" "plain_key (rp_KeyPrefix cfg)"
    and run: "rp_Clear scan srv cfg None db = (r, db')"
  shows "db' |` (- own_keys cfg) = db |` (- own_keys cfg) \<and> (r = None \<longrightarrow> db' = db |` (- own_keys cfg))"
proof -
  obtain ks e where s: "scan db (redisKey cfg ''*'') = (ks, e)" by (metis surj_pair)
  obtain r1 where c: "clear_loop srv ks db = (r1, db')" and r: "r = None \<longrightarrow> r1 = None \<and> e = None"
    using run s by (auto simp: rp_Clear_def split: prod.splits option.splits)
  obtain xs where xs: "set xs \<subseteq> set ks" "db' = db |` (- set xs)" "r1 = None \<longrightarrow> xs = ks"
    using clear_loop_result [OF c] by blast
  have "set (fst (scan db (redisKey cfg ''*''))) \<subseteq> {k \<in> dom db. glob (redisKey cfg ''*'') k}"
    "snd (scan db (redisKey cfg ''*'')) = None \<longrightarrow> {k \<in> dom db. glob (redisKey cfg ''*'') k} \<subseteq> set (fst (scan db (redisKey cfg ''*'')))"
    using assms(1) unfolding scan_laws_def by blast+
  then have ks: "set ks \<subseteq> own_keys cfg" "e = None \<Longrightarrow> dom db \<inter> own_keys cfg \<subseteq> set ks"
    by (auto simp: s plain_prefix [OF assms(3,2)])
  have "db' |` (- own_keys cfg) = db |` (- own_keys cfg)"
    using ks(1) xs(1,2) by (auto simp: fun_eq_iff restrict_map_def)
  moreover have "db' = db |` (- own_keys cfg)" if "r = None"
  proof
    fix k
    have "xs = ks" "e = None" using that r xs(3) by auto
    then show "db' k = (db |` (- own_keys cfg)) k" using ks xs(2) by (auto simp: restrict_map_def)
  qed
  ultimately show ?thesis by blast
qed

text \<open>A cleared cache has no entry.\<close>

lemma redis_clear_empties:
  assumes "scan_laws glob scan" "glob_laws glob" "plain_key (rp_KeyPrefix cfg)" "rp_Clear scan srv cfg None db = (None, db')"
  shows "rp_Get dec cfg db' key = None"
proof -
  have "redisKey cfg key \<in> own_keys cfg" by (simp add: redisKey_def own_keys_def has_prefix_def)
  then show ?thesis using redis_clear_is_exact [OF assms] by (simp add: rp_Get_def)
qed

text \<open>A prefix with a star reaches further: clearing the cache of \<^verbatim>\<open>kb*\<close> removes an entry of \<^verbatim>\<open>kb1\<close>.\<close>

lemma redis_clear_reaches_other_caches:
  assumes "scan_laws glob scan" "glob_laws glob" "rp_KeyPrefix cfg = ''kb*''"
    and "rp_Clear scan (\<lambda>_. None) cfg None (Map.empty(''kb1:x'' \<mapsto> v)) = (None, db')"
  shows "db' ''kb1:x'' = None"
proof -
  let ?db = "Map.empty(''kb1:x'' \<mapsto> v) :: redis_db" and ?p = "redisKey cfg ''*''"
  obtain ks e where s: "scan ?db ?p = (ks, e)" by (metis surj_pair)
  obtain xs where c: "clear_loop (\<lambda>_. None) ks ?db = (None, db')" and e: "e = None"
    using assms(4) s by (auto simp: rp_Clear_def split: prod.splits option.splits)
  have "glob (''kb'' @ ''*'' @ '':'' @ ''*'') (''kb'' @ ''1'' @ '':'' @ ''x'')"
    using assms(2) unfolding glob_laws_def by (rule conjE) (simp add: plain_key_def del: append.simps)
  then have g: "glob ?p ''kb1:x''" by (simp add: redisKey_def assms(3))
  have "snd (scan ?db ?p) = None \<longrightarrow> {k \<in> dom ?db. glob ?p k} \<subseteq> set (fst (scan ?db ?p))"
    using assms(1) unfolding scan_laws_def by blast
  then have "''kb1:x'' \<in> set ks" using g s e by auto
  then show ?thesis using clear_loop_result [OF c] by (auto simp: restrict_map_def)
qed

text \<open>Stats counts what the iterator returns, so a key that SCAN returns twice counts twice.\<close>

lemma redis_stats_count_returns:
  assumes "scan_laws glob scan" "glob_laws glob" "plain_key (rp_KeyPrefix cfg)" "rp_Stats scan cfg None db = Inr n"
  shows "card (dom db \<inter> own_keys cfg) \<le> n"
proof -
  obtain ks where s: "scan db (redisKey cfg ''*'') = (ks, None)" and n: "n = length ks"
    using assms(4) by (auto simp: rp_Stats_def split: prod.splits option.splits)
  have "snd (scan db (redisKey cfg ''*'')) = None \<longrightarrow> {k \<in> dom db. glob (redisKey cfg ''*'') k} \<subseteq> set (fst (scan db (redisKey cfg ''*'')))"
    using assms(1) unfolding scan_laws_def by blast
  then have "dom db \<inter> own_keys cfg \<subseteq> set ks" by (auto simp: s plain_prefix [OF assms(3,2)])
  then have "card (dom db \<inter> own_keys cfg) \<le> card (set ks)" by (intro card_mono) auto
  then show ?thesis using n card_length [of ks] by linarith
qed

end
