(* ===== verification/Governor.thy ===== *)
theory Governor
  imports Prelude
begin

section \<open>Provider governance: circuit breaker and rate limiter\<close>

text \<open>
  \<^verbatim>\<open>provider_governance.go\<close> and \<^verbatim>\<open>provider_governor.go\<close>. Every operation takes the time
  of its \<^verbatim>\<open>time.Now()\<close> as an argument; durations are nanoseconds. Each operation holds the
  mutex of its object from beginning to end, so it is one step of the transition systems
  below, in which the operations of any number of callers interleave. A nil pointer is
  \<open>None\<close>. The breaker's state is a string that only ever holds one of three constants.
\<close>

subsection \<open>Configuration\<close>

record token_pricing =
  tp_InputUSDPer1K :: real
  tp_OutputUSDPer1K :: real

record pricing_config =
  pr_ChatModels :: "string \<rightharpoonup> token_pricing"
  pr_EmbeddingModels :: "string \<rightharpoonup> token_pricing"
  pr_WebSearchPerCallUSD :: real

record rate_limit_config =
  rl_RequestsPerSecond :: real
  rl_Burst :: int

definition rl_normalized :: "rate_limit_config \<Rightarrow> rate_limit_config" where
  "rl_normalized c = (if rl_RequestsPerSecond c > 0 \<and> rl_Burst c = 0 then c\<lparr>rl_Burst := 1\<rparr> else c)"

definition rl_enabled :: "rate_limit_config \<Rightarrow> bool" where
  "rl_enabled c \<longleftrightarrow> rl_RequestsPerSecond c > 0"

record breaker_config =
  cb_FailureThreshold :: int
  cb_OpenTimeout :: duration
  cb_HalfOpenMaxCalls :: int

definition cb_enabled :: "breaker_config \<Rightarrow> bool" where
  "cb_enabled c \<longleftrightarrow> cb_FailureThreshold c > 0 \<or> cb_OpenTimeout c > 0 \<or> cb_HalfOpenMaxCalls c > 0"

definition cb_normalized :: "breaker_config \<Rightarrow> breaker_config" where
  "cb_normalized c = (if cb_enabled c \<and> cb_HalfOpenMaxCalls c = 0 then c\<lparr>cb_HalfOpenMaxCalls := 1\<rparr> else c)"

record governance_config =
  gc_RetryMaxAttempts :: int
  gc_RetryBaseDelay :: duration
  gc_RetryMaxDelay :: duration
  gc_RateLimit :: rate_limit_config
  gc_CircuitBreaker :: breaker_config
  gc_Pricing :: pricing_config

definition gc_normalized :: "governance_config \<Rightarrow> governance_config" where
  "gc_normalized c = c\<lparr>
     gc_RetryMaxAttempts := (if gc_RetryMaxAttempts c = 0 then 2 else gc_RetryMaxAttempts c),
     gc_RetryBaseDelay := (if gc_RetryBaseDelay c = 0 then 200000000 else gc_RetryBaseDelay c),
     gc_RetryMaxDelay := (if gc_RetryMaxDelay c = 0 then 2000000000 else gc_RetryMaxDelay c),
     gc_RateLimit := rl_normalized (gc_RateLimit c),
     gc_CircuitBreaker := cb_normalized (gc_CircuitBreaker c)\<rparr>"

definition zero_pricing :: token_pricing where
  "zero_pricing = \<lparr>tp_InputUSDPer1K = 0, tp_OutputUSDPer1K = 0\<rparr>"

definition chatPrice :: "governance_config \<Rightarrow> string \<Rightarrow> token_pricing" where
  "chatPrice c model = (case pr_ChatModels (gc_Pricing c) model of Some p \<Rightarrow> p | None \<Rightarrow> zero_pricing)"

definition embeddingPrice :: "governance_config \<Rightarrow> string \<Rightarrow> token_pricing" where
  "embeddingPrice c model = (case pr_EmbeddingModels (gc_Pricing c) model of Some p \<Rightarrow> p | None \<Rightarrow> zero_pricing)"

lemma cb_normalized_idem [simp]: "cb_normalized (cb_normalized c) = cb_normalized c"
  by (simp add: cb_normalized_def cb_enabled_def)

lemma rl_normalized_idem [simp]: "rl_normalized (rl_normalized c) = rl_normalized c"
  by (simp add: rl_normalized_def)

lemma gc_normalized_idem: "gc_normalized (gc_normalized c) = gc_normalized c"
  by (simp add: gc_normalized_def)

subsection \<open>Error classes of a provider call\<close>

datatype error_class =
    ClassNone | ClassUnknown | ClassRateLimit | ClassAuth | ClassTransient | ClassPermanent
  | ClassCircuit | ClassCanceled

definition isCircuitFailureClass :: "error_class \<Rightarrow> bool" where
  "isCircuitFailureClass c = (case c of ClassTransient \<Rightarrow> True | ClassRateLimit \<Rightarrow> True | _ \<Rightarrow> False)"

subsection \<open>The circuit breaker\<close>

datatype circuit_state = Closed | Open | HalfOpen

record breaker =
  br_provider :: string
  br_cfg :: breaker_config
  br_logger :: bool
  br_state :: circuit_state
  br_consecutiveFailure :: int
  br_openedAt :: gotime
  br_halfOpenInFlight :: int
  br_log :: "(circuit_state \<times> circuit_state) list"

definition newProviderCircuitBreaker :: "string \<Rightarrow> breaker_config \<Rightarrow> bool \<Rightarrow> breaker option" where
  "newProviderCircuitBreaker provider cfg logger =
     (if \<not> cb_enabled cfg then None
      else Some \<lparr>br_provider = provider, br_cfg = cb_normalized cfg, br_logger = logger,
             br_state = Closed, br_consecutiveFailure = 0, br_openedAt = 0,
             br_halfOpenInFlight = 0, br_log = []\<rparr>)"

text \<open>A log entry of a transition is the pair of the two states, the last one first.\<close>

definition transitionLocked :: "breaker \<Rightarrow> circuit_state \<Rightarrow> breaker" where
  "transitionLocked b next = (if br_state b = next then b
     else let b' = b\<lparr>br_state := next\<rparr>
          in if br_logger b then b'\<lparr>br_log := (br_state b, next) # br_log b\<rparr> else b')"

record reservation =
  rs_halfOpen :: bool

definition circuit_open_error :: "breaker \<Rightarrow> go_error" where
  "circuit_open_error b = errorf (''ragagent: provider circuit open: provider='' @ br_provider b)
     [sentinel_error ''ragagent: provider circuit open'' ErrProviderCircuitOpen]"

text \<open>\<^verbatim>\<open>reserve\<close>: the reservation or the error, the reported state, and the breaker.\<close>

definition reserve_admit :: "breaker \<Rightarrow> (reservation result \<times> circuit_state) \<times> breaker" where
  "reserve_admit b =
     (if br_state b = HalfOpen
      then ((Inr \<lparr>rs_halfOpen = True\<rparr>, HalfOpen), b\<lparr>br_halfOpenInFlight := br_halfOpenInFlight b + 1\<rparr>)
      else ((Inr \<lparr>rs_halfOpen = False\<rparr>, br_state b), b))"

definition reserve :: "gotime \<Rightarrow> breaker \<Rightarrow> (reservation result \<times> circuit_state) \<times> breaker" where
  "reserve now b = (case br_state b of
     Open \<Rightarrow> if now - br_openedAt b < cb_OpenTimeout (br_cfg b)
             then ((Inl (circuit_open_error b), Open), b)
             else reserve_admit (transitionLocked b HalfOpen)
   | HalfOpen \<Rightarrow> if br_halfOpenInFlight b \<ge> cb_HalfOpenMaxCalls (br_cfg b)
             then ((Inl (circuit_open_error b), HalfOpen), b)
             else reserve_admit b
   | Closed \<Rightarrow> reserve_admit b)"

definition release_probe :: "reservation \<Rightarrow> breaker \<Rightarrow> breaker" where
  "release_probe r b = (if rs_halfOpen r \<and> br_halfOpenInFlight b > 0
     then b\<lparr>br_halfOpenInFlight := br_halfOpenInFlight b - 1\<rparr> else b)"

definition abort :: "reservation \<Rightarrow> breaker \<Rightarrow> breaker" where
  "abort r b = release_probe r b"

definition finish_class :: "error_class \<Rightarrow> gotime \<Rightarrow> breaker \<Rightarrow> breaker" where
  "finish_class class now b = (case br_state b of
     Closed \<Rightarrow>
       if isCircuitFailureClass class then
         let b' = b\<lparr>br_consecutiveFailure := br_consecutiveFailure b + 1\<rparr>
         in if br_consecutiveFailure b' \<ge> cb_FailureThreshold (br_cfg b)
            then transitionLocked (b'\<lparr>br_consecutiveFailure := 0, br_openedAt := now\<rparr>) Open
            else b'
       else b\<lparr>br_consecutiveFailure := 0\<rparr>
   | HalfOpen \<Rightarrow>
       if isCircuitFailureClass class then transitionLocked (b\<lparr>br_openedAt := now\<rparr>) Open
       else transitionLocked (b\<lparr>br_consecutiveFailure := 0\<rparr>) Closed
   | Open \<Rightarrow> b)"

definition finish :: "reservation \<Rightarrow> error_class \<Rightarrow> gotime \<Rightarrow> breaker \<Rightarrow> breaker" where
  "finish r class now b =
     (let b' = release_probe r b in if class = ClassCanceled then b' else finish_class class now b')"

lemma transitionLocked_simps [simp]:
  "br_cfg (transitionLocked b s) = br_cfg b"
  "br_consecutiveFailure (transitionLocked b s) = br_consecutiveFailure b"
  "br_halfOpenInFlight (transitionLocked b s) = br_halfOpenInFlight b"
  "br_openedAt (transitionLocked b s) = br_openedAt b"
  "br_provider (transitionLocked b s) = br_provider b"
  "br_state (transitionLocked b s) = s"
  by (simp_all add: transitionLocked_def Let_def)

lemma release_probe_simps [simp]:
  "br_cfg (release_probe r b) = br_cfg b" "br_state (release_probe r b) = br_state b"
  "br_consecutiveFailure (release_probe r b) = br_consecutiveFailure b"
  "br_openedAt (release_probe r b) = br_openedAt b"
  by (simp_all add: release_probe_def)

lemma finish_class_simps [simp]:
  "br_cfg (finish_class c now b) = br_cfg b"
  "br_halfOpenInFlight (finish_class c now b) = br_halfOpenInFlight b"
  by (simp_all add: finish_class_def Let_def split: circuit_state.split)

subsection \<open>All callers of one breaker\<close>

text \<open>
  A state of the system: the breaker and the reservations handed out and not yet returned. A
  step is one of the three operations by any caller at any time.
\<close>

type_synonym bsys = "breaker \<times> reservation list"

inductive bstep :: "bsys \<Rightarrow> bsys \<Rightarrow> bool" where
  admit: "reserve now b = ((Inr r, st), b') \<Longrightarrow> bstep (b, out) (b', r # out)"
| reject: "reserve now b = ((Inl e, st), b') \<Longrightarrow> bstep (b, out) (b', out)"
| settle: "r \<in> set out \<Longrightarrow> bstep (b, out) (finish r class now b, remove1 r out)"
| giveup: "r \<in> set out \<Longrightarrow> bstep (b, out) (abort r b, remove1 r out)"

inductive breachable :: "breaker \<Rightarrow> bsys \<Rightarrow> bool" for b0 where
  start: "breachable b0 (b0, [])"
| step: "breachable b0 s \<Longrightarrow> bstep s t \<Longrightarrow> breachable b0 t"

inductive_cases bstepE: "bstep (b, out) t"

definition probes :: "reservation list \<Rightarrow> int" where
  "probes out = int (length (filter rs_halfOpen out))"

definition breaker_inv :: "bsys \<Rightarrow> bool" where
  "breaker_inv s \<longleftrightarrow> br_halfOpenInFlight (fst s) = probes (snd s)
     \<and> 0 \<le> br_consecutiveFailure (fst s)
     \<and> (0 < cb_FailureThreshold (br_cfg (fst s)) \<longrightarrow>
          br_consecutiveFailure (fst s) < cb_FailureThreshold (br_cfg (fst s)))"

lemma probes_Cons [simp]: "probes (r # out) = (if rs_halfOpen r then 1 else 0) + probes out"
  by (simp add: probes_def)

lemma probes_Nil [simp]: "probes [] = 0"
  by (simp add: probes_def)

lemma probes_nonneg [simp]: "0 \<le> probes out"
  by (simp add: probes_def)

lemma probes_remove1: "r \<in> set out \<Longrightarrow> probes (remove1 r out) = probes out - (if rs_halfOpen r then 1 else 0)"
  by (induction out) auto

lemma probes_pos: "r \<in> set out \<Longrightarrow> rs_halfOpen r \<Longrightarrow> 0 < probes out"
  by (induction out) (auto simp: add_pos_nonneg intro: add_nonneg_pos)

lemma release_probe_inv:
  "r \<in> set out \<Longrightarrow> breaker_inv (b, out) \<Longrightarrow> breaker_inv (release_probe r b, remove1 r out)"
  by (auto simp: breaker_inv_def release_probe_def probes_remove1 dest: probes_pos)

lemma finish_class_inv: "breaker_inv (b, out) \<Longrightarrow> breaker_inv (finish_class c now b, out)"
  by (auto simp: breaker_inv_def finish_class_def Let_def split: circuit_state.split)

lemma reserve_admit_inv:
  "breaker_inv (b, out) \<Longrightarrow> reserve_admit b = ((Inr r, st), b') \<Longrightarrow> breaker_inv (b', r # out)"
  by (auto simp: breaker_inv_def reserve_admit_def split: if_splits)

lemma reserve_admit_Inr: "reserve_admit b \<noteq> ((Inl e, st), b')"
  by (simp add: reserve_admit_def)

lemma transition_inv [simp]: "breaker_inv (transitionLocked b s, out) = breaker_inv (b, out)"
  by (simp add: breaker_inv_def)

lemma bstep_inv: "bstep s t \<Longrightarrow> breaker_inv s \<Longrightarrow> breaker_inv t"
proof (induction rule: bstep.induct)
  case (admit now b r st b' out)
  then show ?case
    using reserve_admit_inv [of b out] reserve_admit_inv [of "transitionLocked b HalfOpen" out]
    by (auto simp: reserve_def split: circuit_state.splits if_splits)
next
  case (reject now b e st b' out)
  then show ?case
    by (auto simp: reserve_def reserve_admit_Inr split: circuit_state.splits if_splits)
next
  case (settle r out b cls now)
  then show ?case by (simp add: finish_def Let_def release_probe_inv finish_class_inv)
next
  case (giveup r out b)
  then show ?case by (simp add: abort_def release_probe_inv)
qed

lemma breachable_inv: "breachable b0 s \<Longrightarrow> breaker_inv (b0, []) \<Longrightarrow> breaker_inv s"
  by (induction rule: breachable.induct) (auto intro: bstep_inv)

lemma new_breaker_inv: "newProviderCircuitBreaker p cfg l = Some b \<Longrightarrow> breaker_inv (b, [])"
  by (auto simp: newProviderCircuitBreaker_def breaker_inv_def split: if_splits)

lemma bstep_cfg: "bstep s t \<Longrightarrow> br_cfg (fst t) = br_cfg (fst s)"
  by (induction rule: bstep.induct)
     (auto simp: reserve_def reserve_admit_def finish_def abort_def Let_def
           split: circuit_state.splits if_splits)

subsection \<open>The probe bound\<close>

text \<open>
  \<^verbatim>\<open>HalfOpenMaxCalls\<close> is meant to bound the probes in flight. Two runs of the step relation
  decide how far it does. While no call admitted before the breaker opened comes back in the
  half-open state, the bound holds; \<open>disciplined\<close> is that restriction on a step.
\<close>

definition disciplined :: "bsys \<Rightarrow> bsys \<Rightarrow> bool" where
  "disciplined s t \<longleftrightarrow> bstep s t \<and>
     (br_state (fst s) = HalfOpen \<and> br_state (fst t) \<noteq> HalfOpen \<longrightarrow> probes (snd t) < probes (snd s))"

inductive dreachable :: "breaker \<Rightarrow> bsys \<Rightarrow> bool" for b0 where
  dstart: "dreachable b0 (b0, [])"
| dstep: "dreachable b0 s \<Longrightarrow> disciplined s t \<Longrightarrow> dreachable b0 t"

definition probe_bound :: "bsys \<Rightarrow> bool" where
  "probe_bound s \<longleftrightarrow> breaker_inv s \<and> 0 < cb_HalfOpenMaxCalls (br_cfg (fst s))
     \<and> probes (snd s) \<le> cb_HalfOpenMaxCalls (br_cfg (fst s))
     \<and> (br_state (fst s) \<noteq> HalfOpen \<longrightarrow> probes (snd s) < cb_HalfOpenMaxCalls (br_cfg (fst s)))"

lemma finish_state:
  "br_state (finish r c now b) = HalfOpen \<longleftrightarrow>
     br_state b = HalfOpen \<and> c = ClassCanceled"
  by (simp add: finish_def finish_class_def Let_def split: circuit_state.split)

lemma disciplined_bound:
  assumes "disciplined s t" "probe_bound s"
  shows "probe_bound t"
proof -
  have step: "bstep s t" using assms(1) by (simp add: disciplined_def)
  have inv: "breaker_inv t" using step assms(2) by (auto simp: probe_bound_def intro: bstep_inv)
  have cfg: "br_cfg (fst t) = br_cfg (fst s)" using step by (rule bstep_cfg)
  have drop: "br_state (fst s) = HalfOpen \<Longrightarrow> br_state (fst t) \<noteq> HalfOpen \<Longrightarrow> probes (snd t) < probes (snd s)"
    using assms(1) by (simp add: disciplined_def)
  from step show ?thesis
  proof cases
    case (admit now b r st b' out)
    then show ?thesis
      using assms(2) inv cfg
      by (auto simp: probe_bound_def breaker_inv_def reserve_def reserve_admit_def
               split: circuit_state.splits if_splits)
  next
    case (reject now b e st b' out)
    then show ?thesis
      using assms(2)
      by (auto simp: reserve_def reserve_admit_Inr split: circuit_state.splits if_splits)
  next
    case (settle r out b cls now)
    then show ?thesis
      using assms(2) inv cfg drop
      by (auto simp: probe_bound_def probes_remove1 finish_state split: if_splits)
  next
    case (giveup r out b)
    then show ?thesis
      using assms(2) inv cfg by (auto simp: probe_bound_def probes_remove1 abort_def)
  qed
qed

lemma dreachable_bound: "dreachable b0 s \<Longrightarrow> probe_bound (b0, []) \<Longrightarrow> probe_bound s"
  by (induction rule: dreachable.induct) (auto intro: disciplined_bound)

lemma new_breaker_bound:
  "newProviderCircuitBreaker p cfg l = Some b \<Longrightarrow> 0 < cb_HalfOpenMaxCalls (cb_normalized cfg) \<Longrightarrow>
     probe_bound (b, [])"
  using new_breaker_inv [of p cfg l b]
  by (auto simp: newProviderCircuitBreaker_def probe_bound_def split: if_splits)

text \<open>
  Without it the bound fails. One call is admitted while the breaker is closed, a second one
  fails and opens it, a probe is admitted after the timeout; then the first call fails and
  opens the breaker again with the probe still in flight, and after another timeout the
  open branch of \<^verbatim>\<open>reserve\<close>, which does not look at the count, admits a second probe.
\<close>

definition cfg1 :: breaker_config where
  "cfg1 = \<lparr>cb_FailureThreshold = 1, cb_OpenTimeout = 10, cb_HalfOpenMaxCalls = 1\<rparr>"

definition breaker1 :: breaker where
  "breaker1 = \<lparr>br_provider = ''openai'', br_cfg = cfg1, br_logger = False, br_state = Closed,
     br_consecutiveFailure = 0, br_openedAt = 0, br_halfOpenInFlight = 0, br_log = []\<rparr>"

abbreviation call_res :: reservation where "call_res \<equiv> \<lparr>rs_halfOpen = False\<rparr>"
abbreviation probe_res :: reservation where "probe_res \<equiv> \<lparr>rs_halfOpen = True\<rparr>"

lemma bstep_admitI: "reserve now b = ((Inr r, st), b') \<Longrightarrow> breachable b0 (b, out) \<Longrightarrow> breachable b0 (b', r # out)"
  by (blast intro: breachable.step bstep.admit)

lemma bstep_settleI:
  "r \<in> set out \<Longrightarrow> breachable b0 (b, out) \<Longrightarrow> out' = remove1 r out \<Longrightarrow>
     breachable b0 (finish r class now b, out')"
  by (blast intro: breachable.step bstep.settle)

lemmas breaker_run = reserve_def reserve_admit_def finish_def finish_class_def release_probe_def
  transitionLocked_def isCircuitFailureClass_def breaker1_def cfg1_def Let_def

lemma two_probes:
  "breachable breaker1 (breaker1\<lparr>br_state := HalfOpen, br_openedAt := 20, br_halfOpenInFlight := 2\<rparr>,
     [probe_res, probe_res])"
proof -
  have "breachable breaker1 (breaker1, [call_res])"
    by (rule bstep_admitI [OF _ breachable.start, where now = 0]) (simp add: breaker_run)
  then have "breachable breaker1 (breaker1, [call_res, call_res])"
    by (rule bstep_admitI [rotated, where now = 0]) (simp add: breaker_run)
  then have "breachable breaker1 (finish call_res ClassTransient 1 breaker1, [call_res])"
    by (rule bstep_settleI [rotated]) simp_all
  then have "breachable breaker1
      (breaker1\<lparr>br_state := HalfOpen, br_openedAt := 1, br_halfOpenInFlight := 1\<rparr>, [probe_res, call_res])"
    by (rule bstep_admitI [rotated, where now = 12]) (simp add: breaker_run)
  then have "breachable breaker1 (finish call_res ClassTransient 20
      (breaker1\<lparr>br_state := HalfOpen, br_openedAt := 1, br_halfOpenInFlight := 1\<rparr>), [probe_res])"
    by (rule bstep_settleI [rotated]) simp_all
  then show ?thesis
    by (rule bstep_admitI [rotated, where now = 31]) (simp add: breaker_run)
qed

subsection \<open>The rate limiter\<close>

record rate_limiter =
  lim_rate :: real
  lim_burst :: real
  lim_tokens :: real
  lim_last :: gotime

definition newProviderRateLimiter :: "gotime \<Rightarrow> rate_limit_config \<Rightarrow> rate_limiter option" where
  "newProviderRateLimiter now cfg = (if \<not> rl_enabled cfg then None
     else Some \<lparr>lim_rate = rl_RequestsPerSecond cfg, lim_burst = of_int (rl_Burst cfg),
            lim_tokens = of_int (rl_Burst cfg), lim_last = now\<rparr>)"

definition seconds :: "duration \<Rightarrow> real" where
  "seconds d = of_int d / 10 ^ 9"

text \<open>The refill of the bucket, and \<^verbatim>\<open>take\<close>: the time to wait (0 for a granted token).
  The conversion to \<^verbatim>\<open>time.Duration\<close> truncates to whole nanoseconds.\<close>

definition refill :: "gotime \<Rightarrow> rate_limiter \<Rightarrow> rate_limiter" where
  "refill now l = (let elapsed = seconds (now - lim_last l)
     in if elapsed > 0
        then l\<lparr>lim_tokens := min (lim_burst l) (lim_tokens l + elapsed * lim_rate l), lim_last := now\<rparr>
        else l)"

definition take_token :: "gotime \<Rightarrow> rate_limiter \<Rightarrow> duration \<times> rate_limiter" where
  "take_token now l = (let l' = refill now l in
     if lim_tokens l' \<ge> 1 then (0, l'\<lparr>lim_tokens := lim_tokens l' - 1\<rparr>)
     else (let missing = 1 - lim_tokens l'
           in if missing \<le> 0 then (0, l') else (\<lfloor>missing / lim_rate l' * 10 ^ 9\<rfloor>, l')))"

text \<open>
  \<^verbatim>\<open>wait\<close> on the times at which its loop comes to \<^verbatim>\<open>take\<close>, each with the context's error
  should it be done before the timer of that round fires: the delay and error it returns.
  \<open>None\<close> means that it is still waiting when the times run out.
\<close>

fun limiter_wait :: "gotime \<Rightarrow> (gotime \<times> gotime \<times> go_error option) list \<Rightarrow> rate_limiter
    \<Rightarrow> ((duration \<times> go_error option) \<times> rate_limiter) option" where
  "limiter_wait started [] l = None"
| "limiter_wait started ((now, after, ctx_err) # rest) l =
     (case take_token now l of (w, l') \<Rightarrow>
        if w \<le> 0 then Some ((after - started, None), l')
        else (case ctx_err of Some e \<Rightarrow> Some ((after - started, Some e), l')
              | None \<Rightarrow> limiter_wait started rest l'))"

definition lim_ok :: "rate_limiter \<Rightarrow> bool" where
  "lim_ok l \<longleftrightarrow> 0 < lim_rate l \<and> 1 \<le> lim_burst l \<and> 0 \<le> lim_tokens l \<and> lim_tokens l \<le> lim_burst l"

lemma lim_ok_new:
  "newProviderRateLimiter now cfg = Some l \<Longrightarrow> 1 \<le> rl_Burst cfg \<Longrightarrow> lim_ok l"
  by (auto simp: newProviderRateLimiter_def rl_enabled_def lim_ok_def split: if_splits)

lemma refill_simps [simp]:
  "lim_rate (refill now l) = lim_rate l" "lim_burst (refill now l) = lim_burst l"
  by (simp_all add: refill_def Let_def)

lemma lim_ok_refill: "lim_ok l \<Longrightarrow> lim_ok (refill now l)"
  by (auto simp: lim_ok_def refill_def Let_def)

lemma lim_ok_take: "lim_ok l \<Longrightarrow> lim_ok (snd (take_token now l))"
  using lim_ok_refill [of l now] by (auto simp: take_token_def Let_def lim_ok_def)

lemma take_token_nonneg: "lim_ok l \<Longrightarrow> 0 \<le> fst (take_token now l)"
  by (auto simp: take_token_def Let_def lim_ok_def)

lemma take_token_simps [simp]:
  "lim_rate (snd (take_token now l)) = lim_rate l" "lim_burst (snd (take_token now l)) = lim_burst l"
  by (simp_all add: take_token_def Let_def)

text \<open>
  The throughput of the bucket. \<open>consumed\<close> counts the tokens taken over a run of attempts at
  increasing times; the potential is the content of the bucket.
\<close>

definition consumes :: "gotime \<Rightarrow> rate_limiter \<Rightarrow> bool" where
  "consumes now l \<longleftrightarrow> lim_tokens (refill now l) \<ge> 1"

fun consumed :: "gotime list \<Rightarrow> rate_limiter \<Rightarrow> nat" where
  "consumed [] l = 0"
| "consumed (t # ts) l = (if consumes t l then 1 else 0) + consumed ts (snd (take_token t l))"

lemma lim_last_take: "lim_last (snd (take_token t l)) = max t (lim_last l)"
  by (auto simp: take_token_def refill_def Let_def seconds_def)

lemma take_potential:
  assumes "lim_ok l"
  shows "(if consumes t l then 1 else 0) + lim_tokens (snd (take_token t l))
       \<le> lim_tokens l + seconds (max t (lim_last l) - lim_last l) * lim_rate l"
  using assms
  by (auto simp: consumes_def take_token_def refill_def Let_def seconds_def lim_ok_def max_def)

lemma consumed_potential:
  assumes "lim_ok l"
  shows "real (consumed ts l) + 0
       \<le> lim_tokens l + seconds (Max (insert (lim_last l) (set ts)) - lim_last l) * lim_rate l"
  using assms
proof (induction ts arbitrary: l)
  case Nil
  then show ?case by (simp add: seconds_def lim_ok_def)
next
  case (Cons t ts)
  let ?l = "snd (take_token t l)"
  let ?M = "Max (insert (lim_last l) (set (t # ts)))"
  have M: "Max (insert (lim_last ?l) (set ts)) = ?M"
    by (cases "ts = []") (auto simp: lim_last_take max.assoc max.left_commute max.commute)
  have "real (consumed ts ?l) \<le> lim_tokens ?l + seconds (?M - lim_last ?l) * lim_rate l"
    using Cons.IH [OF lim_ok_take [OF Cons.prems], of t] unfolding M by simp
  moreover have "(if consumes t l then 1 else 0) + lim_tokens ?l
       \<le> lim_tokens l + seconds (lim_last ?l - lim_last l) * lim_rate l"
    using take_potential [OF Cons.prems, of t] by (simp add: lim_last_take)
  moreover have "seconds (?M - lim_last ?l) * lim_rate l + seconds (lim_last ?l - lim_last l) * lim_rate l
       = seconds (?M - lim_last l) * lim_rate l"
    by (simp add: seconds_def field_simps)
  ultimately show ?case by (auto split: if_splits)
qed

lemma refill_pos:
  "seconds (t - lim_last l) > 0 \<Longrightarrow>
     lim_tokens (refill t l) = min (lim_burst l) (lim_tokens l + seconds (t - lim_last l) * lim_rate l)"
  by (simp add: refill_def Let_def)

text \<open>A caller that sleeps for the time it was told is granted at its second attempt.\<close>

lemma second_attempt_granted:
  assumes ok: "lim_ok l" and w: "take_token t l = (w, l')" "0 < w"
    and later: "t' \<ge> max t (lim_last l) + w"
  shows "fst (take_token t' l') = 0"
proof -
  have rate: "0 < lim_rate l" and tok: "lim_tokens (refill t l) < 1" and l': "l' = refill t l"
    and wdef: "w = \<lfloor>(1 - lim_tokens (refill t l)) / lim_rate l * 10 ^ 9\<rfloor>"
    using ok w by (auto simp: lim_ok_def take_token_def Let_def split: if_splits)
  have last: "lim_last l' = max t (lim_last l)"
    using lim_last_take [of t l] w(1) by simp
  have el: "seconds (t' - lim_last l') \<ge> of_int w / 10 ^ 9"
    using later last by (simp add: seconds_def divide_right_mono)
  have pos: "seconds (t' - lim_last l') > 0"
    using later last w(2) by (auto simp: seconds_def)
  let ?r = "lim_tokens (refill t' l')"
  have r: "?r = min (lim_burst l) (lim_tokens l' + seconds (t' - lim_last l') * lim_rate l)"
    using refill_pos [OF pos] l' by simp
  show ?thesis
  proof (cases "?r \<ge> 1")
    case True
    then show ?thesis by (simp add: take_token_def Let_def)
  next
    case False
    have b: "1 \<le> lim_burst l" using ok by (simp add: lim_ok_def)
    have "(1 - lim_tokens l') / lim_rate l * 10 ^ 9 < of_int w + 1"
      unfolding wdef l' by linarith
    then have "1 - lim_tokens l' < (of_int w + 1) / 10 ^ 9 * lim_rate l"
      using rate by (simp add: field_simps)
    moreover have "of_int w / 10 ^ 9 * lim_rate l \<le> seconds (t' - lim_last l') * lim_rate l"
      using el rate by (simp add: mult_right_mono)
    ultimately have "1 - ?r < lim_rate l / 10 ^ 9"
      using r False b by (auto simp: min_def field_simps split: if_splits)
    then have "(1 - ?r) / lim_rate l * 10 ^ 9 < 1"
      using rate by (simp add: field_simps)
    moreover have "0 \<le> (1 - ?r) / lim_rate l * 10 ^ 9"
      using False rate by simp
    ultimately have "\<lfloor>(1 - ?r) / lim_rate l * 10 ^ 9\<rfloor> = 0" by linarith
    then show ?thesis using False l' by (simp add: take_token_def Let_def)
  qed
qed

subsection \<open>Governors, one per provider\<close>

record governor =
  gv_rateLimiter :: "rate_limiter option"
  gv_circuitBreaker :: "breaker option"

definition newProviderGovernor :: "gotime \<Rightarrow> string \<Rightarrow> governance_config \<Rightarrow> bool \<Rightarrow> governor" where
  "newProviderGovernor now provider cfg logger = (let cfg = gc_normalized cfg in
     \<lparr>gv_rateLimiter = newProviderRateLimiter now (gc_RateLimit cfg),
      gv_circuitBreaker = newProviderCircuitBreaker provider (gc_CircuitBreaker cfg) logger\<rparr>)"

text \<open>
  A governor is only reachable through its key of the map, so the key stands for the pointer
  and the map holds the current contents.
\<close>

record governors =
  gs_cfg :: governance_config
  gs_logger :: bool
  gs_providers :: "string \<rightharpoonup> governor"

definition newProviderGovernors :: "governance_config \<Rightarrow> bool \<Rightarrow> governors" where
  "newProviderGovernors cfg logger =
     \<lparr>gs_cfg = gc_normalized cfg, gs_logger = logger, gs_providers = Map.empty\<rparr>"

definition forProvider :: "gotime \<Rightarrow> string \<Rightarrow> governors \<Rightarrow> governor \<times> governors" where
  "forProvider now provider gs = (case gs_providers gs provider of
     Some g \<Rightarrow> (g, gs)
   | None \<Rightarrow> (let g = newProviderGovernor now provider (gs_cfg gs) (gs_logger gs)
             in (g, gs\<lparr>gs_providers := (gs_providers gs)(provider \<mapsto> g)\<rparr>)))"

text \<open>One attempt. \<open>at_reservation\<close> is \<open>None\<close> when no breaker admitted the call.\<close>

record attempt_handle =
  at_ThrottleDelay :: duration
  at_CircuitState :: circuit_state
  at_reservation :: "reservation option"

definition no_handle :: attempt_handle where
  "no_handle = \<lparr>at_ThrottleDelay = 0, at_CircuitState = Closed, at_reservation = None\<rparr>"

definition handle_finish :: "attempt_handle \<Rightarrow> error_class \<Rightarrow> gotime \<Rightarrow> governor \<Rightarrow> governor" where
  "handle_finish h class now g = (case (at_reservation h, gv_circuitBreaker g) of
     (Some r, Some b) \<Rightarrow> g\<lparr>gv_circuitBreaker := Some (finish r class now b)\<rparr>
   | _ \<Rightarrow> g)"

definition handle_abort :: "attempt_handle \<Rightarrow> governor \<Rightarrow> governor" where
  "handle_abort h g = (case (at_reservation h, gv_circuitBreaker g) of
     (Some r, Some b) \<Rightarrow> g\<lparr>gv_circuitBreaker := Some (abort r b)\<rparr>
   | _ \<Rightarrow> g)"

text \<open>\<^verbatim>\<open>acquire\<close>: the handle, the error, and the governor; \<open>None\<close> while the limiter waits.\<close>

definition acquire_breaker :: "gotime \<Rightarrow> governor \<Rightarrow> (attempt_handle \<times> go_error option) \<times> governor" where
  "acquire_breaker now g = (case gv_circuitBreaker g of
     None \<Rightarrow> ((no_handle, None), g)
   | Some b \<Rightarrow> (case reserve now b of ((res, st), b') \<Rightarrow>
        (let g' = g\<lparr>gv_circuitBreaker := Some b'\<rparr>; h = no_handle\<lparr>at_CircuitState := st\<rparr> in
         case res of Inl e \<Rightarrow> ((h, Some e), g')
         | Inr r \<Rightarrow> ((h\<lparr>at_reservation := Some r\<rparr>, None), g'))))"

definition acquire :: "gotime \<Rightarrow> (gotime \<times> gotime \<times> go_error option) list \<Rightarrow> governor
    \<Rightarrow> ((attempt_handle \<times> go_error option) \<times> governor) option" where
  "acquire now rounds g = (case acquire_breaker now g of
     ((h, Some e), g') \<Rightarrow> Some ((h, Some e), g')
   | ((h, None), g') \<Rightarrow> (case gv_rateLimiter g' of
        None \<Rightarrow> Some ((h, None), g')
      | Some l \<Rightarrow> (case limiter_wait now rounds l of
           None \<Rightarrow> None
         | Some ((delay, err), l') \<Rightarrow>
             (let h' = h\<lparr>at_ThrottleDelay := delay\<rparr>; g'' = g'\<lparr>gv_rateLimiter := Some l'\<rparr> in
              case err of None \<Rightarrow> Some ((h', None), g'')
              | Some e \<Rightarrow> Some ((h', Some e), handle_abort h' g'')))))"

lemma forProvider_stable:
  "forProvider now p gs = (g, gs') \<Longrightarrow> forProvider later p gs' = (g, gs')"
  by (auto simp: forProvider_def Let_def split: option.splits)

lemma forProvider_other:
  "p \<noteq> q \<Longrightarrow> gs_providers (snd (forProvider now p gs)) q = gs_providers gs q"
  by (simp add: forProvider_def Let_def split: option.split)

lemma acquire_breaker_error:
  "acquire_breaker now g = ((h, Some e), g') \<Longrightarrow>
     at_reservation h = None \<and> gv_rateLimiter g' = gv_rateLimiter g \<and>
     (\<exists>b. gv_circuitBreaker g = Some b \<and> e = circuit_open_error b)"
  by (auto simp: acquire_breaker_def no_handle_def reserve_def reserve_admit_Inr reserve_admit_def Let_def
           split: option.splits prod.splits sum.splits circuit_state.splits if_splits)

lemma transition_probe_abort:
  "breaker_inv (b, out) \<Longrightarrow> reserve now b = ((Inr r, st), b') \<Longrightarrow>
     br_halfOpenInFlight (abort r b') = br_halfOpenInFlight b"
  using probes_nonneg [of out]
  by (auto simp: breaker_inv_def reserve_def reserve_admit_def abort_def release_probe_def
           split: circuit_state.splits if_splits)

lemma reserve_error_count:
  "reserve now b = ((Inl e, st), b') \<Longrightarrow> br_halfOpenInFlight b' = br_halfOpenInFlight b"
  by (auto simp: reserve_def reserve_admit_Inr split: circuit_state.splits if_splits)

text \<open>A caller whose rate-limiter wait is cancelled gives its probe slot back.\<close>

lemma acquire_error_gives_back:
  assumes "acquire now rounds g = Some ((h, Some e), g')"
    and "gv_circuitBreaker g = Some b" and "breaker_inv (b, out)"
  shows "\<exists>b'. gv_circuitBreaker g' = Some b' \<and> br_halfOpenInFlight b' = br_halfOpenInFlight b"
  using assms transition_probe_abort [OF assms(3), of now]
  by (auto simp: acquire_def acquire_breaker_def handle_abort_def no_handle_def Let_def
      reserve_error_count
      split: option.splits prod.splits sum.splits circuit_state.splits if_splits)

subsection \<open>A governor between calls\<close>

text \<open>\<open>out\<close> are the reservations of a governor's breaker that are outstanding.\<close>

definition governor_inv :: "governor \<Rightarrow> reservation list \<Rightarrow> bool" where
  "governor_inv g out = (case gv_circuitBreaker g of None \<Rightarrow> True | Some b \<Rightarrow> breaker_inv (b, out))"

definition held :: "attempt_handle \<Rightarrow> reservation list" where
  "held h = (case at_reservation h of None \<Rightarrow> [] | Some r \<Rightarrow> [r])"

lemma acquire_breaker_inv:
  assumes "acquire_breaker now g = ((h, err), g')" "governor_inv g out"
  shows "governor_inv g' (held h @ out) \<and> (err \<noteq> None \<longrightarrow> held h = [])"
proof (cases "gv_circuitBreaker g")
  case None
  with assms show ?thesis
    by (auto simp: acquire_breaker_def governor_inv_def held_def no_handle_def)
next
  case (Some b)
  obtain res st b' where r: "reserve now b = ((res, st), b')" by (metis prod.exhaust)
  have "breaker_inv (b, out)" using Some assms(2) by (simp add: governor_inv_def)
  then show ?thesis
    using assms(1) Some r bstep_inv [OF bstep.admit] bstep_inv [OF bstep.reject]
    by (cases res) (auto simp: acquire_breaker_def governor_inv_def held_def no_handle_def Let_def)
qed

lemma handle_abort_inv: "governor_inv g (held h @ out) \<Longrightarrow> governor_inv (handle_abort h g) out"
  using bstep_inv [OF bstep.giveup, of _ "held h @ out"]
  by (fastforce simp: governor_inv_def handle_abort_def held_def split: option.splits)

lemma handle_finish_inv: "governor_inv g (held h @ out) \<Longrightarrow> governor_inv (handle_finish h c now g) out"
  using bstep_inv [OF bstep.settle, of _ "held h @ out"]
  by (fastforce simp: governor_inv_def handle_finish_def held_def split: option.splits)

lemma governor_inv_limiter [simp]:
  "governor_inv (g\<lparr>gv_rateLimiter := l\<rparr>) out = governor_inv g out"
  by (simp add: governor_inv_def)

lemma held_throttle [simp]: "held (h\<lparr>at_ThrottleDelay := d\<rparr>) = held h"
  by (simp add: held_def)

lemma acquire_inv:
  assumes "acquire now rounds g = Some ((h, err), g')" "governor_inv g out"
  shows "if err = None then governor_inv g' (held h @ out) else governor_inv g' out"
proof -
  obtain h1 err1 g1 where b: "acquire_breaker now g = ((h1, err1), g1)" by (metis prod.exhaust)
  from acquire_breaker_inv [OF b assms(2)] assms(1) b show ?thesis
    by (auto simp: acquire_def Let_def split: option.splits prod.splits intro: handle_abort_inv)
qed

subsection \<open>Properties\<close>

text \<open>C1: In every interleaving of callers, the count of half-open probes the breaker keeps is the
  number of probe reservations outstanding, and the failure count stays below the threshold
  that opens it.\<close>

theorem breaker_counts_probes:
  assumes "newProviderCircuitBreaker p cfg l = Some b0" and "breachable b0 (b, out)"
  shows "br_halfOpenInFlight b = probes out
    \<and> (cb_FailureThreshold (br_cfg b) \<le> 0 \<or> br_consecutiveFailure b < cb_FailureThreshold (br_cfg b))"
  using breachable_inv [OF assms(2) new_breaker_inv [OF assms(1)]] by (auto simp: breaker_inv_def)

theorem breaker_counts_probes_witness:
  "br_halfOpenInFlight (breaker1\<lparr>br_state := HalfOpen, br_openedAt := 20, br_halfOpenInFlight := 2\<rparr>)
     = probes [probe_res, probe_res]"
  by (rule conjunct1 [OF breaker_counts_probes [where p = "''openai''" and cfg = cfg1 and l = False and ?b0.0 = breaker1, OF _ two_probes]])
     (simp add: newProviderCircuitBreaker_def cfg1_def breaker1_def cb_normalized_def cb_enabled_def)



text \<open>Without that restriction the bound does not hold: with HalfOpenMaxCalls = 1 a run of the
  breaker from its creation hands out two probes, because the transition out of the open
  state does not look at the probes in flight.\<close>

lemma half_open_probe_bound_exceeded:
  "\<exists>p cfg b0 b out. newProviderCircuitBreaker p cfg False = Some b0 \<and> breachable b0 (b, out)
     \<and> cb_HalfOpenMaxCalls (br_cfg b) = 1 \<and> probes out = 2"
proof (intro exI conjI)
  show "newProviderCircuitBreaker ''openai'' cfg1 False = Some breaker1"
    by (simp add: newProviderCircuitBreaker_def cfg1_def breaker1_def cb_normalized_def cb_enabled_def)
  show "breachable breaker1 (breaker1\<lparr>br_state := HalfOpen, br_openedAt := 20, br_halfOpenInFlight := 2\<rparr>,
     [probe_res, probe_res])" by (rule two_probes)
qed (simp_all add: breaker1_def cfg1_def)



text \<open>A caller that is told to wait and comes back no earlier than that is told not to wait
  again, so the waiting loop of an undisturbed caller ends at its second round.\<close>

theorem rate_limiter_progress:
  assumes "lim_ok l" "take_token t l = (w, l')" "0 < w" "t' \<ge> max t (lim_last l) + w"
  shows "\<exists>d l''. limiter_wait t [(t, a, None), (t', a', err)] l = Some ((d, None), l'') \<and> d = a' - t"
  using second_attempt_granted [OF assms] assms(2,3)
  by (cases "take_token t' l'") auto

theorem rate_limiter_progress_witness:
  "\<exists>d l''. limiter_wait 0 [(0, 7, None), (500000000, 500000001, None)]
     \<lparr>lim_rate = 2, lim_burst = 1, lim_tokens = 0, lim_last = 0\<rparr> = Some ((d, None), l'') \<and> d = 500000001 - 0"
  by (rule rate_limiter_progress [where w = 500000000])
     (simp_all add: lim_ok_def take_token_def refill_def seconds_def Let_def)

text \<open>A caller whose wait for the rate limiter is cancelled, or whom the breaker rejects,
  leaves the number of outstanding half-open probes as it found it.\<close>

theorem failed_acquire_leaks_no_probe:
  assumes "acquire now rounds g = Some ((h, Some e), g')"
    and "gv_circuitBreaker g = Some b" and "breaker_inv (b, out)"
  shows "\<exists>b'. gv_circuitBreaker g' = Some b' \<and> br_halfOpenInFlight b' = br_halfOpenInFlight b"
  by (rule acquire_error_gives_back [OF assms])

theorem failed_acquire_leaks_no_probe_witness:
  "\<exists>g'. acquire 100 [(100, 101, Some (GoError ''canceled'' None []))]
     \<lparr>gv_rateLimiter = Some \<lparr>lim_rate = 2, lim_burst = 1, lim_tokens = 0, lim_last = 100\<rparr>,
      gv_circuitBreaker = Some (breaker1\<lparr>br_state := Open\<rparr>)\<rparr>
     = Some ((\<lparr>at_ThrottleDelay = 1, at_CircuitState = HalfOpen, at_reservation = Some probe_res\<rparr>,
              Some (GoError ''canceled'' None [])), g')
   \<and> (\<exists>b'. gv_circuitBreaker g' = Some b' \<and> br_halfOpenInFlight b' = 0)"
proof -
  let ?l = "\<lparr>lim_rate = 2, lim_burst = 1, lim_tokens = 0, lim_last = 100 :: int\<rparr> :: rate_limiter"
  let ?g = "\<lparr>gv_rateLimiter = Some ?l, gv_circuitBreaker = Some (breaker1\<lparr>br_state := Open\<rparr>)\<rparr>"
  let ?e = "GoError ''canceled'' None []"
  have "\<exists>g'. acquire 100 [(100, 101, Some ?e)] ?g
     = Some ((\<lparr>at_ThrottleDelay = 1, at_CircuitState = HalfOpen, at_reservation = Some probe_res\<rparr>, Some ?e), g')"
    by (simp add: acquire_def acquire_breaker_def breaker_run no_handle_def handle_abort_def
        take_token_def refill_def seconds_def)
  then obtain g' where g': "acquire 100 [(100, 101, Some ?e)] ?g
     = Some ((\<lparr>at_ThrottleDelay = 1, at_CircuitState = HalfOpen, at_reservation = Some probe_res\<rparr>, Some ?e), g')" ..
  from failed_acquire_leaks_no_probe [OF g', of "breaker1\<lparr>br_state := Open\<rparr>" "[]"] g' show ?thesis
    by (simp add: breaker_inv_def breaker1_def)
qed

end
