(* ===== verification/Resilience.thy ===== *)
theory Resilience
  imports Domain Governor
begin

section \<open>Resilient provider calls\<close>

text \<open>
  \<^verbatim>\<open>provider_resilience.go\<close>: the retry loops around a chat model, an embedder and a web
  searcher, the classification of errors, the back-off and the cost estimates. The inner
  provider, the clock, the timers and the random source are operations of a world \<open>'w\<close>; the
  governor and the emitted traces are the state. A Go call returns a value and an error, so
  the value is there even with an error. The four loops of the source are one loop with four
  sets of parameters. \<open>None\<close> means that the rate limiter still waits.
\<close>

subsection \<open>Usage and cost\<close>

datatype any_value =
    AnyInt int | AnyInt32 int | AnyInt64 int | AnyFloat64 real | AnyFloat32 real | AnyOther

type_synonym generation_info = "string \<rightharpoonup> any_value"
type_synonym chat_reply = "message \<times> generation_info"

definition go_trunc :: "real \<Rightarrow> int" where
  "go_trunc r = (if r \<ge> 0 then \<lfloor>r\<rfloor> else \<lceil>r\<rceil>)"

definition intFromAny :: "any_value option \<Rightarrow> int" where
  "intFromAny v = (case v of
     Some (AnyInt i) \<Rightarrow> i | Some (AnyInt32 i) \<Rightarrow> i | Some (AnyInt64 i) \<Rightarrow> i
   | Some (AnyFloat64 r) \<Rightarrow> go_trunc r | Some (AnyFloat32 r) \<Rightarrow> go_trunc r | _ \<Rightarrow> 0)"

record generation_usage =
  us_PromptTokens :: int
  us_CompletionTokens :: int
  us_TotalTokens :: int

definition generationInfoUsage :: "generation_info \<Rightarrow> generation_usage" where
  "generationInfoUsage info =
     \<lparr>us_PromptTokens = intFromAny (info ''PromptTokens''),
      us_CompletionTokens = intFromAny (info ''CompletionTokens''),
      us_TotalTokens = intFromAny (info ''TotalTokens'')\<rparr>"

definition estimateChatCost :: "governance_config \<Rightarrow> string \<Rightarrow> int \<Rightarrow> int \<Rightarrow> real" where
  "estimateChatCost cfg model inp outp =
     of_int inp / 1000 * tp_InputUSDPer1K (chatPrice cfg model)
     + of_int outp / 1000 * tp_OutputUSDPer1K (chatPrice cfg model)"

definition estimateEmbeddingCost :: "governance_config \<Rightarrow> string \<Rightarrow> int \<Rightarrow> real" where
  "estimateEmbeddingCost cfg model inp = of_int inp / 1000 * tp_InputUSDPer1K (embeddingPrice cfg model)"

text \<open>
  \<open>enc\<close> is the third-party tokenizer: the number of tokens of a text, \<open>None\<close> when neither
  encoding can be loaded.
\<close>

definition estimateProviderTokens :: "(string \<Rightarrow> nat option) \<Rightarrow> string \<Rightarrow> int" where
  "estimateProviderTokens enc text = (if blank text then 0
     else case enc text of Some n \<Rightarrow> int n | None \<Rightarrow> max 1 (int (length text) div 4))"

subsection \<open>Classification of errors\<close>

definition any_contains :: "string \<Rightarrow> string list \<Rightarrow> bool" where
  "any_contains s pats \<longleftrightarrow> (\<exists>p \<in> set pats. contains s p)"

definition classifyProviderError :: "go_error option \<Rightarrow> string \<Rightarrow> error_class" where
  "classifyProviderError err provider = (case err of None \<Rightarrow> ClassNone | Some e \<Rightarrow>
     if err_is e ErrProviderCircuitOpen then ClassCircuit
     else if err_is e CtxCanceled then ClassCanceled
     else if err_is e CtxDeadlineExceeded then ClassTransient
     else if provider = ''openai'' \<and> err_is e ProvErrRateLimit then ClassRateLimit
     else if provider = ''openai'' \<and> err_is e ProvErrAuth then ClassAuth
     else if provider = ''openai'' \<and> (err_is e ProvErrTimeout \<or> err_is e ProvErrServerError \<or> err_is e ProvErrNetwork)
       then ClassTransient
     else if provider = ''openai'' \<and> (err_is e ProvErrInvalidRequest \<or> err_is e ProvErrContextLength)
       then ClassPermanent
     else (let lower = to_lower (err_text e) in
       if any_contains lower [''429'', ''rate limit'', ''too many requests''] then ClassRateLimit
       else if any_contains lower [''401'', ''403'', ''unauthorized'', ''forbidden'', ''api key''] then ClassAuth
       else if any_contains lower [''timeout'', ''temporarily unavailable'', ''connection reset'', ''503'', ''502'', ''504'']
         then ClassTransient
       else if any_contains lower [''400'', ''404'', ''invalid request'', ''not found''] then ClassPermanent
       else ClassUnknown))"

definition shouldRetryProviderError :: "error_class \<Rightarrow> bool" where
  "shouldRetryProviderError c = (case c of ClassTransient \<Rightarrow> True | ClassRateLimit \<Rightarrow> True | _ \<Rightarrow> False)"

lemma shouldRetry_iff: "shouldRetryProviderError c \<longleftrightarrow> c = ClassTransient \<or> c = ClassRateLimit"
  by (simp add: shouldRetryProviderError_def split: error_class.split)

lemma classify_None [simp]: "classifyProviderError None p = ClassNone"
  by (simp add: classifyProviderError_def)

lemma classify_circuit: "err_is e ErrProviderCircuitOpen \<Longrightarrow> classifyProviderError (Some e) p = ClassCircuit"
  by (simp add: classifyProviderError_def)

lemma classify_canceled:
  "err_is e CtxCanceled \<Longrightarrow> \<not> err_is e ErrProviderCircuitOpen \<Longrightarrow> classifyProviderError (Some e) p = ClassCanceled"
  by (simp add: classifyProviderError_def)

subsection \<open>Back-off\<close>

text \<open>
  The doubling loop; \<open>n\<close> is the number of doublings left. The product of two durations wraps
  around at 64 bits.
\<close>

fun backoff_delay :: "duration \<Rightarrow> nat \<Rightarrow> duration \<Rightarrow> duration" where
  "backoff_delay maxDelay 0 delay = delay"
| "backoff_delay maxDelay (Suc n) delay = (let delay = wrap64 (delay * 2) in
     if delay > maxDelay then maxDelay else backoff_delay maxDelay n delay)"

definition minDuration :: "duration \<Rightarrow> duration \<Rightarrow> duration" where
  "minDuration a b = (if a < b then a else b)"

text \<open>\<open>None\<close> when there is no sleep at all; \<open>rnd n\<close> is \<^verbatim>\<open>rand.Int63n(n)\<close>.\<close>

definition backoff_timer :: "governance_config \<Rightarrow> int \<Rightarrow> (int \<Rightarrow> int) \<Rightarrow> duration option" where
  "backoff_timer cfg attempt rnd =
     (let delay = backoff_delay (gc_RetryMaxDelay cfg) (nat (attempt - 1)) (gc_RetryBaseDelay cfg) in
      if delay \<le> 0 then None
      else let jitter = rnd (max (delay div 4) 1000000)
           in Some (minDuration (wrap64 (delay + jitter)) (gc_RetryMaxDelay cfg)))"

lemma backoff_delay_exact:
  assumes "0 < d" "d \<le> m" "m < 2 ^ 62"
  shows "backoff_delay m n d = min (d * 2 ^ n) m"
  using assms
proof (induction n arbitrary: d)
  case 0
  then show ?case by simp
next
  case (Suc n)
  have "d < 4611686018427387904" using Suc.prems(2,3) by simp
  then have w: "wrap64 (d * 2) = d * 2"
    using Suc.prems(1) by (intro wrap64_id) (simp add: int64_range_def)
  show ?case
  proof (cases "d * 2 > m")
    case True
    have "d * 2 \<le> d * 2 ^ Suc n" using Suc.prems(1) by simp
    with True w show ?thesis by (simp add: Let_def min_def)
  next
    case False
    with Suc.IH [of "d * 2"] Suc.prems w show ?thesis by (simp add: Let_def mult.assoc)
  qed
qed

lemma backoff_delay_le: "d \<le> m \<Longrightarrow> backoff_delay m n d \<le> m"
  by (induction n arbitrary: d) (auto simp: Let_def)

lemma jitter_range:
  assumes "0 < d" "d \<le> m" "m < 2 ^ 62" "0 \<le> j" "j < max (d div 4) 1000000"
  shows "int64_range (d + j)"
proof -
  have "d < 4611686018427387904" using assms(2,3) by simp
  moreover have "j < 4611686018427387904" using assms(1,5) calculation by (auto simp: max_def split: if_splits)
  ultimately show ?thesis using assms(1,4) by (simp add: int64_range_def)
qed

lemma backoff_timer_bounds:
  assumes "0 < gc_RetryBaseDelay cfg" "gc_RetryBaseDelay cfg \<le> gc_RetryMaxDelay cfg"
    and "gc_RetryMaxDelay cfg < 2 ^ 62" "\<forall>n > 0. 0 \<le> rnd n \<and> rnd n < n"
  shows "\<exists>t. backoff_timer cfg attempt rnd = Some t \<and> t \<le> gc_RetryMaxDelay cfg
     \<and> min (gc_RetryBaseDelay cfg * 2 ^ nat (attempt - 1)) (gc_RetryMaxDelay cfg) \<le> t"
proof -
  let ?m = "gc_RetryMaxDelay cfg"
  let ?d = "min (gc_RetryBaseDelay cfg * 2 ^ nat (attempt - 1)) ?m"
  have d: "backoff_delay ?m (nat (attempt - 1)) (gc_RetryBaseDelay cfg) = ?d"
    using backoff_delay_exact assms by simp
  have pos: "0 < ?d" using assms(1,2) by simp
  let ?j = "rnd (max (?d div 4) 1000000)"
  have j: "0 \<le> ?j" "?j < max (?d div 4) 1000000"
    using assms(4) [rule_format, of "max (?d div 4) 1000000"] by auto
  have dm: "?d \<le> ?m" by simp
  have w: "wrap64 (?d + ?j) = ?d + ?j"
    by (rule wrap64_id) (rule jitter_range [OF pos dm assms(3) j])
  have "backoff_timer cfg attempt rnd = Some (minDuration (?d + ?j) ?m)"
    using pos unfolding backoff_timer_def Let_def d w by (simp add: not_le del: min_less_iff_conj)
  moreover have "?d \<le> minDuration (?d + ?j) ?m" "minDuration (?d + ?j) ?m \<le> ?m"
    using j(1) dm unfolding minDuration_def by auto
  ultimately show ?thesis by blast
qed

subsection \<open>The retry loop\<close>

record provider_call_trace =
  pt_Provider :: string
  pt_Operation :: string
  pt_Model :: string
  pt_Attempts :: int
  pt_Duration :: duration
  pt_ThrottleDelay :: duration
  pt_CircuitState :: circuit_state
  pt_ErrorClass :: error_class
  pt_InputTokens :: int
  pt_OutputTokens :: int
  pt_TotalTokens :: int
  pt_EstimatedCostUSD :: real
  pt_Err :: "go_error option"

text \<open>
  The world: the clock, the times at which the limiter's loop comes round, the random source
  and a timer raced with the context.
\<close>

record 'w provider_env =
  en_now :: "'w \<Rightarrow> gotime"
  en_rounds :: "'w \<Rightarrow> (gotime \<times> gotime \<times> go_error option) list"
  en_rand :: "'w \<Rightarrow> int \<Rightarrow> int"
  en_sleep :: "duration \<Rightarrow> 'w \<Rightarrow> go_error option \<times> 'w"

text \<open>
  The state of one call. \<open>ps_attempts\<close> records, for each call of the inner provider, the
  chunks it passed to \<^verbatim>\<open>emit\<close> (none when the call does not stream); it exists for the
  statements below only.
\<close>

record 'w provider_state =
  ps_governor :: "governor option"
  ps_traces :: "provider_call_trace list"
  ps_attempts :: "string list list"
  ps_world :: 'w

record 'r loop_spec =
  ls_provider :: string
  ls_operation :: string
  ls_model :: string
  ls_cfg :: governance_config
  ls_zero :: 'r
  ls_usage :: "'r \<Rightarrow> (int \<times> int \<times> int) \<times> real"

definition gov_acquire ::
  "'w provider_env \<Rightarrow> 'w provider_state \<Rightarrow> ((attempt_handle \<times> go_error option) \<times> 'w provider_state) option" where
  "gov_acquire env st = (case ps_governor st of
     None \<Rightarrow> Some ((no_handle, None), st)
   | Some g \<Rightarrow> map_option (\<lambda>(r, g'). (r, st\<lparr>ps_governor := Some g'\<rparr>))
       (acquire (en_now env (ps_world st)) (en_rounds env (ps_world st)) g))"

definition gov_finish ::
  "'w provider_env \<Rightarrow> attempt_handle \<Rightarrow> error_class \<Rightarrow> 'w provider_state \<Rightarrow> 'w provider_state" where
  "gov_finish env h c st =
     st\<lparr>ps_governor := map_option (handle_finish h c (en_now env (ps_world st))) (ps_governor st)\<rparr>"

text \<open>\<^verbatim>\<open>emitProviderTrace\<close>: the observer of the context collects the traces.\<close>

definition emitProviderTrace :: "provider_call_trace \<Rightarrow> 'w provider_state \<Rightarrow> 'w provider_state" where
  "emitProviderTrace t st = st\<lparr>ps_traces := ps_traces st @ [t]\<rparr>"

definition call_trace ::
  "'w provider_env \<Rightarrow> 'r loop_spec \<Rightarrow> gotime \<Rightarrow> int \<Rightarrow> duration \<Rightarrow> circuit_state \<Rightarrow> error_class
   \<Rightarrow> (int \<times> int \<times> int) \<times> real \<Rightarrow> go_error option \<Rightarrow> 'w provider_state \<Rightarrow> provider_call_trace" where
  "call_trace env sp started attempts throttle cstate c usage err st = (case usage of ((i, out, tot), cost) \<Rightarrow>
     \<lparr>pt_Provider = ls_provider sp, pt_Operation = ls_operation sp, pt_Model = ls_model sp,
      pt_Attempts = attempts, pt_Duration = en_now env (ps_world st) - started,
      pt_ThrottleDelay = throttle, pt_CircuitState = cstate, pt_ErrorClass = c,
      pt_InputTokens = i, pt_OutputTokens = out, pt_TotalTokens = tot,
      pt_EstimatedCostUSD = cost, pt_Err = err\<rparr>)"

definition sleepWithBackoff ::
  "'w provider_env \<Rightarrow> governance_config \<Rightarrow> int \<Rightarrow> 'w provider_state \<Rightarrow> go_error option \<times> 'w provider_state" where
  "sleepWithBackoff env cfg attempt st = (case backoff_timer cfg attempt (en_rand env (ps_world st)) of
     None \<Rightarrow> (None, st)
   | Some d \<Rightarrow> (case en_sleep env d (ps_world st) of (err, w) \<Rightarrow> (err, st\<lparr>ps_world := w\<rparr>)))"

text \<open>
  The inner call: its value and error, the chunks it emitted, and the world. \<open>chunkSeen\<close> of
  \<^verbatim>\<open>stream\<close> is whether one of the chunks is not blank.
\<close>

type_synonym ('r, 'w) inner_call = "'w \<Rightarrow> (('r \<times> go_error option) \<times> string list) \<times> 'w"

definition chunkSeen :: "string list \<Rightarrow> bool" where
  "chunkSeen chunks \<longleftrightarrow> (\<exists>c \<in> set chunks. \<not> blank c)"

text \<open>One round: the final answer, or the throttle delay so far and the value to go on with.\<close>

definition provider_attempt ::
  "'w provider_env \<Rightarrow> 'r loop_spec \<Rightarrow> ('r, 'w) inner_call \<Rightarrow> gotime \<Rightarrow> int \<Rightarrow> duration \<Rightarrow> 'w provider_state
   \<Rightarrow> (('r \<times> go_error option) + (duration \<times> 'r \<times> go_error option)) option \<times> 'w provider_state" where
  "provider_attempt env sp call started attempts throttle st = (case gov_acquire env st of
     None \<Rightarrow> (None, st)
   | Some ((h, Some e), st1) \<Rightarrow>
       (Some (Inl (ls_zero sp, Some e)),
        emitProviderTrace (call_trace env sp started attempts (throttle + at_ThrottleDelay h)
          (at_CircuitState h) (classifyProviderError (Some e) (ls_provider sp)) ((0, 0, 0), 0) (Some e) st1) st1)
   | Some ((h, None), st1) \<Rightarrow> (case call (ps_world st1) of (((r, err), chunks), w) \<Rightarrow>
       (let throttle = throttle + at_ThrottleDelay h;
            c = classifyProviderError err (ls_provider sp);
            st2 = gov_finish env h c (st1\<lparr>ps_world := w, ps_attempts := ps_attempts st1 @ [chunks]\<rparr>)
        in if err = None \<or> chunkSeen chunks \<or> \<not> shouldRetryProviderError c
              \<or> attempts = gc_RetryMaxAttempts (ls_cfg sp)
           then (Some (Inl (r, err)), emitProviderTrace (call_trace env sp started attempts throttle
                  (at_CircuitState h) c (ls_usage sp r) err st2) st2)
           else (case sleepWithBackoff env (ls_cfg sp) attempts st2 of
               (Some e, st3) \<Rightarrow> (Some (Inl (ls_zero sp, Some e)), st3)
             | (None, st3) \<Rightarrow> (Some (Inr (throttle, r, err)), st3)))))"

function provider_loop ::
  "'w provider_env \<Rightarrow> 'r loop_spec \<Rightarrow> ('r, 'w) inner_call \<Rightarrow> gotime \<Rightarrow> int \<Rightarrow> duration \<Rightarrow> 'r \<times> go_error option
   \<Rightarrow> 'w provider_state \<Rightarrow> ('r \<times> go_error option) option \<times> 'w provider_state" where
  "provider_loop env sp call started attempts throttle prev st =
     (if attempts \<le> gc_RetryMaxAttempts (ls_cfg sp) then
        (case provider_attempt env sp call started attempts throttle st of
           (None, st') \<Rightarrow> (None, st')
         | (Some (Inl res), st') \<Rightarrow> (Some res, st')
         | (Some (Inr (throttle', prev')), st') \<Rightarrow>
             provider_loop env sp call started (attempts + 1) throttle' prev' st')
      else (Some prev, st))"
  by pat_completeness auto
termination
  by (relation "measure (\<lambda>(env, sp, call, started, attempts, throttle, prev, st).
        nat (gc_RetryMaxAttempts (ls_cfg sp) + 1 - attempts))") auto

declare provider_loop.simps [simp del]

definition provider_call ::
  "'w provider_env \<Rightarrow> 'r loop_spec \<Rightarrow> ('r, 'w) inner_call \<Rightarrow> 'w provider_state
   \<Rightarrow> ('r \<times> go_error option) option \<times> 'w provider_state" where
  "provider_call env sp call st =
     provider_loop env sp call (en_now env (ps_world st)) 1 0 (ls_zero sp, None) st"

subsection \<open>The four providers\<close>

record resilient_config =
  rc_governance :: governance_config
  rc_provider :: string
  rc_model :: string

text \<open>\<^verbatim>\<open>newResilientChatModel\<close>, \<^verbatim>\<open>newResilientEmbedder\<close>: a nil inner provider stays nil.\<close>

definition newResilient :: "'i option \<Rightarrow> governance_config \<Rightarrow> string \<Rightarrow> string \<Rightarrow> ('i \<times> resilient_config) option" where
  "newResilient inner cfg provider model = map_option (\<lambda>i.
     (i, \<lparr>rc_governance = gc_normalized cfg, rc_provider = provider, rc_model = model\<rparr>)) inner"

definition zero_reply :: chat_reply where
  "zero_reply = (text_message RoleNone [], Map.empty)"

definition chat_usage :: "resilient_config \<Rightarrow> chat_reply \<Rightarrow> (int \<times> int \<times> int) \<times> real" where
  "chat_usage rc reply = (let u = generationInfoUsage (snd reply) in
     ((us_PromptTokens u, us_CompletionTokens u, us_TotalTokens u),
      estimateChatCost (rc_governance rc) (rc_model rc) (us_PromptTokens u) (us_CompletionTokens u)))"

definition chat_spec :: "string \<Rightarrow> resilient_config \<Rightarrow> chat_reply loop_spec" where
  "chat_spec op rc = \<lparr>ls_provider = rc_provider rc, ls_operation = op, ls_model = rc_model rc,
     ls_cfg = rc_governance rc, ls_zero = zero_reply, ls_usage = chat_usage rc\<rparr>"

definition chat_generate ::
  "'w provider_env \<Rightarrow> resilient_config \<Rightarrow> ('w \<Rightarrow> (chat_reply \<times> go_error option) \<times> 'w) \<Rightarrow> 'w provider_state
   \<Rightarrow> (chat_reply \<times> go_error option) option \<times> 'w provider_state" where
  "chat_generate env rc inner st = provider_call env (chat_spec ''chat_generate'' rc)
     (\<lambda>w. case inner w of (res, w') \<Rightarrow> ((res, []), w')) st"

text \<open>
  A streaming provider decides what to emit next from the answers of \<^verbatim>\<open>emit\<close>: a finite
  interaction. \<open>run_stream\<close> plays it against the caller's \<^verbatim>\<open>emit\<close> and collects the chunks.
\<close>

datatype 'r stream_script =
    StreamEnd 'r "go_error option"
  | StreamEmit string "go_error option \<Rightarrow> 'r stream_script"

primrec run_stream ::
  "(string \<Rightarrow> 'w \<Rightarrow> go_error option \<times> 'w) \<Rightarrow> 'r stream_script \<Rightarrow> string list \<Rightarrow> 'w
   \<Rightarrow> (('r \<times> go_error option) \<times> string list) \<times> 'w" where
  "run_stream emit (StreamEnd r err) = (\<lambda>chunks w. (((r, err), chunks), w))"
| "run_stream emit (StreamEmit c k) = (\<lambda>chunks w. case emit c w of (err, w') \<Rightarrow>
     run_stream emit (k err) (chunks @ [c]) w')"

definition chat_stream ::
  "'w provider_env \<Rightarrow> resilient_config \<Rightarrow> (string \<Rightarrow> 'w \<Rightarrow> go_error option \<times> 'w)
   \<Rightarrow> ('w \<Rightarrow> chat_reply stream_script \<times> 'w) \<Rightarrow> 'w provider_state
   \<Rightarrow> (chat_reply \<times> go_error option) option \<times> 'w provider_state" where
  "chat_stream env rc emit inner st = provider_call env (chat_spec ''chat_stream'' rc)
     (\<lambda>w. case inner w of (script, w') \<Rightarrow> run_stream emit script [] w') st"

definition embed_texts ::
  "'w provider_env \<Rightarrow> (string \<Rightarrow> nat option) \<Rightarrow> resilient_config
   \<Rightarrow> (string list \<Rightarrow> 'w \<Rightarrow> (embedding list \<times> go_error option) \<times> 'w) \<Rightarrow> string list
   \<Rightarrow> 'w provider_state \<Rightarrow> (embedding list \<times> go_error option) option \<times> 'w provider_state" where
  "embed_texts env enc rc inner texts st =
     (let tokens = sum_list (map (estimateProviderTokens enc) texts) in
      provider_call env \<lparr>ls_provider = rc_provider rc, ls_operation = ''embed_texts'', ls_model = rc_model rc,
        ls_cfg = rc_governance rc, ls_zero = [],
        ls_usage = (\<lambda>_. ((tokens, 0, tokens), estimateEmbeddingCost (rc_governance rc) (rc_model rc) tokens))\<rparr>
      (\<lambda>w. case inner texts w of (res, w') \<Rightarrow> ((res, []), w')) st)"

record web_result =
  wr_Title :: string
  wr_URL :: string
  wr_Content :: string

definition web_search ::
  "'w provider_env \<Rightarrow> resilient_config \<Rightarrow> (string \<Rightarrow> 'w \<Rightarrow> (web_result list \<times> go_error option) \<times> 'w)
   \<Rightarrow> string \<Rightarrow> 'w provider_state \<Rightarrow> (web_result list \<times> go_error option) option \<times> 'w provider_state" where
  "web_search env rc inner query st =
     provider_call env \<lparr>ls_provider = rc_provider rc, ls_operation = ''web_search'', ls_model = '''',
        ls_cfg = rc_governance rc, ls_zero = [],
        ls_usage = (\<lambda>_. ((0, 0, 0), pr_WebSearchPerCallUSD (gc_Pricing (rc_governance rc))))\<rparr>
      (\<lambda>w. case inner query w of (res, w') \<Rightarrow> ((res, []), w')) st"

subsection \<open>What the loop guarantees\<close>

lemma provider_attempt_again:
  assumes "provider_attempt env sp call started n thr st = (Some (Inr (thr', r, err)), st')"
  shows "\<exists>chunks. ps_attempts st' = ps_attempts st @ [chunks] \<and> \<not> chunkSeen chunks
     \<and> ps_traces st' = ps_traces st \<and> n \<noteq> gc_RetryMaxAttempts (ls_cfg sp)
     \<and> shouldRetryProviderError (classifyProviderError err (ls_provider sp))"
  using assms
  by (auto simp: provider_attempt_def gov_acquire_def gov_finish_def sleepWithBackoff_def Let_def
           split: option.splits prod.splits if_splits)

lemma provider_attempt_final:
  assumes "provider_attempt env sp call started n thr st = (Some (Inl (r, err)), st')"
  shows "(\<exists>chunks. ps_attempts st' = ps_attempts st @ chunks \<and> length chunks \<le> 1)
     \<and> (err = None \<longrightarrow> (\<exists>chunks t. ps_attempts st' = ps_attempts st @ [chunks]
          \<and> ps_traces st' = ps_traces st @ [t] \<and> pt_Attempts t = n \<and> pt_ErrorClass t = ClassNone
          \<and> pt_Err t = None))"
  using assms
  by (auto simp: provider_attempt_def gov_acquire_def gov_finish_def sleepWithBackoff_def Let_def
        emitProviderTrace_def call_trace_def
           split: option.splits prod.splits if_splits)

lemma provider_attempt_waiting:
  "provider_attempt env sp call started n thr st = (None, st') \<Longrightarrow> st' = st"
  by (auto simp: provider_attempt_def Let_def split: option.splits prod.splits if_splits)

lemma provider_loop_induct [consumes 1, case_names exhausted waiting final again]:
  assumes "provider_loop env sp call started n thr prev st = (res, st')"
    and "\<And>n thr prev st. gc_RetryMaxAttempts (ls_cfg sp) < n \<Longrightarrow> P n thr prev st (Some prev) st"
    and "\<And>n thr prev st st'. n \<le> gc_RetryMaxAttempts (ls_cfg sp) \<Longrightarrow>
      provider_attempt env sp call started n thr st = (None, st') \<Longrightarrow> P n thr prev st None st'"
    and "\<And>n thr prev st r err st'. n \<le> gc_RetryMaxAttempts (ls_cfg sp) \<Longrightarrow>
      provider_attempt env sp call started n thr st = (Some (Inl (r, err)), st') \<Longrightarrow> P n thr prev st (Some (r, err)) st'"
    and "\<And>n thr prev st thr' r err st1 res st'. n \<le> gc_RetryMaxAttempts (ls_cfg sp) \<Longrightarrow>
      provider_attempt env sp call started n thr st = (Some (Inr (thr', r, err)), st1) \<Longrightarrow>
      P (n + 1) thr' (r, err) st1 res st' \<Longrightarrow> P n thr prev st res st'"
  shows "P n thr prev st res st'"
  using assms
proof (induction env sp call started n thr prev st rule: provider_loop.induct)
  case (1 env sp call started n thr prev st)
  note IH = 1(1) and run = 1(2) and exhausted = 1(3) and waiting = 1(4) and final = 1(5) and again = 1(6)
  show ?case
  proof (cases "n \<le> gc_RetryMaxAttempts (ls_cfg sp)")
    case False
    with run have "res = Some prev" "st' = st" by (simp_all add: provider_loop.simps)
    with exhausted False show ?thesis by simp
  next
    case True
    obtain o1 st1 where a: "provider_attempt env sp call started n thr st = (o1, st1)" by fastforce
    consider "o1 = None" | r err where "o1 = Some (Inl (r, err))" | t r err where "o1 = Some (Inr (t, r, err))"
      by (metis option.exhaust obj_sumE prod.exhaust)
    then show ?thesis
    proof cases
      case 1
      with run True a have "res = None" "st' = st1"
        by (subst (asm) provider_loop.simps, simp)+
      with True a 1 waiting show ?thesis by simp
    next
      case 2
      with run True a have "res = Some (r, err)" "st' = st1"
        by (subst (asm) provider_loop.simps, simp)+
      with True a 2 final show ?thesis by simp
    next
      case 3
      then have "provider_loop env sp call started (n + 1) t (r, err) st1 = (res, st')"
        using run True a by (subst (asm) provider_loop.simps) simp
      then have "P (n + 1) t (r, err) st1 res st'"
        using IH [OF True a [symmetric]] 3 exhausted waiting final again by blast
      with True a 3 again show ?thesis by blast
    qed
  qed
qed

lemma provider_loop_attempts:
  assumes "provider_loop env sp call started n thr prev st = (res, st')"
  shows "\<exists>as. ps_attempts st' = ps_attempts st @ as \<and> (\<forall>c \<in> set (butlast as). \<not> chunkSeen c)
     \<and> int (length as) \<le> max 0 (gc_RetryMaxAttempts (ls_cfg sp) - n + 1)"
  using assms
proof (induction rule: provider_loop_induct)
  case (exhausted n thr prev st)
  then show ?case by (auto intro: exI [of _ "[]"])
next
  case (waiting n thr prev st st')
  then show ?case using provider_attempt_waiting by (fastforce intro: exI [of _ "[]"])
next
  case (final n thr prev st r err st')
  from provider_attempt_final [OF this(2)] obtain as where
    "ps_attempts st' = ps_attempts st @ as" "length as \<le> 1" by blast
  with final(1) show ?case by (intro exI [of _ as]) (cases as; auto)
next
  case (again n thr prev st thr' r err st1 res st')
  from provider_attempt_again [OF again(2)] again(3) obtain chunks as where
    c: "ps_attempts st1 = ps_attempts st @ [chunks]" "\<not> chunkSeen chunks"
    and as: "ps_attempts st' = ps_attempts st1 @ as" "\<forall>c \<in> set (butlast as). \<not> chunkSeen c"
      "int (length as) \<le> max 0 (gc_RetryMaxAttempts (ls_cfg sp) - (n + 1) + 1)" by blast
  have "\<forall>c \<in> set (butlast (chunks # as)). \<not> chunkSeen c" using as(2) c(2) by auto
  with as(1,3) c(1) again(1) show ?case by (intro exI [of _ "chunks # as"]) auto
qed

text \<open>A success is traced exactly once, with the number of calls that were made.\<close>

lemma provider_loop_success:
  assumes "provider_loop env sp call started n thr prev st = (Some (r, None), st')"
    and "n \<le> gc_RetryMaxAttempts (ls_cfg sp)"
  shows "\<exists>as t. ps_attempts st' = ps_attempts st @ as \<and> as \<noteq> []
     \<and> ps_traces st' = ps_traces st @ [t] \<and> pt_Attempts t = n - 1 + int (length as)
     \<and> pt_ErrorClass t = ClassNone \<and> pt_Err t = None"
proof -
  have "res = Some (r, None) \<longrightarrow> n \<le> gc_RetryMaxAttempts (ls_cfg sp) \<longrightarrow> ?thesis"
    if "provider_loop env sp call started n thr prev st = (res, st')" for res
    using that
  proof (induction rule: provider_loop_induct)
    case (final n thr prev st r' err st')
    then show ?case using provider_attempt_final [OF final(2)] by fastforce
  next
    case (again n thr prev st thr' r' err st1 res st')
    from provider_attempt_again [OF again(2)] obtain chunks where
      c: "ps_attempts st1 = ps_attempts st @ [chunks]" "ps_traces st1 = ps_traces st"
        "n \<noteq> gc_RetryMaxAttempts (ls_cfg sp)" by blast
    show ?case
    proof (intro impI)
      assume "res = Some (r, None)"
      then obtain as t where "ps_attempts st' = ps_attempts st1 @ as" "as \<noteq> []"
         "ps_traces st' = ps_traces st1 @ [t]" "pt_Attempts t = n + int (length as)"
         "pt_ErrorClass t = ClassNone" "pt_Err t = None"
        using again(1,3) c(3) by force
      with c show "\<exists>as t. ps_attempts st' = ps_attempts st @ as \<and> as \<noteq> []
        \<and> ps_traces st' = ps_traces st @ [t] \<and> pt_Attempts t = n - 1 + int (length as)
        \<and> pt_ErrorClass t = ClassNone \<and> pt_Err t = None"
        by (intro exI [of _ "chunks # as"] exI [of _ t]) auto
    qed
  qed auto
  with assms show ?thesis by blast
qed

text \<open>Whatever happens, the reservations of the call are given back.\<close>

definition state_inv :: "'w provider_state \<Rightarrow> reservation list \<Rightarrow> bool" where
  "state_inv st out = (case ps_governor st of None \<Rightarrow> True | Some g \<Rightarrow> governor_inv g out)"

lemma state_inv_simps [simp]:
  "state_inv (st\<lparr>ps_world := w\<rparr>) out = state_inv st out"
  "state_inv (st\<lparr>ps_attempts := a\<rparr>) out = state_inv st out"
  "state_inv (emitProviderTrace t st) out = state_inv st out"
  by (simp_all add: state_inv_def emitProviderTrace_def)

lemma gov_acquire_inv:
  "gov_acquire env st = Some ((h, err), st') \<Longrightarrow> state_inv st out \<Longrightarrow>
     if err = None then state_inv st' (held h @ out) else state_inv st' out"
  using acquire_inv [of _ _ _ h err]
  by (fastforce simp: gov_acquire_def state_inv_def held_def no_handle_def split: option.splits)

lemma gov_finish_inv: "state_inv st (held h @ out) \<Longrightarrow> state_inv (gov_finish env h c st) out"
  by (auto simp: gov_finish_def state_inv_def handle_finish_inv split: option.splits)

lemma sleepWithBackoff_inv:
  "sleepWithBackoff env cfg n st = (err, st') \<Longrightarrow> state_inv st' out = state_inv st out"
  by (auto simp: sleepWithBackoff_def split: option.splits prod.splits)

lemma provider_attempt_inv:
  assumes "provider_attempt env sp call started n thr st = (res, st')" "state_inv st out"
  shows "state_inv st' out"
proof (cases "gov_acquire env st")
  case None
  with assms show ?thesis by (simp add: provider_attempt_def)
next
  case (Some a)
  obtain h err st1 where a: "a = ((h, err), st1)" by (metis prod.exhaust)
  note inv = gov_acquire_inv [OF Some [unfolded a] assms(2)]
  show ?thesis
  proof (cases err)
    case None
    let ?st2 = "\<lambda>w chunks c. gov_finish env h c (st1\<lparr>ps_world := w, ps_attempts := ps_attempts st1 @ [chunks]\<rparr>)"
    have "state_inv (?st2 w chunks c) out" for w chunks c
      using inv None by (intro gov_finish_inv) simp
    with Some a None assms(1) show ?thesis
      by (auto simp: provider_attempt_def Let_def split: prod.splits option.splits if_splits
               dest!: sleepWithBackoff_inv)
  next
    case (Some e)
    with \<open>gov_acquire env st = Some a\<close> a assms(1) inv show ?thesis
      by (auto simp: provider_attempt_def)
  qed
qed

lemma provider_loop_inv:
  assumes "provider_loop env sp call started n thr prev st = (res, st')" "state_inv st out"
  shows "state_inv st' out"
  using assms by (induction rule: provider_loop_induct) (auto dest: provider_attempt_inv)

subsection \<open>Properties\<close>

text \<open>C6: A streamed answer is never sent twice: of the calls that a resilient Stream makes, at most
  RetryMaxAttempts, every one but the last has passed only blank chunks to the caller.\<close>

theorem stream_sends_no_prefix_twice:
  assumes "chat_stream env rc emit inner st = (res, st')"
  shows "\<exists>as. ps_attempts st' = ps_attempts st @ as
     \<and> int (length as) \<le> max 0 (gc_RetryMaxAttempts (rc_governance rc))
     \<and> (\<forall>chunks \<in> set (butlast as). \<forall>c \<in> set chunks. blank c)"
  using provider_loop_attempts [OF assms [unfolded chat_stream_def provider_call_def]]
  by (simp add: chat_spec_def chunkSeen_def) blast

definition demo_env :: "nat provider_env" where
  "demo_env = \<lparr>en_now = int, en_rounds = (\<lambda>_. []), en_rand = (\<lambda>_ _. 0), en_sleep = (\<lambda>d w. (None, w))\<rparr>"

definition demo_rc :: resilient_config where
  "demo_rc = \<lparr>rc_governance = \<lparr>gc_RetryMaxAttempts = 2, gc_RetryBaseDelay = 1, gc_RetryMaxDelay = 5,
     gc_RateLimit = \<lparr>rl_RequestsPerSecond = 0, rl_Burst = 0\<rparr>,
     gc_CircuitBreaker = \<lparr>cb_FailureThreshold = 0, cb_OpenTimeout = 0, cb_HalfOpenMaxCalls = 0\<rparr>,
     gc_Pricing = \<lparr>pr_ChatModels = Map.empty, pr_EmbeddingModels = Map.empty, pr_WebSearchPerCallUSD = 0\<rparr>\<rparr>,
     rc_provider = ''openai'', rc_model = ''m''\<rparr>"

definition demo_inner :: "nat \<Rightarrow> chat_reply stream_script \<times> nat" where
  "demo_inner w = (if w = 0
     then StreamEmit '' '' (\<lambda>_. StreamEnd zero_reply (Some (sentinel_error ''timeout'' ProvErrTimeout)))
     else StreamEmit ''hi'' (\<lambda>_. StreamEnd zero_reply None), Suc w)"

definition demo_state :: "nat provider_state" where
  "demo_state = \<lparr>ps_governor = None, ps_traces = [], ps_attempts = [], ps_world = 0\<rparr>"

lemma demo_run:
  "\<exists>t. chat_stream demo_env demo_rc (\<lambda>c w. (None, w)) demo_inner demo_state =
     (Some (zero_reply, None), demo_state\<lparr>ps_attempts := [['' ''], [''hi'']], ps_world := 2, ps_traces := [t]\<rparr>)"
  by (simp add: chat_stream_def provider_call_def provider_loop.simps provider_attempt_def demo_env_def
      demo_rc_def demo_inner_def demo_state_def gov_acquire_def gov_finish_def chat_spec_def no_handle_def
      Let_def classifyProviderError_def sentinel_error_def shouldRetry_iff chunkSeen_def blank_def
      trim_space_def trim_left_def is_space_def code_of_def sleepWithBackoff_def backoff_timer_def
      minDuration_def wrap64_def emitProviderTrace_def)

theorem stream_sends_no_prefix_twice_witness:
  "\<exists>st'. chat_stream demo_env demo_rc (\<lambda>c w. (None, w)) demo_inner demo_state = (Some (zero_reply, None), st')
     \<and> ps_attempts st' = [['' ''], [''hi'']] \<and> blank '' ''"
proof -
  obtain t where run: "chat_stream demo_env demo_rc (\<lambda>c w. (None, w)) demo_inner demo_state =
     (Some (zero_reply, None), demo_state\<lparr>ps_attempts := [['' ''], [''hi'']], ps_world := 2, ps_traces := [t]\<rparr>)"
    using demo_run by blast
  from stream_sends_no_prefix_twice [OF run] run show ?thesis by (auto simp: demo_state_def)
qed

text \<open>C7: Every resilient call gives back the breaker reservations it took, whether it succeeds,
  fails, is rejected or is cancelled, and a success is traced exactly once, with the number of
  calls that were made.\<close>

theorem resilient_call_accounting:
  assumes "provider_call env sp call st = (res, st')" and "state_inv st out"
    and "1 \<le> gc_RetryMaxAttempts (ls_cfg sp)"
  shows "state_inv st' out
    \<and> (\<forall>r. res = Some (r, None) \<longrightarrow> (\<exists>as t. ps_attempts st' = ps_attempts st @ as \<and> as \<noteq> []
         \<and> ps_traces st' = ps_traces st @ [t] \<and> pt_Attempts t = int (length as)
         \<and> pt_ErrorClass t = ClassNone))"
  using provider_loop_inv [OF assms(1) [unfolded provider_call_def] assms(2)]
    provider_loop_success [of env sp call _ 1 0 _ st _ st'] assms(1,3)
  by (fastforce simp: provider_call_def)

theorem resilient_call_accounting_witness:
  "\<exists>st'. chat_stream demo_env demo_rc (\<lambda>c w. (None, w)) demo_inner demo_state = (Some (zero_reply, None), st')
     \<and> (\<exists>t. ps_traces st' = [t] \<and> pt_Attempts t = 2)"
proof -
  obtain st' where run: "chat_stream demo_env demo_rc (\<lambda>c w. (None, w)) demo_inner demo_state =
     (Some (zero_reply, None), st')" and att: "ps_attempts st' = [['' ''], [''hi'']]"
    using demo_run by (auto simp: demo_state_def)
  have inv: "state_inv demo_state []" by (simp add: state_inv_def demo_state_def)
  have n: "1 \<le> gc_RetryMaxAttempts (ls_cfg (chat_spec ''chat_stream'' demo_rc))"
    by (simp add: chat_spec_def demo_rc_def)
  from resilient_call_accounting [OF run [unfolded chat_stream_def] inv n] run att
  show ?thesis by (auto simp: demo_state_def)
qed

text \<open>The back-off before the next attempt is at least the base delay doubled once per failed
  attempt, cut at RetryMaxDelay, and never longer than RetryMaxDelay; there is no 64-bit
  overflow as long as RetryMaxDelay is below 2^62 ns.\<close>

theorem backoff_is_exponential_and_capped:
  assumes "0 < gc_RetryBaseDelay cfg" "gc_RetryBaseDelay cfg \<le> gc_RetryMaxDelay cfg"
    and "gc_RetryMaxDelay cfg < 2 ^ 62" "\<forall>n > 0. 0 \<le> rnd n \<and> rnd n < n"
  shows "\<exists>t. backoff_timer cfg attempt rnd = Some t \<and> t \<le> gc_RetryMaxDelay cfg
     \<and> min (gc_RetryBaseDelay cfg * 2 ^ nat (attempt - 1)) (gc_RetryMaxDelay cfg) \<le> t"
  by (rule backoff_timer_bounds [OF assms])

theorem backoff_is_exponential_and_capped_witness:
  "\<exists>t. backoff_timer (rc_governance demo_rc) 3 (\<lambda>n. n - 1) = Some t \<and> t \<le> 5 \<and> 4 \<le> t"
  using backoff_is_exponential_and_capped [of "rc_governance demo_rc" "\<lambda>n. n - 1" 3]
  by (simp add: demo_rc_def)

end
