(* ===== verification/Retrieval.thy ===== *)
theory Retrieval
  imports Domain "HOL-Library.Product_Lexorder" "HOL-Library.Multiset"
begin

section \<open>Lexical search, rank fusion and local reranking\<close>

text \<open>
  \<^verbatim>\<open>internal/retrieval/hybrid.go\<close> and \<^verbatim>\<open>options.go\<close>. A comparator that compares one
  attribute after the other is the lexicographic order of a tuple of keys, negated where the
  order is descending. \<^verbatim>\<open>slices.SortFunc\<close> leaves the order of equal elements open; here they
  keep the order of the input. The three comparators end with the chunk id, so hits with
  distinct ids have one order.
\<close>

subsection \<open>Options\<close>

record retrieval_options =
  ro_CandidateMultiplier :: int
  ro_RRFK :: real
  ro_RerankMultiplier :: int

definition ro_Normalize :: "retrieval_options \<Rightarrow> retrieval_options" where
  "ro_Normalize o' =
     \<lparr>ro_CandidateMultiplier = (if ro_CandidateMultiplier o' = 0 then 4 else ro_CandidateMultiplier o'),
      ro_RRFK = (if ro_RRFK o' = 0 then 60 else ro_RRFK o'),
      ro_RerankMultiplier = (if ro_RerankMultiplier o' = 0 then 2 else ro_RerankMultiplier o')\<rparr>"

definition candidateLimit :: "retrieval_options \<Rightarrow> int \<Rightarrow> int" where
  "candidateLimit o' topK = max topK (topK * ro_CandidateMultiplier (ro_Normalize o'))"

definition rerankShortlistSize :: "retrieval_options \<Rightarrow> int \<Rightarrow> int \<Rightarrow> int" where
  "rerankShortlistSize o' topK candidateCount =
     min (max topK (topK * ro_RerankMultiplier (ro_Normalize o'))) candidateCount"

lemma ro_Normalize_idem [simp]: "ro_Normalize (ro_Normalize o') = ro_Normalize o'"
  by (simp add: ro_Normalize_def)

subsection \<open>Tokens\<close>

definition is_separator :: "char \<Rightarrow> bool" where
  "is_separator c \<longleftrightarrow> \<not> is_letter c \<and> \<not> is_number c"

definition tokenizeQuery :: "string \<Rightarrow> string list" where
  "tokenizeQuery input = (let input = to_lower (trim_space input) in
     if input = '''' then []
     else (let parts = filter (\<lambda>t. \<not> blank t) (fields_func is_separator input) in
       if parts = [] then [] else sort_compact parts))"

definition lexicalScore :: "string list \<Rightarrow> string \<Rightarrow> real" where
  "lexicalScore tokens text = (let text = to_lower text in
     of_nat (length (filter (\<lambda>t. contains text t) tokens)))"

definition hit_text :: "search_hit \<Rightarrow> string" where
  "hit_text h = cr_Title (hit_Chunk h) @ '' '' @ cr_Text (hit_Chunk h)"

subsection \<open>The first elements of a sorted list\<close>

definition cut :: "int \<Rightarrow> 'a list \<Rightarrow> 'a list" where
  "cut n xs = (if int (length xs) > n then take (nat n) xs else xs)"

lemma cut_take: "cut n xs = take (nat n) xs"
  by (auto simp: cut_def)

lemma take_sort_key_least:
  fixes f :: "'a \<Rightarrow> 'b :: linorder"
  assumes "y \<in> set (take n (sort_key f xs))" "x \<in> set (drop n (sort_key f xs))"
  shows "f y \<le> f x"
proof -
  let ?s = "sort_key f xs"
  have "sorted (map f (take n ?s) @ map f (drop n ?s))"
    by (simp only: map_append [symmetric] append_take_drop_id sorted_sort_key)
  with assms show ?thesis by (simp add: sorted_append)
qed

lemma set_take_drop: "set xs = set (take n xs) \<union> set (drop n xs)"
  by (metis append_take_drop_id set_append)

subsection \<open>Lexical search\<close>

text \<open>A scored hit is the pair of a hit and its new score.\<close>

definition rescore :: "search_hit \<times> real \<Rightarrow> search_hit" where
  "rescore s = (fst s)\<lparr>hit_Score := snd s\<rparr>"

definition lexical_key :: "search_hit \<times> real \<Rightarrow> real \<times> real \<times> string" where
  "lexical_key s = (- snd s, - hit_Score (fst s), hit_id (fst s))"

definition lexical_scored :: "string list \<Rightarrow> search_hit list \<Rightarrow> (search_hit \<times> real) list" where
  "lexical_scored tokens candidates =
     filter (\<lambda>s. \<not> snd s \<le> 0) (map (\<lambda>h. (h, lexicalScore tokens (hit_text h))) candidates)"

definition lexicalSearch :: "string \<Rightarrow> search_hit list \<Rightarrow> int \<Rightarrow> search_hit list" where
  "lexicalSearch query candidates topK =
     (if topK \<le> 0 \<or> candidates = [] then []
      else (let tokens = tokenizeQuery query in
        if tokens = [] then []
        else map rescore (cut topK (sort_key lexical_key (lexical_scored tokens candidates)))))"

lemma hit_id_rescore [simp]: "hit_id (rescore s) = hit_id (fst s)" "hit_Score (rescore s) = snd s"
    "hit_Chunk (rescore s) = hit_Chunk (fst s)"
  by (simp_all add: rescore_def hit_id_def)

lemma lexicalSearch_result:
  assumes "h \<in> set (lexicalSearch query candidates topK)"
  shows "\<exists>c \<in> set candidates. h = c\<lparr>hit_Score := lexicalScore (tokenizeQuery query) (hit_text c)\<rparr>
     \<and> 0 < hit_Score h"
  using assms
  by (auto simp: lexicalSearch_def Let_def cut_take lexical_scored_def rescore_def
           split: if_splits dest!: in_set_takeD)

lemma lexicalScore_pos: "0 < lexicalScore tokens text \<longleftrightarrow> (\<exists>t \<in> set tokens. contains (to_lower text) t)"
  by (auto simp: lexicalScore_def Let_def filter_empty_conv)

lemma lexicalScore_le: "lexicalScore tokens text \<le> of_nat (length tokens)"
  by (simp add: lexicalScore_def Let_def)

lemma lexicalSearch_length: "int (length (lexicalSearch query candidates topK)) \<le> max 0 topK"
  by (auto simp: lexicalSearch_def Let_def cut_take)

lemma lexicalSearch_complete:
  assumes "0 < topK" "c \<in> set candidates" "0 < lexicalScore (tokenizeQuery query) (hit_text c)"
  shows "c\<lparr>hit_Score := lexicalScore (tokenizeQuery query) (hit_text c)\<rparr> \<in> set (lexicalSearch query candidates topK)
    \<or> int (length (lexicalSearch query candidates topK)) = topK
      \<and> (\<forall>h \<in> set (lexicalSearch query candidates topK).
           lexicalScore (tokenizeQuery query) (hit_text c) \<le> hit_Score h)"
proof -
  let ?t = "tokenizeQuery query"
  let ?sc = "lexical_scored ?t candidates"
  let ?s = "sort_key lexical_key ?sc"
  let ?x = "(c, lexicalScore ?t (hit_text c))"
  have ne: "?t \<noteq> []" "candidates \<noteq> []" using assms by (auto simp: lexicalScore_def)
  then have r: "lexicalSearch query candidates topK = map rescore (take (nat topK) ?s)"
    using assms(1) by (simp add: lexicalSearch_def Let_def cut_take)
  have "?x \<in> set ?s" using assms by (auto simp: lexical_scored_def)
  then consider "?x \<in> set (take (nat topK) ?s)" | "?x \<in> set (drop (nat topK) ?s)"
    by (metis set_take_drop UnE)
  then show ?thesis
  proof cases
    case 1
    then have "rescore ?x \<in> set (lexicalSearch query candidates topK)" unfolding r by auto
    then show ?thesis by (simp add: rescore_def)
  next
    case 2
    then have "nat topK < length ?s" by (metis drop_eq_Nil length_pos_if_in_set linorder_not_less list.size(3) not_less_zero)
    then have "int (length (lexicalSearch query candidates topK)) = topK"
      using assms(1) unfolding r by simp
    moreover have "lexicalScore ?t (hit_text c) \<le> hit_Score h"
      if h: "h \<in> set (lexicalSearch query candidates topK)" for h
    proof -
      obtain y where y: "y \<in> set (take (nat topK) ?s)" "h = rescore y" using h unfolding r by auto
      have "lexical_key y \<le> lexical_key ?x" by (rule take_sort_key_least [OF y(1) 2])
      then show ?thesis using y(2) by (auto simp: lexical_key_def)
    qed
    ultimately show ?thesis by blast
  qed
qed

subsection \<open>Reciprocal rank fusion\<close>

record fused =
  fu_hit :: search_hit
  fu_score :: real
  fu_tieBreak :: real

definition zero_chunk :: chunk_record where
  "zero_chunk = \<lparr>cr_ChunkID = '''', cr_ParentID = '''', cr_SourcePath = '''', cr_Title = '''',
     cr_Text = '''', cr_StartRune = 0, cr_EndRune = 0, cr_Metadata = Map.empty, cr_Embedding = []\<rparr>"

definition zero_hit :: search_hit where
  "zero_hit = \<lparr>hit_Chunk = zero_chunk, hit_Score = 0\<rparr>"

definition zero_fused :: fused where
  "zero_fused = \<lparr>fu_hit = zero_hit, fu_score = 0, fu_tieBreak = 0\<rparr>"

text \<open>The Go map \<^verbatim>\<open>scores\<close> as an association list with distinct keys.\<close>

fun put :: "string \<Rightarrow> 'v \<Rightarrow> (string \<times> 'v) list \<Rightarrow> (string \<times> 'v) list" where
  "put k v [] = [(k, v)]"
| "put k v ((k', v') # m) = (if k = k' then (k, v) # m else (k', v') # put k v m)"

definition get_or :: "'v \<Rightarrow> string \<Rightarrow> (string \<times> 'v) list \<Rightarrow> 'v" where
  "get_or d k m = (case map_of m k of Some v \<Rightarrow> v | None \<Rightarrow> d)"

definition fuse_add :: "real \<Rightarrow> bool \<Rightarrow> nat \<times> search_hit \<Rightarrow> (string \<times> fused) list \<Rightarrow> (string \<times> fused) list" where
  "fuse_add k vector rh m = (case rh of (rank, hit) \<Rightarrow>
     (let item = get_or zero_fused (hit_id hit) m;
          item = (if hit_id (fu_hit item) = ''''
                  then item\<lparr>fu_hit := (if vector then hit else hit\<lparr>hit_Score := 0\<rparr>)\<rparr> else item);
          item = item\<lparr>fu_score := fu_score item + 1 / (k + of_nat (rank + 1))\<rparr>;
          item = (if vector then item\<lparr>fu_tieBreak := hit_Score hit\<rparr> else item)
      in put (hit_id hit) item m))"

definition fuse_map :: "real \<Rightarrow> search_hit list \<Rightarrow> search_hit list \<Rightarrow> (string \<times> fused) list" where
  "fuse_map k vectorHits lexicalHits =
     fold (fuse_add k False) (enumerate 0 lexicalHits) (fold (fuse_add k True) (enumerate 0 vectorHits) [])"

definition fused_key :: "fused \<Rightarrow> real \<times> real \<times> string" where
  "fused_key f = (- fu_score f, - fu_tieBreak f, hit_id (fu_hit f))"

definition fuseRRFWithK :: "search_hit list \<Rightarrow> search_hit list \<Rightarrow> int \<Rightarrow> real \<Rightarrow> search_hit list" where
  "fuseRRFWithK vectorHits lexicalHits topK k =
     (if topK \<le> 0 then []
      else map (\<lambda>f. (fu_hit f)\<lparr>hit_Score := fu_score f\<rparr>)
             (cut topK (sort_key fused_key (map snd (fuse_map k vectorHits lexicalHits)))))"

text \<open>What the score of a chunk is meant to be: the sum of its reciprocal ranks.\<close>

fun rrf :: "real \<Rightarrow> string \<Rightarrow> nat \<Rightarrow> search_hit list \<Rightarrow> real" where
  "rrf k cid n [] = 0"
| "rrf k cid n (h # hs) = (if hit_id h = cid then 1 / (k + of_nat (n + 1)) else 0) + rrf k cid (Suc n) hs"

lemma map_of_put: "map_of (put k v m) = (map_of m)(k \<mapsto> v)"
  by (induction k v m rule: put.induct) (auto simp: fun_eq_iff)

lemma keys_put: "map fst (put k v m) = (if k \<in> set (map fst m) then map fst m else map fst m @ [k])"
  by (induction k v m rule: put.induct) auto

lemma distinct_put: "distinct (map fst m) \<Longrightarrow> distinct (map fst (put k v m))"
  by (simp add: keys_put)

lemma get_or_put: "get_or d k' (put k v m) = (if k' = k then v else get_or d k' m)"
  by (simp add: get_or_def map_of_put)

definition fuse_ok :: "(string \<times> fused) list \<Rightarrow> bool" where
  "fuse_ok m \<longleftrightarrow> distinct (map fst m) \<and> (\<forall>(k, f) \<in> set m. hit_id (fu_hit f) = k)"

lemma set_put: "(k', v') \<in> set (put k v m) \<Longrightarrow> k' = k \<and> v' = v \<or> (k', v') \<in> set m"
  by (induction k v m rule: put.induct) (auto split: if_splits)

lemma fuse_ok_get: "fuse_ok m \<Longrightarrow> hit_id (fu_hit (get_or zero_fused cid m)) \<in> {cid, ''''}"
  unfolding fuse_ok_def get_or_def
  by (auto simp: zero_fused_def zero_hit_def zero_chunk_def hit_id_def split: option.split dest!: map_of_SomeD)

lemma hit_id_score [simp]: "hit_id (h\<lparr>hit_Score := s\<rparr>) = hit_id h"
  by (simp add: hit_id_def)

lemma fuse_ok_put: "fuse_ok m \<Longrightarrow> hit_id (fu_hit f) = k \<Longrightarrow> fuse_ok (put k f m)"
  unfolding fuse_ok_def by (auto simp: distinct_put dest!: set_put)

lemma fuse_add_ok: "fuse_ok m \<Longrightarrow> fuse_ok (fuse_add k v rh m)"
  using fuse_ok_get [of m "hit_id (snd rh)"]
  by (cases rh) (auto simp: fuse_add_def Let_def intro!: fuse_ok_put)

lemma fuse_fold_ok: "fuse_ok m \<Longrightarrow> fuse_ok (fold (fuse_add k v) rhs m)"
  by (induction rhs arbitrary: m) (simp_all add: fuse_add_ok)

lemma fuse_map_ok: "fuse_ok (fuse_map k V L)"
  unfolding fuse_map_def by (intro fuse_fold_ok) (simp add: fuse_ok_def)

lemma fuse_add_score:
  "fu_score (get_or zero_fused cid (fuse_add k v (rank, hit) m)) =
     fu_score (get_or zero_fused cid m) + (if hit_id hit = cid then 1 / (k + of_nat (rank + 1)) else 0)"
  by (simp add: fuse_add_def Let_def get_or_put)

lemma fuse_fold_score:
  "fu_score (get_or zero_fused cid (fold (fuse_add k v) (enumerate n hits) m)) =
     fu_score (get_or zero_fused cid m) + rrf k cid n hits"
  by (induction hits arbitrary: n m) (simp_all add: fuse_add_score)

lemma fuse_map_score:
  "fu_score (get_or zero_fused cid (fuse_map k V L)) = rrf k cid 0 V + rrf k cid 0 L"
  by (simp add: fuse_map_def fuse_fold_score) (simp add: get_or_def zero_fused_def)

lemma put_keys: "fst ` set (put k v m) = insert k (fst ` set m)"
  by (induction k v m rule: put.induct) auto

lemma fuse_add_keys: "fst ` set (fuse_add k v rh m) = insert (hit_id (snd rh)) (fst ` set m)"
  by (cases rh) (simp add: fuse_add_def Let_def put_keys)

lemma fuse_fold_keys: "fst ` set (fold (fuse_add k v) rhs m) = hit_id ` snd ` set rhs \<union> fst ` set m"
  by (induction rhs arbitrary: m) (auto simp: fuse_add_keys)

lemma fuse_map_keys: "fst ` set (fuse_map k V L) = hit_id ` (set V \<union> set L)"
proof -
  have "snd ` set (enumerate n hs) = set hs" for n and hs :: "search_hit list"
    by (metis map_snd_enumerate set_map)
  then show ?thesis by (auto simp: fuse_map_def fuse_fold_keys)
qed
lemma fuse_map_entry:
  assumes "(cid, f) \<in> set (fuse_map k V L)"
  shows "hit_id (fu_hit f) = cid" "fu_score f = rrf k cid 0 V + rrf k cid 0 L"
proof -
  have ok: "fuse_ok (fuse_map k V L)" by (rule fuse_map_ok)
  with assms show "hit_id (fu_hit f) = cid" unfolding fuse_ok_def by auto
  have "map_of (fuse_map k V L) cid = Some f"
    using ok assms by (simp add: fuse_ok_def)
  then have "get_or zero_fused cid (fuse_map k V L) = f" by (simp add: get_or_def)
  then show "fu_score f = rrf k cid 0 V + rrf k cid 0 L" using fuse_map_score by metis
qed

definition fused_hits :: "real \<Rightarrow> search_hit list \<Rightarrow> search_hit list \<Rightarrow> fused list" where
  "fused_hits k V L = sort_key fused_key (map snd (fuse_map k V L))"

lemma fused_hits_ids: "(\<lambda>f. hit_id (fu_hit f)) ` set (fused_hits k V L) = hit_id ` (set V \<union> set L)"
  unfolding fused_hits_def fuse_map_keys [of k V L, symmetric] using fuse_map_entry(1) [of _ _ k V L]
  by (force simp: image_iff)

lemma fused_hits_distinct: "distinct (map (\<lambda>f. hit_id (fu_hit f)) (fused_hits k V L))"
proof -
  let ?m = "fuse_map k V L"
  have ids: "map (\<lambda>f. hit_id (fu_hit f)) (map snd ?m) = map fst ?m"
    using fuse_map_entry(1) [of _ _ k V L] by auto
  have "distinct (map fst ?m)" using fuse_map_ok by (simp add: fuse_ok_def)
  then have "distinct (map (\<lambda>f. hit_id (fu_hit f)) (map snd ?m))" by (simp only: ids)
  then show ?thesis unfolding fused_hits_def distinct_map by (simp add: distinct_map)
qed

lemma fused_hits_score:
  assumes "f \<in> set (fused_hits k V L)"
  shows "fu_score f = rrf k (hit_id (fu_hit f)) 0 V + rrf k (hit_id (fu_hit f)) 0 L"
  using assms fuse_map_entry [of _ f k V L] by (force simp: fused_hits_def)

lemma fuseRRF_unfold:
  "0 < topK \<Longrightarrow> fuseRRFWithK V L topK k =
     map (\<lambda>f. (fu_hit f)\<lparr>hit_Score := fu_score f\<rparr>) (take (nat topK) (fused_hits k V L))"
  by (simp add: fuseRRFWithK_def cut_take fused_hits_def)

lemma fuseRRF_length:
  "int (length (fuseRRFWithK V L topK k)) = min (max 0 topK) (int (card (hit_id ` (set V \<union> set L))))"
proof (cases "0 < topK")
  case True
  have "length (fused_hits k V L) = card (hit_id ` (set V \<union> set L))"
    using distinct_card [OF fused_hits_distinct [of k V L]] fused_hits_ids [of k V L] by simp
  with True show ?thesis by (simp add: fuseRRF_unfold)
qed (simp add: fuseRRFWithK_def)

lemma fuseRRF_top:
  assumes "0 < topK" "h \<in> set (fuseRRFWithK V L topK k)"
    and "c \<in> set V \<union> set L" "hit_id c \<notin> hit_id ` set (fuseRRFWithK V L topK k)"
  shows "rrf k (hit_id c) 0 V + rrf k (hit_id c) 0 L \<le> hit_Score h"
proof -
  obtain f where f: "f \<in> set (fused_hits k V L)" "hit_id (fu_hit f) = hit_id c"
    using assms(3) fused_hits_ids [of k V L] by (metis (no_types, lifting) image_iff)
  obtain g where g: "g \<in> set (take (nat topK) (fused_hits k V L))" "h = (fu_hit g)\<lparr>hit_Score := fu_score g\<rparr>"
    using assms(1,2) by (auto simp: fuseRRF_unfold)
  have "f \<notin> set (take (nat topK) (fused_hits k V L))"
  proof
    assume "f \<in> set (take (nat topK) (fused_hits k V L))"
    then have "(fu_hit f)\<lparr>hit_Score := fu_score f\<rparr> \<in> set (fuseRRFWithK V L topK k)"
      using assms(1) by (simp add: fuseRRF_unfold)
    then have "hit_id c \<in> hit_id ` set (fuseRRFWithK V L topK k)"
      using f(2) by (metis hit_id_score image_eqI)
    with assms(4) show False by blast
  qed
  with f(1) have "f \<in> set (drop (nat topK) (fused_hits k V L))"
    by (metis set_take_drop UnE)
  then have "fused_key g \<le> fused_key f"
    using g(1) unfolding fused_hits_def by (rule_tac take_sort_key_least)
  then have "fu_score f \<le> fu_score g" by (auto simp: fused_key_def)
  then show ?thesis using fused_hits_score [OF f(1)] f(2) g(2) by simp
qed

lemma sorted_fused_scores: "sorted (map (\<lambda>f. - fu_score f) (fused_hits k V L))"
proof -
  have "sorted (map fused_key (fused_hits k V L))" by (simp add: fused_hits_def)
  then show ?thesis
    unfolding sorted_iff_nth_mono by (fastforce simp: fused_key_def less_eq_prod_def)
qed

lemma fuseRRF_result:
  assumes "0 < topK"
  shows "distinct (map hit_id (fuseRRFWithK V L topK k))"
    and "sorted_wrt (\<lambda>a b. hit_Score a \<ge> hit_Score b) (fuseRRFWithK V L topK k)"
    and "h \<in> set (fuseRRFWithK V L topK k) \<Longrightarrow>
      hit_Score h = rrf k (hit_id h) 0 V + rrf k (hit_id h) 0 L \<and> hit_id h \<in> hit_id ` (set V \<union> set L)"
proof -
  have "map hit_id (fuseRRFWithK V L topK k) = take (nat topK) (map (\<lambda>f. hit_id (fu_hit f)) (fused_hits k V L))"
    using assms by (simp add: fuseRRF_unfold take_map comp_def)
  then show "distinct (map hit_id (fuseRRFWithK V L topK k))"
    using fused_hits_distinct [of k V L] by simp
  have "sorted (map (\<lambda>f. - fu_score f) (take (nat topK) (fused_hits k V L)))"
    using sorted_fused_scores [of k V L] by (simp add: sorted_wrt_take flip: take_map)
  then show "sorted_wrt (\<lambda>a b. hit_Score a \<ge> hit_Score b) (fuseRRFWithK V L topK k)"
    using assms by (simp add: fuseRRF_unfold sorted_wrt_map)
next
  assume "h \<in> set (fuseRRFWithK V L topK k)"
  then obtain g where g: "g \<in> set (fused_hits k V L)" "h = (fu_hit g)\<lparr>hit_Score := fu_score g\<rparr>"
    using assms by (auto simp: fuseRRF_unfold dest: in_set_takeD)
  then show "hit_Score h = rrf k (hit_id h) 0 V + rrf k (hit_id h) 0 L \<and> hit_id h \<in> hit_id ` (set V \<union> set L)"
    using fused_hits_score [OF g(1)] fused_hits_ids [of k V L] by auto
qed

subsection \<open>Local reranking\<close>

definition rerank_key :: "search_hit \<times> real \<Rightarrow> real \<times> string" where
  "rerank_key s = (- snd s, hit_id (fst s))"

definition rerankShortlistWithLimit :: "string \<Rightarrow> search_hit list \<Rightarrow> int \<Rightarrow> int \<Rightarrow> search_hit list" where
  "rerankShortlistWithLimit query candidates shortlistSize topK =
     (if topK \<le> 0 \<or> candidates = [] then []
      else if shortlistSize \<le> 0 then []
      else (let candidates = (if shortlistSize < int (length candidates) then take (nat shortlistSize) candidates else candidates);
                tokens = tokenizeQuery query;
                scored = map (\<lambda>h. (h, if tokens \<noteq> [] then hit_Score h + lexicalScore tokens (hit_text h) else hit_Score h)) candidates
            in map rescore (cut topK (sort_key rerank_key scored))))"

lemma rerank_result:
  assumes "0 < topK" "0 < shortlistSize"
  shows "mset (map hit_id (rerankShortlistWithLimit query candidates shortlistSize topK))
      \<subseteq># mset (map hit_id (take (nat shortlistSize) candidates))"
    and "int (length (rerankShortlistWithLimit query candidates shortlistSize topK))
      = min topK (min shortlistSize (int (length candidates)))"
proof -
  let ?c = "take (nat shortlistSize) candidates"
  let ?t = "tokenizeQuery query"
  let ?sc = "map (\<lambda>h. (h, if ?t \<noteq> [] then hit_Score h + lexicalScore ?t (hit_text h) else hit_Score h)) ?c"
  have r: "rerankShortlistWithLimit query candidates shortlistSize topK
      = map rescore (take (nat topK) (sort_key rerank_key ?sc))"
    using assms by (cases candidates) (auto simp: rerankShortlistWithLimit_def Let_def cut_take)
  have "mset (map hit_id (map rescore (take n xs))) \<subseteq># mset (map (\<lambda>s. hit_id (fst s)) xs)" for n and xs :: "(search_hit \<times> real) list"
    by (metis (no_types, lifting) append_take_drop_id hit_id_rescore(1) list.map_comp map_append comp_apply
        map_eq_conv mset_append mset_subset_eq_add_left)
  note le = this [of "nat topK" "sort_key rerank_key ?sc"]
  have "mset (map (\<lambda>s. hit_id (fst s)) (sort_key rerank_key ?sc)) = mset (map (\<lambda>s. hit_id (fst s)) ?sc)"
    by (simp only: mset_map mset_sort)
  also have "map (\<lambda>s. hit_id (fst s)) ?sc = map hit_id ?c" by simp
  finally show "mset (map hit_id (rerankShortlistWithLimit query candidates shortlistSize topK)) \<subseteq># mset (map hit_id ?c)"
    using le unfolding r by (simp only:)
  show "int (length (rerankShortlistWithLimit query candidates shortlistSize topK))
      = min topK (min shortlistSize (int (length candidates)))"
    unfolding r using assms by simp
qed

subsection \<open>Properties\<close>

text \<open>C8: Rank fusion returns min(topK, number of distinct chunks) hits with distinct chunk ids, best
  score first; the score of a hit is the sum of the reciprocal ranks 1/(k + rank) its chunk has
  in the two rankings, and a chunk that is left out has no higher sum than any hit.\<close>

theorem fusion_is_top_k_of_reciprocal_ranks:
  assumes "0 < topK"
  shows "int (length (fuseRRFWithK V L topK k)) = min topK (int (card (hit_id ` (set V \<union> set L))))
    \<and> distinct (map hit_id (fuseRRFWithK V L topK k))
    \<and> sorted_wrt (\<lambda>a b. hit_Score a \<ge> hit_Score b) (fuseRRFWithK V L topK k)
    \<and> (\<forall>h \<in> set (fuseRRFWithK V L topK k).
         hit_Score h = rrf k (hit_id h) 0 V + rrf k (hit_id h) 0 L \<and> hit_id h \<in> hit_id ` (set V \<union> set L)
         \<and> (\<forall>c \<in> set V \<union> set L. hit_id c \<notin> hit_id ` set (fuseRRFWithK V L topK k) \<longrightarrow>
              rrf k (hit_id c) 0 V + rrf k (hit_id c) 0 L \<le> hit_Score h))"
  using fuseRRF_result(1,2) [OF assms, of V L k] fuseRRF_result(3) [OF assms, of _ V L k]
    fuseRRF_top [OF assms, of _ V L k] fuseRRF_length [of V L topK k] assms
  by auto

definition demo_hit :: "string \<Rightarrow> string \<Rightarrow> real \<Rightarrow> search_hit" where
  "demo_hit cid text score =
     \<lparr>hit_Chunk = zero_chunk\<lparr>cr_ChunkID := cid, cr_Text := text\<rparr>, hit_Score = score\<rparr>"

lemma demo_hit_id [simp]: "hit_id (demo_hit cid t s) = cid" "hit_Score (demo_hit cid t s) = s"
  by (simp_all add: demo_hit_def hit_id_def)

lemma demo_ids: "hit_id ` (set [demo_hit ''a'' '''' 1, demo_hit ''b'' '''' 0] \<union> set [demo_hit ''b'' '''' 1]) = {''a'', ''b''}"
  by auto

theorem fusion_is_top_k_of_reciprocal_ranks_witness:
  "length (fuseRRFWithK [demo_hit ''a'' '''' 1, demo_hit ''b'' '''' 0] [demo_hit ''b'' '''' 1] 1 60) = 1"
proof -
  have "0 < (1 :: int)" by simp
  note fusion = conjunct1 [OF fusion_is_top_k_of_reciprocal_ranks [OF this,
        of "[demo_hit ''a'' '''' 1, demo_hit ''b'' '''' 0]" "[demo_hit ''b'' '''' 1]" 60]]
  have "card {''a'', ''b''} = 2" by simp
  with fusion [unfolded demo_ids] show ?thesis by linarith
qed

text \<open>Lexical search returns at most topK candidates, each with a positive score that is the
  number of distinct query tokens its title and text contain, and a matching candidate that is
  missing scores no higher than any of the topK that are returned.\<close>

theorem lexical_search_top_k:
  assumes "0 < topK" "c \<in> set candidates" "\<exists>t \<in> set (tokenizeQuery query). contains (to_lower (hit_text c)) t"
  shows "int (length (lexicalSearch query candidates topK)) \<le> topK
    \<and> (\<forall>h \<in> set (lexicalSearch query candidates topK).
         0 < hit_Score h \<and> hit_Score h = lexicalScore (tokenizeQuery query) (hit_text h))
    \<and> (c\<lparr>hit_Score := lexicalScore (tokenizeQuery query) (hit_text c)\<rparr> \<in> set (lexicalSearch query candidates topK)
       \<or> int (length (lexicalSearch query candidates topK)) = topK
         \<and> (\<forall>h \<in> set (lexicalSearch query candidates topK).
              lexicalScore (tokenizeQuery query) (hit_text c) \<le> hit_Score h))"
proof -
  have same: "hit_text (x\<lparr>hit_Score := s\<rparr>) = hit_text x" for x :: search_hit and s by (simp add: hit_text_def)
  have "0 < lexicalScore (tokenizeQuery query) (hit_text c)" using assms(3) by (simp add: lexicalScore_pos)
  from lexicalSearch_complete [OF assms(1,2) this] lexicalSearch_length [of query candidates topK] assms(1)
  show ?thesis by (auto simp: same dest!: lexicalSearch_result)
qed

theorem lexical_search_top_k_witness:
  "int (length (lexicalSearch ''api'' [demo_hit ''a'' ''the API'' 1] 1)) \<le> 1 \<and>
   tokenizeQuery ''api'' = [''api'']"
proof -
  have tok: "tokenizeQuery ''api'' = [''api'']" by code_simp
  have "contains (to_lower (hit_text (demo_hit ''a'' ''the API'' 1))) ''api''"
    by (simp add: demo_hit_def hit_text_def zero_chunk_def) code_simp
  with lexical_search_top_k [of 1 "demo_hit ''a'' ''the API'' 1" "[demo_hit ''a'' ''the API'' 1]" "''api''"] tok
  show ?thesis by simp
qed

end
