(* ===== verification/Rag.thy ===== *)
theory Rag
  imports Domain
begin

section \<open>Documents: chunks, context and follow-up questions\<close>

text \<open>
  Package \<^verbatim>\<open>internal/rag\<close>: the chunker, the assembly of the context, the rewriting of
  follow-up questions, the front matter of Markdown files and the loader. The splitting loop
  is a \<^theory_text>\<open>partial_function\<close>, so that its termination is part of the theorems. Files, the
  PDF and HTML parsers, the OCR and image bridges and the YAML parser are parameters.
\<close>

subsection \<open>The chunker\<close>

record chunker =
  chk_size :: int
  chk_overlap :: int

definition newChunker :: "int \<Rightarrow> int \<Rightarrow> chunker result" where
  "newChunker sz overlap =
     (if sz \<le> 0 then Inl (errorf (''invalid chunk size '' @ itoa sz) [])
      else if overlap < 0 then Inl (errorf (''invalid overlap '' @ itoa overlap) [])
      else if overlap \<ge> sz
        then Inl (errorf (''overlap '' @ itoa overlap @ '' must be less than size '' @ itoa sz) [])
      else Inr \<lparr>chk_size = sz, chk_overlap = overlap\<rparr>)"

definition make_chunk :: "document \<Rightarrow> nat \<Rightarrow> nat \<Rightarrow> nat \<Rightarrow> chunk" where
  "make_chunk doc n start end' =
     \<lparr>ch_ChunkID = doc_ID doc @ '':'' @ nat_str n, ch_ParentID = doc_ID doc,
      ch_SourcePath = doc_SourcePath doc, ch_Title = doc_Title doc, ch_Metadata = doc_Metadata doc,
      ch_Text = take (end' - start) (drop start (doc_Content doc)), ch_StartRune = start, ch_EndRune = end'\<rparr>"

text \<open>The loop from \<open>start\<close> with \<open>n\<close> chunks already made.\<close>

partial_function (option) split_loop :: "chunker \<Rightarrow> document \<Rightarrow> nat \<Rightarrow> nat \<Rightarrow> chunk list option" where
  "split_loop c doc start n =
     (if start < length (doc_Content doc) then
        (let end' = min (start + nat (chk_size c)) (length (doc_Content doc));
             ch = make_chunk doc n start end'
         in if end' = length (doc_Content doc) then Some [ch]
            else Option.bind (split_loop c doc (start + nat (chk_size c - chk_overlap c)) (Suc n))
              (\<lambda>cs. Some (ch # cs)))
      else Some [])"

definition chunker_split :: "chunker \<Rightarrow> document \<Rightarrow> chunk list option" where
  "chunker_split c doc = (if doc_Content doc = [] then Some [] else split_loop c doc 0 0)"

text \<open>
  The chunks of a text, glued together with the overlap cut off from every chunk but the
  first, are the text.
\<close>

definition glue :: "nat \<Rightarrow> chunk list \<Rightarrow> string" where
  "glue overlap cs = (case cs of [] \<Rightarrow> [] | c # cs' \<Rightarrow> ch_Text c @ concat (map (\<lambda>d. drop overlap (ch_Text d)) cs'))"

definition slice_of :: "document \<Rightarrow> chunk \<Rightarrow> bool" where
  "slice_of doc c \<longleftrightarrow> ch_Text c = take (ch_EndRune c - ch_StartRune c) (drop (ch_StartRune c) (doc_Content doc))
     \<and> ch_StartRune c < ch_EndRune c \<and> ch_EndRune c \<le> length (doc_Content doc)
     \<and> ch_ParentID c = doc_ID doc \<and> ch_SourcePath c = doc_SourcePath doc"

definition chunker_ok :: "chunker \<Rightarrow> bool" where
  "chunker_ok c \<longleftrightarrow> 0 < chk_size c \<and> 0 \<le> chk_overlap c \<and> chk_overlap c < chk_size c"

lemma newChunker_ok: "newChunker sz overlap = Inr c \<Longrightarrow> chunker_ok c \<and> chk_size c = sz \<and> chk_overlap c = overlap"
  by (auto simp: newChunker_def chunker_ok_def split: if_splits)

lemma make_chunk_simps [simp]:
  "ch_Text (make_chunk doc n a b) = take (b - a) (drop a (doc_Content doc))"
  "ch_StartRune (make_chunk doc n a b) = a" "ch_EndRune (make_chunk doc n a b) = b"
  "ch_ParentID (make_chunk doc n a b) = doc_ID doc" "ch_SourcePath (make_chunk doc n a b) = doc_SourcePath doc"
  "ch_ChunkID (make_chunk doc n a b) = doc_ID doc @ '':'' @ nat_str n"
  by (simp_all add: make_chunk_def)

lemma split_loop_spec:
  assumes c: "chunker_ok c" and "start < length (doc_Content doc)"
  shows "\<exists>cs. split_loop c doc start n = Some cs \<and> cs \<noteq> []
     \<and> glue (nat (chk_overlap c)) cs = drop start (doc_Content doc)
     \<and> ch_Text (hd cs) = take (nat (chk_size c)) (drop start (doc_Content doc))
     \<and> (\<forall>ch \<in> set cs. slice_of doc ch \<and> length (ch_Text ch) \<le> nat (chk_size c))
     \<and> map ch_ChunkID cs = map (\<lambda>i. doc_ID doc @ '':'' @ nat_str i) [n..<n + length cs]"
  using assms(2)
proof (induction "length (doc_Content doc) - start" arbitrary: start n rule: less_induct)
  case less
  let ?t = "doc_Content doc" and ?s = "nat (chk_size c)" and ?o = "nat (chk_overlap c)"
  let ?stop = "min (start + ?s) (length ?t)"
  let ?ch = "make_chunk doc n start ?stop"
  have pos: "0 < ?s" "?o < ?s" "nat (chk_size c - chk_overlap c) = ?s - ?o"
    using c by (auto simp: chunker_ok_def)
  have body: "ch_Text ?ch = take ?s (drop start ?t)"
    by (simp add: min_def take_all_iff)
  have slice: "slice_of doc ?ch" "length (ch_Text ?ch) \<le> ?s"
    using less.prems pos by (auto simp: slice_of_def)
  show ?case
  proof (cases "?stop = length ?t")
    case True
    then have r: "split_loop c doc start n = Some [?ch]"
      using less.prems by (subst split_loop.simps) (simp add: Let_def)
    have all: "take ?s (drop start ?t) = drop start ?t" using True by (intro take_all) simp
    have g: "glue ?o [?ch] = drop start ?t" unfolding glue_def using body all by simp
    show ?thesis
    proof (intro exI conjI)
      show "split_loop c doc start n = Some [?ch]" by (rule r)
      show "glue ?o [?ch] = drop start ?t" by (rule g)
      show "ch_Text (hd [?ch]) = take ?s (drop start ?t)" using body by simp
      show "\<forall>ch \<in> set [?ch]. slice_of doc ch \<and> length (ch_Text ch) \<le> ?s" using slice by simp
    qed simp_all
  next
    case False
    then have lt: "start + ?s < length ?t" by linarith
    let ?start = "start + (?s - ?o)"
    have next_lt: "?start < length ?t" "length ?t - ?start < length ?t - start" using lt pos by linarith+
    from less.hyps [OF next_lt(2) next_lt(1), of "Suc n"] obtain cs where
      cs: "split_loop c doc ?start (Suc n) = Some cs" "cs \<noteq> []" "glue ?o cs = drop ?start ?t"
        "ch_Text (hd cs) = take ?s (drop ?start ?t)"
        "\<forall>ch \<in> set cs. slice_of doc ch \<and> length (ch_Text ch) \<le> ?s"
        "map ch_ChunkID cs = map (\<lambda>i. doc_ID doc @ '':'' @ nat_str i) [Suc n..<Suc n + length cs]"
      by blast
    obtain d ds where ds: "cs = d # ds" using cs(2) by (cases cs) auto
    have r: "split_loop c doc start n = Some (?ch # cs)"
      using less.prems False cs(1) lt by (subst split_loop.simps) (auto simp: Let_def pos(3))
    have "length (ch_Text d) = min ?s (length ?t - ?start)" using cs(4) ds by (simp add: min.commute)
    then have "?o \<le> length (ch_Text d)" using lt pos by linarith
    then have "drop ?o (glue ?o cs) = concat (map (\<lambda>d. drop ?o (ch_Text d)) cs)"
      by (simp add: ds glue_def)
    moreover have "drop ?o (drop ?start ?t) = drop (start + ?s) ?t" using pos by (simp add: add.commute)
    ultimately have "concat (map (\<lambda>d. drop ?o (ch_Text d)) cs) = drop (start + ?s) ?t"
      using cs(3) by simp
    then have "glue ?o (?ch # cs) = take ?s (drop start ?t) @ drop ?s (drop start ?t)"
      unfolding glue_def using body by (simp add: add.commute)
    then have g: "glue ?o (?ch # cs) = drop start ?t" by (simp only: append_take_drop_id)
    show ?thesis
    proof (intro exI conjI)
      show "split_loop c doc start n = Some (?ch # cs)" by (rule r)
      show "glue ?o (?ch # cs) = drop start ?t" by (rule g)
      show "ch_Text (hd (?ch # cs)) = take ?s (drop start ?t)" using body by simp
      show "\<forall>ch \<in> set (?ch # cs). slice_of doc ch \<and> length (ch_Text ch) \<le> ?s" using slice cs(5) by simp
      have "[n..<n + length (?ch # cs)] = n # [Suc n..<Suc n + length cs]"
        using upt_conv_Cons [of n "n + length (?ch # cs)"] by (simp del: upt_Suc)
      then show "map ch_ChunkID (?ch # cs) = map (\<lambda>i. doc_ID doc @ '':'' @ nat_str i) [n..<n + length (?ch # cs)]"
        using cs(6) by simp
    qed simp
  qed
qed

lemma chunker_split_spec:
  assumes "chunker_ok c"
  shows "\<exists>cs. chunker_split c doc = Some cs
     \<and> glue (nat (chk_overlap c)) cs = doc_Content doc
     \<and> (\<forall>ch \<in> set cs. slice_of doc ch \<and> length (ch_Text ch) \<le> nat (chk_size c))
     \<and> map ch_ChunkID cs = map (\<lambda>i. doc_ID doc @ '':'' @ nat_str i) [0..<length cs]"
proof (cases "doc_Content doc = []")
  case True
  then show ?thesis by (simp add: chunker_split_def glue_def)
next
  case False
  then show ?thesis
    using split_loop_spec [OF assms, of 0 doc 0] by (auto simp: chunker_split_def)
qed

subsection \<open>The context\<close>

definition bracket :: "string \<Rightarrow> string" where
  "bracket cid = ''['' @ cid @ ''] ''"

text \<open>
  One pass over the chunks: the ids seen, the chunks kept and the text built so far, whose
  length is the rune count of the source.
\<close>

fun assemble :: "int \<Rightarrow> chunk list \<Rightarrow> string list \<Rightarrow> chunk list \<Rightarrow> string \<Rightarrow> chunk list \<times> string" where
  "assemble maxChars [] seen kept ctx = (kept, ctx)"
| "assemble maxChars (c # cs) seen kept ctx =
     (if ch_ChunkID c \<in> set seen then assemble maxChars cs seen kept ctx
      else (let seen = ch_ChunkID c # seen;
                sep = (if ctx \<noteq> [] then NL @ NL else []);
                next = sep @ bracket (ch_ChunkID c) @ ch_Text c;
                available = maxChars - int (length sep) - int (length (bracket (ch_ChunkID c)));
                next = (if int (length ctx) + int (length next) > maxChars \<and> kept = [] \<and> available > 0
                        then sep @ bracket (ch_ChunkID c) @
                             (if int (length (ch_Text c)) > available then take (nat available) (ch_Text c) else ch_Text c)
                        else next)
            in if int (length ctx) + int (length next) > maxChars
               then (if kept \<noteq> [] then (kept, ctx) else assemble maxChars cs seen kept ctx)
               else assemble maxChars cs seen (kept @ [c]) (ctx @ next)))"

definition assembleContext :: "chunk list \<Rightarrow> int \<Rightarrow> (chunk list \<times> string) result" where
  "assembleContext chunks maxChars =
     (if maxChars \<le> 0
      then Inl (errorf (''rag: invalid max chars: '' @ itoa maxChars)
             [sentinel_error ''rag: invalid max chars'' ErrInvalidContextLimit])
      else (case assemble maxChars chunks [] [] [] of (kept, ctx) \<Rightarrow>
        if kept = []
        then Inl (errorf (''rag: no chunks assembled: maxChars='' @ itoa maxChars)
               [sentinel_error ''rag: no chunks assembled'' ErrNoContextAssembled])
        else Inr (kept, ctx)))"

text \<open>What the assembled text is meant to be: the segments of the kept chunks, the text of the
  first one possibly cut to its first \<open>n\<close> runes.\<close>

definition segment :: "chunk \<Rightarrow> string" where
  "segment c = bracket (ch_ChunkID c) @ ch_Text c"

definition layout :: "nat \<Rightarrow> chunk list \<Rightarrow> string" where
  "layout n kept = (case kept of [] \<Rightarrow> []
     | c # cs \<Rightarrow> (bracket (ch_ChunkID c) @ take n (ch_Text c)) @ concat (map (\<lambda>c. NL @ NL @ segment c) cs))"

definition ctx_inv :: "int \<Rightarrow> string list \<Rightarrow> chunk list \<Rightarrow> string \<Rightarrow> bool" where
  "ctx_inv maxChars seen kept ctx \<longleftrightarrow> (\<exists>n. ctx = layout n kept) \<and> int (length ctx) \<le> maxChars
     \<and> distinct (map ch_ChunkID kept) \<and> ch_ChunkID ` set kept \<subseteq> set seen"

lemma layout_Nil [simp]: "layout n [] = []"
  by (simp add: layout_def)

lemma layout_nonempty [simp]: "layout n kept = [] \<longleftrightarrow> kept = []"
  by (auto simp: layout_def bracket_def split: list.split)

lemma layout_snoc: "kept \<noteq> [] \<Longrightarrow> layout n (kept @ [c]) = layout n kept @ NL @ NL @ segment c"
  by (cases kept) (simp_all add: layout_def)

lemma layout_first: "layout (length (ch_Text c)) [c] = segment c"
  by (simp add: layout_def segment_def)

lemma assemble_step:
  assumes "ctx_inv maxChars seen kept ctx" "ch_ChunkID c \<notin> set seen"
    and "int (length ctx) + int (length next') \<le> maxChars"
    and "if kept = [] then \<exists>n. next' = bracket (ch_ChunkID c) @ take n (ch_Text c) else next' = NL @ NL @ segment c"
  shows "ctx_inv maxChars (ch_ChunkID c # seen) (kept @ [c]) (ctx @ next')"
proof -
  obtain n where n: "ctx = layout n kept" using assms(1) by (auto simp: ctx_inv_def)
  have "\<exists>m. ctx @ next' = layout m (kept @ [c])"
  proof (cases "kept = []")
    case True
    then show ?thesis using assms(4) n by (auto simp: layout_def)
  next
    case False
    then show ?thesis using assms(4) n by (auto simp: layout_snoc)
  qed
  moreover have "distinct (map ch_ChunkID (kept @ [c]))"
    using assms(1,2) by (auto simp: ctx_inv_def)
  ultimately show ?thesis using assms(1,3) by (auto simp: ctx_inv_def)
qed

lemma assemble_inv:
  assumes "assemble maxChars cs seen kept ctx = (kept', ctx')" "ctx_inv maxChars seen kept ctx"
  shows "(\<exists>seen'. ctx_inv maxChars seen' kept' ctx') \<and> (\<exists>ks. kept' = kept @ ks \<and> subseq ks cs)"
  using assms
proof (induction maxChars cs seen kept ctx rule: assemble.induct)
  case (1 maxChars seen kept ctx)
  then show ?case by auto
next
  case (2 maxChars c cs seen kept ctx)
  show ?case
  proof (cases "ch_ChunkID c \<in> set seen")
    case True
    with 2 show ?thesis by fastforce
  next
    case False
    let ?sep = "if ctx \<noteq> [] then NL @ NL else []"
    let ?full = "?sep @ bracket (ch_ChunkID c) @ ch_Text c"
    let ?av = "maxChars - int (length ?sep) - int (length (bracket (ch_ChunkID c)))"
    let ?next = "if int (length ctx) + int (length ?full) > maxChars \<and> kept = [] \<and> ?av > 0
                 then ?sep @ bracket (ch_ChunkID c) @
                   (if int (length (ch_Text c)) > ?av then take (nat ?av) (ch_Text c) else ch_Text c)
                 else ?full"
    have ctx: "ctx = [] \<longleftrightarrow> kept = []" using 2(5) by (auto simp: ctx_inv_def)
    have weaker: "ctx_inv maxChars (ch_ChunkID c # seen) kept ctx" using 2(5) by (auto simp: ctx_inv_def)
    show ?thesis
    proof (cases "int (length ctx) + int (length ?next) > maxChars")
      case True
      then have "(if kept \<noteq> [] then (kept, ctx) else assemble maxChars cs (ch_ChunkID c # seen) kept ctx) = (kept', ctx')"
        using 2(4) False by (simp only: assemble.simps Let_def if_False if_True)
      then show ?thesis
        using 2(2) [OF False refl refl refl refl refl True] weaker 2(5)
        by (cases "kept = []") auto
    next
      case le: False
      then have r: "assemble maxChars cs (ch_ChunkID c # seen) (kept @ [c]) (ctx @ ?next) = (kept', ctx')"
        using 2(4) False by (simp only: assemble.simps Let_def if_False)
      have shape: "if kept = [] then \<exists>n. ?next = bracket (ch_ChunkID c) @ take n (ch_Text c) else ?next = NL @ NL @ segment c"
      proof (cases "kept = []")
        case True
        then have "ctx = []" using ctx by simp
        have "\<exists>n. ch_Text c = take n (ch_Text c)" by (intro exI [of _ "length (ch_Text c)"]) simp
        with True \<open>ctx = []\<close> show ?thesis by auto
      next
        case False
        then show ?thesis using ctx by (simp add: segment_def)
      qed
      have "ctx_inv maxChars (ch_ChunkID c # seen) (kept @ [c]) (ctx @ ?next)"
        using assemble_step [OF 2(5) False _ shape] le by linarith
      from 2(3) [OF False refl refl refl refl refl le r this] show ?thesis by fastforce
    qed
  qed
qed

lemma assembleContext_result:
  assumes "assembleContext chunks maxChars = Inr (kept, ctx)"
  shows "kept \<noteq> [] \<and> subseq kept chunks \<and> distinct (map ch_ChunkID kept)
     \<and> int (length ctx) \<le> maxChars \<and> (\<exists>n. ctx = layout n kept)"
proof -
  have pos: "0 < maxChars" using assms by (auto simp: assembleContext_def split: if_splits)
  obtain k x where a: "assemble maxChars chunks [] [] [] = (k, x)" by fastforce
  have "k = kept" "x = ctx" "k \<noteq> []"
    using assms a by (auto simp: assembleContext_def split: if_splits)
  moreover have "ctx_inv maxChars [] [] []" using pos by (simp add: ctx_inv_def)
  ultimately show ?thesis using assemble_inv [OF a] by (auto simp: ctx_inv_def)
qed

subsection \<open>Follow-up questions\<close>

definition is_word_break :: "char \<Rightarrow> bool" where
  "is_word_break c \<longleftrightarrow> is_space c \<or> is_punct c"

definition normalizeQueryText :: "string \<Rightarrow> string" where
  "normalizeQueryText input = join_with '' '' (str_fields (trim_space input))"

definition pronounFollowers :: "string list" where
  "pronounFollowers = [''about'', ''is'', ''are'', ''was'', ''were'', ''am'', ''be'', ''been'', ''being'',
     ''do'', ''does'', ''did'', ''can'', ''could'', ''will'', ''would'', ''should'',
     ''may'', ''might'', ''must'', ''has'', ''have'', ''had'', ''one'', ''ones'',
     ''to'', ''for'', ''of'', ''with'', ''in'', ''on'', ''at'', ''as'']"

definition isDemonstrativePronounUsage :: "string list \<Rightarrow> nat \<Rightarrow> bool" where
  "isDemonstrativePronounUsage words idx \<longleftrightarrow> idx < length words \<and>
     (idx = length words - 1 \<or> words ! (idx + 1) \<in> set pronounFollowers)"

definition looksReferential :: "string \<Rightarrow> bool" where
  "looksReferential query = (let words = fields_func is_word_break (to_lower query) in
     \<exists>i \<in> set [0..<length words].
       words ! i \<in> set [''it'', ''they'', ''them'', ''he'', ''she'', ''him'', ''her'', ''former'', ''latter'']
       \<or> (words ! i \<in> set [''this'', ''that'', ''these'', ''those''] \<and> isDemonstrativePronounUsage words i))"

definition nonInformative :: "string list" where
  "nonInformative = [''tell'', ''me'', ''more'', ''go'', ''on'', ''continue'', ''details'',
     ''what'', ''about'', ''please'', ''the'', ''a'', ''an'']"

definition isConcreteHistoryItem :: "string \<Rightarrow> bool" where
  "isConcreteHistoryItem item = (let lower = to_lower item in
     if looksReferential lower then False
     else if lower \<in> set [''tell me more'', ''go on'', ''continue'', ''more details''] then False
     else (\<exists>w \<in> set (fields_func is_word_break lower). w \<notin> set nonInformative))"

fun latest_concrete :: "string list \<Rightarrow> string option" where
  "latest_concrete [] = None"
| "latest_concrete (h # hs) = (let item = normalizeQueryText h in
     if item = '''' then latest_concrete hs
     else if \<not> isConcreteHistoryItem item then latest_concrete hs
     else Some item)"

definition rewriteFollowUp :: "string \<Rightarrow> string list \<Rightarrow> string" where
  "rewriteFollowUp query history = (let q = normalizeQueryText query in
     if q = '''' then ''''
     else if \<not> looksReferential q then q
     else (case latest_concrete (rev history) of Some item \<Rightarrow> item @ '' '' @ q | None \<Rightarrow> q))"

lemma latest_concrete_Some:
  "latest_concrete hs = Some item \<Longrightarrow>
     \<exists>xs h ys. hs = xs @ h # ys \<and> item = normalizeQueryText h \<and> isConcreteHistoryItem item \<and> item \<noteq> ''''
       \<and> (\<forall>x \<in> set xs. normalizeQueryText x = '''' \<or> \<not> isConcreteHistoryItem (normalizeQueryText x))"
proof (induction hs)
  case (Cons h hs)
  show ?case
  proof (cases "normalizeQueryText h = '''' \<or> \<not> isConcreteHistoryItem (normalizeQueryText h)")
    case True
    then have "latest_concrete hs = Some item" using Cons.prems by (auto simp: Let_def split: if_splits)
    from Cons.IH [OF this] obtain xs h' ys where
      "hs = xs @ h' # ys" "item = normalizeQueryText h'" "isConcreteHistoryItem item" "item \<noteq> ''''"
      "\<forall>x \<in> set xs. normalizeQueryText x = '''' \<or> \<not> isConcreteHistoryItem (normalizeQueryText x)" by blast
    with True show ?thesis by (intro exI [of _ "h # xs"] exI [of _ h'] exI [of _ ys]) auto
  next
    case False
    with Cons.prems show ?thesis
      by (intro exI [of _ "[]"] exI [of _ h] exI [of _ hs]) (auto simp: Let_def)
  qed
qed simp

lemma fields_trim_left: "str_fields (dropWhile is_space s) = str_fields s"
  by (induction s) (auto simp: str_fields_def fields_func_def)

lemma split_by_snoc_sep: "p c \<Longrightarrow> split_by p (s @ [c]) = split_by p s @ [[]]"
  by (induction s) (auto split: list.splits)

lemma fields_snoc_space: "is_space c \<Longrightarrow> str_fields (s @ [c]) = str_fields s"
  by (simp add: str_fields_def fields_func_def split_by_snoc_sep)

lemma fields_trim_right: "str_fields (rev (dropWhile is_space (rev s))) = str_fields s"
  by (induction s rule: rev_induct) (auto simp: fields_snoc_space)

lemma fields_trim_space [simp]: "str_fields (trim_space s) = str_fields s"
  unfolding trim_space_def trim_left_def
  by (metis fields_trim_left fields_trim_right)

lemma normalizeQueryText_squeeze: "normalizeQueryText s = squeeze s"
  by (simp add: normalizeQueryText_def squeeze_def)

subsection \<open>Front matter\<close>

abbreviation CRLF :: string where "CRLF \<equiv> [CHR 0x0D, CHR 0x0A]"

text \<open>Values of the YAML parser: \<open>YNumber\<close> with its printed form, other values with the result
  of their JSON encoding.\<close>

datatype yaml_value = YNull | YString string | YBool bool | YNumber string | YOther "string result"

definition stringifyMetadataValue :: "yaml_value \<Rightarrow> string result" where
  "stringifyMetadataValue v = (case v of YNull \<Rightarrow> Inr '''' | YString s \<Rightarrow> Inr s
     | YBool b \<Rightarrow> Inr (if b then ''true'' else ''false'') | YNumber s \<Rightarrow> Inr s | YOther r \<Rightarrow> r)"

text \<open>The pairs of the map in the order of the iteration.\<close>

fun stringifyMetadataMap :: "(string \<times> yaml_value) list \<Rightarrow> metadata result" where
  "stringifyMetadataMap [] = Inr Map.empty"
| "stringifyMetadataMap ((k, v) # kvs) =
     (let key = trim_space k in
      if key = '''' then stringifyMetadataMap kvs
      else (case stringifyMetadataValue v of
          Inl e \<Rightarrow> Inl (errorf (''stringify metadata key '' @ key @ '': '' @ err_text e) [e])
        | Inr t \<Rightarrow> (case stringifyMetadataMap kvs of Inl e \<Rightarrow> Inl e
            | Inr m \<Rightarrow> Inr (if key \<in> dom m then m else m(key \<mapsto> t)))))"

definition parseFrontMatterMetadata ::
  "(string \<Rightarrow> (string \<times> yaml_value) list result) \<Rightarrow> string \<Rightarrow> metadata result" where
  "parseFrontMatterMetadata yaml raw =
     (if blank raw then Inr Map.empty
      else (case yaml raw of
          Inl e \<Rightarrow> Inl (errorf (''parse markdown front matter: '' @ err_text e) [e])
        | Inr kvs \<Rightarrow> stringifyMetadataMap kvs))"

definition extractMarkdownFrontMatter ::
  "(string \<Rightarrow> (string \<times> yaml_value) list result) \<Rightarrow> string \<Rightarrow> (string \<times> metadata) result" where
  "extractMarkdownFrontMatter yaml content =
     (let normalized = replace_all content CRLF NL in
      if \<not> has_prefix normalized (''---'' @ NL) then Inr (content, Map.empty)
      else (let rest = drop 4 normalized;
                endIndex = (case index_of rest (NL @ ''---'' @ NL) of Some i \<Rightarrow> Some i
                            | None \<Rightarrow> index_of rest (NL @ ''...'' @ NL))
            in case endIndex of
                 None \<Rightarrow> Inl (errorf ''unterminated markdown front matter'' [])
               | Some i \<Rightarrow>
                   (let body = dropWhile (\<lambda>c. c = CHR 0x0A) (drop (i + 5) rest) in
                    case parseFrontMatterMetadata yaml (take i rest) of
                      Inl e \<Rightarrow> Inl e | Inr m \<Rightarrow> Inr (body, m))))"

definition mergeMetadata :: "metadata \<Rightarrow> metadata \<Rightarrow> metadata" where
  "mergeMetadata base override = base ++ override"

text \<open>Writing a document with front matter and reading it back.\<close>

definition with_front_matter :: "string \<Rightarrow> string \<Rightarrow> string" where
  "with_front_matter raw body = ''---'' @ NL @ raw @ NL @ ''---'' @ NL @ body"

lemma replace_skip_id: "\<not> contains s old \<Longrightarrow> replace_skip 0 s old new = s"
  by (induction s) auto

lemma index_of_bound: "index_of s p = Some i \<Longrightarrow> has_prefix (drop i s) p"
  by (induction s arbitrary: i) (auto split: if_splits)

lemma index_of_append:
  assumes "\<And>i. i < length a \<Longrightarrow> \<not> has_prefix (drop i (a @ p @ b)) p"
  shows "index_of (a @ p @ b) p = Some (length a)"
  using assms
proof (induction a)
  case Nil
  have "index_of s p = Some 0" if "has_prefix s p" for s
    using that by (cases s) (auto simp: has_prefix_def)
  then show ?case by simp
next
  case (Cons c a)
  have "\<not> has_prefix (drop i (a @ p @ b)) p" if "i < length a" for i
    using Cons.prems [of "Suc i"] that by simp
  with Cons.IH Cons.prems [of 0] show ?case by simp
qed

lemma has_prefix_shorter: "has_prefix (x @ y) p \<Longrightarrow> length p \<le> length x \<Longrightarrow> has_prefix x p"
  by (simp add: has_prefix_def)

lemma has_prefix_nth: "has_prefix s p \<Longrightarrow> j < length p \<Longrightarrow> s ! j = p ! j"
  by (auto simp: has_prefix_iff nth_append)

lemma contains_drop: "has_prefix (drop i s) p \<Longrightarrow> contains s p"
  unfolding contains_iff has_prefix_iff by (metis append_take_drop_id append_assoc)

lemma has_prefix_overlap:
  assumes "\<not> contains (a @ [CHR 0x0A]) (NL @ ''---'' @ NL)" "i < length a"
  shows "\<not> has_prefix (drop i (a @ (NL @ ''---'' @ NL) @ b)) (NL @ ''---'' @ NL)"
proof
  let ?p = "NL @ ''---'' @ NL"
  assume m: "has_prefix (drop i (a @ ?p @ b)) ?p"
  show False
  proof (cases "i + 5 \<le> length a + 1")
    case True
    have "drop i (a @ ?p @ b) = drop i (a @ [CHR 0x0A]) @ (''---'' @ NL @ b)"
      using assms(2) by simp
    with m have "has_prefix (drop i (a @ [CHR 0x0A]) @ (''---'' @ NL @ b)) ?p" by (simp only:)
    moreover have "length ?p \<le> length (drop i (a @ [CHR 0x0A]))" using True by simp
    ultimately have "has_prefix (drop i (a @ [CHR 0x0A])) ?p" by (rule has_prefix_shorter)
    with assms(1) show False using contains_drop by blast
  next
    case False
    let ?j = "length a - i"
    have j: "?j = 1 \<or> ?j = 2 \<or> ?j = 3" using False assms(2) by linarith
    then have "drop i (a @ ?p @ b) ! ?j = ?p ! ?j" using m by (intro has_prefix_nth) auto
    moreover have "drop i (a @ ?p @ b) ! ?j = CHR 0x0A" using assms(2) by (simp add: nth_append)
    ultimately show False using j by auto
  qed
qed

lemma front_matter_roundtrip:
  assumes crlf: "\<not> contains (with_front_matter raw body) CRLF"
    and line: "\<not> contains (raw @ NL) (NL @ ''---'' @ NL)"
    and body: "body = [] \<or> hd body \<noteq> CHR 0x0A"
  shows "extractMarkdownFrontMatter yaml (with_front_matter raw body) =
     (case parseFrontMatterMetadata yaml raw of Inl e \<Rightarrow> Inl e | Inr m \<Rightarrow> Inr (body, m))"
proof -
  let ?p = "NL @ ''---'' @ NL"
  have norm: "replace_all (with_front_matter raw body) CRLF NL = with_front_matter raw body"
    unfolding replace_all_def by (rule replace_skip_id [OF crlf])
  have pre: "has_prefix (with_front_matter raw body) (''---'' @ NL)"
    by (simp add: with_front_matter_def has_prefix_def)
  have rest: "drop 4 (with_front_matter raw body) = raw @ ?p @ body"
    by (simp add: with_front_matter_def)
  have idx: "index_of (raw @ ?p @ body) ?p = Some (length raw)"
    using has_prefix_overlap [OF line] by (intro index_of_append) auto
  have strip: "dropWhile (\<lambda>c. c = CHR 0x0A) body = body"
    using body by (cases body) auto
  show ?thesis
    unfolding extractMarkdownFrontMatter_def Let_def norm rest idx
    using pre strip by (simp split: sum.split)
qed

text \<open>An empty block is not recognised: the closing marker is searched for after the line end
  that the opening marker has already consumed.\<close>

lemma empty_front_matter:
  "extractMarkdownFrontMatter yaml (''---'' @ NL @ ''---'' @ NL @ ''text'')
     = Inl (errorf ''unterminated markdown front matter'' [])"
  by (simp add: extractMarkdownFrontMatter_def replace_all_def has_prefix_def Let_def)

subsection \<open>The loader\<close>

datatype html_node = HtmlText string | HtmlElement string "html_node list" | HtmlOther "html_node list"

fun extractHTMLVisibleText :: "html_node \<Rightarrow> string" where
  "extractHTMLVisibleText (HtmlText s) = s"
| "extractHTMLVisibleText (HtmlElement tag cs) =
     (if to_lower tag \<in> set [''script'', ''style'', ''noscript''] then ''''
      else join_with '' '' (filter (\<lambda>t. \<not> blank t) (map extractHTMLVisibleText cs)))"
| "extractHTMLVisibleText (HtmlOther cs) =
     join_with '' '' (filter (\<lambda>t. \<not> blank t) (map extractHTMLVisibleText cs))"

definition hasUsableDirectPDFText :: "string \<Rightarrow> int \<Rightarrow> bool" where
  "hasUsableDirectPDFText txt' minRunes = (let t = trim_space txt' in
     if t = '''' then False else if minRunes \<le> 0 then True else int (length t) \<ge> minRunes)"

text \<open>The extension of a path: from the last dot after the last slash.\<close>

definition path_ext :: "string \<Rightarrow> string" where
  "path_ext path = (let base = takeWhile (\<lambda>c. c \<noteq> CHR ''/'') (rev path) in
     if CHR ''.'' \<in> set base then rev (takeWhile (\<lambda>c. c \<noteq> CHR ''.'') base @ ''.'') else '''')"

text \<open>The files and libraries the loader calls, and the optional bridges.\<close>

record loader_env =
  ld_readFile :: "string \<Rightarrow> string result"
  ld_pdfText :: "string \<Rightarrow> string result"
  ld_parseHTML :: "string \<Rightarrow> html_node result"
  ld_yaml :: "string \<Rightarrow> (string \<times> yaml_value) list result"
  ld_abs :: "string \<Rightarrow> string result"

record load_options =
  lo_PDFOCR :: "(string \<Rightarrow> string result) option"
  lo_ImageText :: "(string \<Rightarrow> string result) option"
  lo_MinDirectTextRunes :: int

definition readMarkdownDocumentContent :: "loader_env \<Rightarrow> string \<Rightarrow> (string \<times> metadata) result" where
  "readMarkdownDocumentContent env path = (case ld_readFile env path of Inl e \<Rightarrow> Inl e
     | Inr d \<Rightarrow> extractMarkdownFrontMatter (ld_yaml env) d)"

definition readPDFDocumentContent :: "loader_env \<Rightarrow> string \<Rightarrow> load_options \<Rightarrow> string result" where
  "readPDFDocumentContent env path opts = (case ld_pdfText env path of Inl e \<Rightarrow> Inl e
     | Inr t0 \<Rightarrow> (let t = trim_space t0 in
         if hasUsableDirectPDFText t (lo_MinDirectTextRunes opts) then Inr t
         else (case lo_PDFOCR opts of
             None \<Rightarrow> Inl (errorf (''pdf '' @ path @ '' requires OCR bridge configuration'') [])
           | Some ocr \<Rightarrow> (case ocr path of
                Inl e \<Rightarrow> Inl (errorf (''ocr pdf: '' @ err_text e) [e])
              | Inr o' \<Rightarrow> (let o'' = trim_space o' in
                  if o'' = '''' then Inl (errorf (''ocr pdf '' @ path @ '' produced empty text'') [])
                  else Inr o'')))))"

definition readHTMLDocumentContent :: "loader_env \<Rightarrow> string \<Rightarrow> string result" where
  "readHTMLDocumentContent env path = (case ld_readFile env path of Inl e \<Rightarrow> Inl e
     | Inr d \<Rightarrow> (case ld_parseHTML env d of Inl e \<Rightarrow> Inl (errorf (''parse html: '' @ err_text e) [e])
         | Inr node \<Rightarrow> Inr (squeeze (extractHTMLVisibleText node))))"

definition readImageDocumentContent :: "string \<Rightarrow> load_options \<Rightarrow> string result" where
  "readImageDocumentContent path opts = (case lo_ImageText opts of
     None \<Rightarrow> Inl (errorf (''image '' @ path @ '' requires image bridge configuration'') [])
   | Some f \<Rightarrow> (case f path of Inl e \<Rightarrow> Inl (errorf (''extract image text: '' @ err_text e) [e])
       | Inr t0 \<Rightarrow> (let t = trim_space t0 in
           if t = '''' then Inl (errorf (''image '' @ path @ '' produced empty text'') []) else Inr t)))"

definition readDocumentContent :: "loader_env \<Rightarrow> string \<Rightarrow> load_options \<Rightarrow> (string \<times> metadata) result" where
  "readDocumentContent env path opts =
     (let plain = map_sum id (\<lambda>c. (c, Map.empty)); ext = to_lower (path_ext path) in
      if ext = ''.pdf'' then plain (readPDFDocumentContent env path opts)
      else if ext \<in> set [''.html'', ''.htm''] then plain (readHTMLDocumentContent env path)
      else if ext \<in> set [''.png'', ''.jpg'', ''.jpeg'', ''.webp''] then plain (readImageDocumentContent path opts)
      else if ext = ''.md'' then readMarkdownDocumentContent env path
      else plain (ld_readFile env path))"

definition loadFile ::
  "loader_env \<Rightarrow> go_error option \<Rightarrow> string \<Rightarrow> string \<Rightarrow> metadata \<Rightarrow> load_options \<Rightarrow> document result" where
  "loadFile env ctx_err path title md opts = (case ctx_err of Some e \<Rightarrow> Inl e | None \<Rightarrow>
     (case ld_abs env path of
        Inl e \<Rightarrow> Inl (errorf (''normalize path '' @ path @ '': '' @ err_text e) [e])
      | Inr stableID \<Rightarrow> (case readDocumentContent env path opts of
           Inl e \<Rightarrow> Inl (errorf (''read file '' @ path @ '': '' @ err_text e) [e])
         | Inr (content, extracted) \<Rightarrow> Inr
             \<lparr>doc_ID = stableID, doc_SourcePath = path, doc_Title = title,
              doc_Metadata = mergeMetadata extracted md, doc_Content = content\<rparr>)))"

lemma loadFile_metadata:
  "loadFile env err path title md opts = Inr d \<Longrightarrow> k \<in> dom md \<Longrightarrow> doc_Metadata d k = md k"
  by (auto simp: loadFile_def mergeMetadata_def map_add_def split: option.splits sum.splits prod.splits)

subsection \<open>Properties\<close>

text \<open>C9: For every chunk size and overlap that NewChunker accepts, Split returns, and gluing its
  chunks together without the overlaps gives back the document; every chunk is the slice of
  the document its start and end name, no longer than the chunk size, and the chunk ids are
  the document id with 0, 1, 2, ...\<close>

theorem split_covers_document:
  assumes "newChunker sz overlap = Inr c"
  shows "\<exists>cs. chunker_split c doc = Some cs \<and> glue (nat overlap) cs = doc_Content doc
    \<and> (\<forall>ch \<in> set cs. slice_of doc ch \<and> int (length (ch_Text ch)) \<le> sz)
    \<and> map ch_ChunkID cs = map (\<lambda>i. doc_ID doc @ '':'' @ nat_str i) [0..<length cs]"
proof -
  have c: "chunker_ok c" "chk_size c = sz" "chk_overlap c = overlap"
    using newChunker_ok [OF assms] by auto
  obtain cs where cs: "chunker_split c doc = Some cs" "glue (nat overlap) cs = doc_Content doc"
    "\<forall>ch \<in> set cs. slice_of doc ch \<and> length (ch_Text ch) \<le> nat sz"
    "map ch_ChunkID cs = map (\<lambda>i. doc_ID doc @ '':'' @ nat_str i) [0..<length cs]"
    using chunker_split_spec [OF c(1), of doc] c by auto
  moreover have "0 < sz" using c by (simp add: chunker_ok_def)
  ultimately show ?thesis by (intro exI [of _ cs]) (auto simp: le_nat_iff)
qed

definition demo_doc :: document where
  "demo_doc = \<lparr>doc_ID = ''d'', doc_SourcePath = ''p'', doc_Title = '''', doc_Metadata = Map.empty,
     doc_Content = ''abcdefg''\<rparr>"

theorem split_covers_document_witness:
  "\<exists>cs. chunker_split \<lparr>chk_size = 4, chk_overlap = 1\<rparr> demo_doc = Some cs \<and> glue 1 cs = ''abcdefg''"
  using split_covers_document [of 4 1 "\<lparr>chk_size = 4, chk_overlap = 1\<rparr>" demo_doc]
  by (auto simp: newChunker_def demo_doc_def)

text \<open>C10: An assembled context never exceeds maxChars runes; it holds each chunk at most once, in the
  order of the input, as labelled segments separated by blank lines, and only the text of
  its first chunk may be cut.\<close>

theorem context_within_budget:
  assumes "assembleContext chunks maxChars = Inr (kept, ctx)"
  shows "int (length ctx) \<le> maxChars \<and> kept \<noteq> [] \<and> subseq kept chunks
    \<and> distinct (map ch_ChunkID kept) \<and> (\<exists>n. ctx = layout n kept)"
  using assembleContext_result [OF assms] by blast

definition demo_chunk :: chunk where
  "demo_chunk = make_chunk demo_doc 0 0 7"

lemma nat_str_0: "nat_str 0 = ''0''"
  by code_simp

lemma demo_context: "assembleContext [demo_chunk] 8 = Inr ([demo_chunk], ''[d:0] ab'')"
  by (simp add: demo_chunk_def demo_doc_def make_chunk_def assembleContext_def bracket_def nat_str_0)

theorem context_within_budget_witness: "\<exists>n. ''[d:0] ab'' = layout n [demo_chunk]"
  using context_within_budget [OF demo_context] by blast

text \<open>A chunk that was cut to fit the budget is still returned with the end of its full text: the
  kept chunk claims a range of the document that the context does not contain.\<close>

lemma cut_chunk_keeps_its_full_range:
  "\<exists>c ctx. assembleContext [c] 8 = Inr ([c], ctx) \<and> ch_EndRune c = 7 \<and> length (ch_Text c) = 7
     \<and> ctx = bracket (ch_ChunkID c) @ take 2 (ch_Text c)"
  by (intro exI [of _ demo_chunk] exI [of _ "''[d:0] ab''"])
     (simp add: demo_context, simp add: demo_chunk_def demo_doc_def make_chunk_def bracket_def nat_str_0)

text \<open>A question without a reference to earlier ones is only normalised; a referring one is put
  behind the latest question of the history that stands on its own, every later question
  being empty or not standing on its own.\<close>

theorem follow_up_uses_latest_concrete_question:
  "rewriteFollowUp query history = normalizeQueryText query \<or>
   (looksReferential (normalizeQueryText query) \<and>
    (\<exists>earlier h later. history = earlier @ h # later
       \<and> rewriteFollowUp query history = normalizeQueryText h @ '' '' @ normalizeQueryText query
       \<and> isConcreteHistoryItem (normalizeQueryText h)
       \<and> \<not> list_ex (\<lambda>x. normalizeQueryText x \<noteq> '''' \<and> isConcreteHistoryItem (normalizeQueryText x)) later))"
proof (cases "looksReferential (normalizeQueryText query) \<and> normalizeQueryText query \<noteq> []
     \<and> latest_concrete (rev history) \<noteq> None")
  case True
  then obtain item where item: "latest_concrete (rev history) = Some item" by blast
  from latest_concrete_Some [OF item] obtain xs h ys where
    h: "rev history = xs @ h # ys" "item = normalizeQueryText h" "isConcreteHistoryItem item"
      "\<forall>x \<in> set xs. normalizeQueryText x = '''' \<or> \<not> isConcreteHistoryItem (normalizeQueryText x)" by blast
  have "history = rev ys @ h # rev xs" using arg_cong [OF h(1), of rev] by simp
  with True item h show ?thesis
    by (intro disjI2 conjI exI [of _ "rev ys"] exI [of _ h] exI [of _ "rev xs"])
       (auto simp: rewriteFollowUp_def list_ex_iff)
next
  case False
  then show ?thesis by (auto simp: rewriteFollowUp_def Let_def split: option.splits)
qed

text \<open>Reading back a Markdown file whose front matter block has no line with the closing marker
  and no CRLF line ends gives the body that was written and the parsed block.\<close>

theorem front_matter_read_back:
  assumes "\<not> contains (with_front_matter raw body) CRLF"
    and "\<not> contains (raw @ NL) (NL @ ''---'' @ NL)" and "body = [] \<or> hd body \<noteq> CHR 0x0A"
  shows "extractMarkdownFrontMatter yaml (with_front_matter raw body) =
     (case parseFrontMatterMetadata yaml raw of Inl e \<Rightarrow> Inl e | Inr m \<Rightarrow> Inr (body, m))"
  by (rule front_matter_roundtrip [OF assms])

theorem front_matter_read_back_witness:
  "extractMarkdownFrontMatter (\<lambda>_. Inr [(''k'', YString ''v'')]) (with_front_matter ''k: v'' ''text'')
     = Inr (''text'', [''k'' \<mapsto> ''v''])"
proof -
  have "\<not> contains (with_front_matter ''k: v'' ''text'') CRLF" "\<not> contains (''k: v'' @ NL) (NL @ ''---'' @ NL)"
    by (simp_all add: with_front_matter_def has_prefix_def)
  then have "extractMarkdownFrontMatter (\<lambda>_. Inr [(''k'', YString ''v'')]) (with_front_matter ''k: v'' ''text'') =
     (case parseFrontMatterMetadata (\<lambda>_. Inr [(''k'', YString ''v'')]) ''k: v'' of Inl e \<Rightarrow> Inl e | Inr m \<Rightarrow> Inr (''text'', m))"
    by (rule front_matter_read_back) simp
  then show ?thesis
    by (simp add: parseFrontMatterMetadata_def blank_def trim_space_def trim_left_def is_space_def code_of_def
        stringifyMetadataValue_def Let_def)
qed

end
