(* ===== verification/Paths.thy ===== *)
theory Paths
  imports Domain
begin

section \<open>File paths and source filters\<close>

text \<open>
  \<^verbatim>\<open>path/filepath\<close>'s \<^verbatim>\<open>Clean\<close> on slash-separated paths, and
  \<^verbatim>\<open>internal/storage/search_filter.go\<close>: the normal form of a search filter and the test
  whether a stored chunk passes it.
\<close>

subsection \<open>Clean paths\<close>

abbreviation slash :: "char \<Rightarrow> bool" where "slash c \<equiv> c = CHR ''/''"

fun clean_comps :: "bool \<Rightarrow> string list \<Rightarrow> string list \<Rightarrow> string list" where
  "clean_comps rooted stack [] = rev stack"
| "clean_comps rooted stack (c # cs) =
     (if c = '''' \<or> c = ''.'' then clean_comps rooted stack cs
      else if c = ''..'' then
        (case stack of
           d # ds \<Rightarrow> if d = ''..'' then clean_comps rooted (c # stack) cs else clean_comps rooted ds cs
         | [] \<Rightarrow> if rooted then clean_comps rooted [] cs else clean_comps rooted [c] cs)
      else clean_comps rooted (c # stack) cs)"

definition is_abs :: "string \<Rightarrow> bool" where
  "is_abs p = has_prefix p ''/''"

definition components :: "string \<Rightarrow> string list" where
  "components p = clean_comps (is_abs p) [] (split_by slash p)"

definition render :: "bool \<Rightarrow> string list \<Rightarrow> string" where
  "render rooted cs = (if rooted then ''/'' @ join_with ''/'' cs
     else if cs = [] then ''.'' else join_with ''/'' cs)"

definition path_clean :: "string \<Rightarrow> string" where
  "path_clean p = render (is_abs p) (components p)"

text \<open>A component of a clean path.\<close>

definition comp_ok :: "string \<Rightarrow> bool" where
  "comp_ok c \<longleftrightarrow> c \<noteq> '''' \<and> c \<noteq> ''.'' \<and> CHR ''/'' \<notin> set c"

abbreviation up :: "string \<Rightarrow> bool" where "up c \<equiv> c = ''..''"

definition comps_ok :: "bool \<Rightarrow> string list \<Rightarrow> bool" where
  "comps_ok rooted cs \<longleftrightarrow> (\<forall>c \<in> set cs. comp_ok c)
     \<and> ''..'' \<notin> set (dropWhile up cs) \<and> (rooted \<longrightarrow> ''..'' \<notin> set cs)"

lemma comps_ok_snoc:
  "comps_ok rooted (cs @ [c]) \<longleftrightarrow> comps_ok rooted cs \<and> comp_ok c
     \<and> (up c \<longrightarrow> \<not> rooted \<and> (\<forall>x \<in> set cs. up x))"
proof (cases "\<forall>x \<in> set cs. up x")
  case True
  then have d: "dropWhile up cs = []" by (simp add: dropWhile_eq_Nil_conv)
  show ?thesis unfolding comps_ok_def dropWhile_append d using True by auto
next
  case False
  then show ?thesis unfolding comps_ok_def by (auto simp: dropWhile_append)
qed

lemma comps_ok_Nil [simp]: "comps_ok rooted []"
  by (simp add: comps_ok_def)

lemma comp_ok_up [simp]: "comp_ok ''..''"
  by (simp add: comp_ok_def)

lemma clean_comps_ok:
  "(\<forall>c \<in> set cs. CHR ''/'' \<notin> set c) \<Longrightarrow> comps_ok rooted (rev stack) \<Longrightarrow> comps_ok rooted (clean_comps rooted stack cs)"
proof (induction rooted stack cs rule: clean_comps.induct)
  case (2 rooted stack c cs)
  have free: "\<forall>c \<in> set cs. CHR ''/'' \<notin> set c" "CHR ''/'' \<notin> set c" using "2.prems"(1) by auto
  note ok = "2.prems"(2)
  consider "c = '''' \<or> c = ''.''" | "c = ''..''" "stack = []" | d es where "c = ''..''" "stack = d # es"
    | "c \<noteq> ''''" "c \<noteq> ''.''" "c \<noteq> ''..''"
    by (cases stack) auto
  then show ?case
  proof cases
    case 1
    then show ?thesis using "2.IH"(1) free ok by auto
  next
    case 2
    have "comps_ok False [''..'']" using comps_ok_snoc [of False "[]" "''..''"] by simp
    then show ?thesis
      using "2.IH" 2 free ok by (cases rooted) auto
  next
    case 3
    have st: "comps_ok rooted (rev es)" "up d \<longrightarrow> \<not> rooted \<and> (\<forall>x \<in> set (rev es). up x)"
      using ok 3(2) by (simp_all add: comps_ok_snoc)
    then have "up d \<Longrightarrow> comps_ok rooted ((rev es @ [d]) @ [c])"
      using 3 unfolding comps_ok_snoc by auto
    then have "up d \<Longrightarrow> comps_ok rooted (rev (c # stack))"
      using 3 by simp
    then show ?thesis
      using "2.IH" 3 free st(1) by (cases "up d") auto
  next
    case 4
    then have "comps_ok rooted (rev (c # stack))"
      using ok free(2) by (simp add: comps_ok_snoc comp_ok_def)
    then show ?thesis using "2.IH" 4 free by auto
  qed
qed simp

lemma split_slash_free: "c \<in> set (split_by slash p) \<Longrightarrow> CHR ''/'' \<notin> set c"
  using split_by_no_sep [of slash p] by blast

lemma components_ok: "comps_ok (is_abs p) (components p)"
  unfolding components_def
  by (rule clean_comps_ok) (auto dest: split_slash_free simp: comps_ok_def)

lemma split_join:
  "xs \<noteq> [] \<Longrightarrow> \<forall>x \<in> set xs. CHR ''/'' \<notin> set x \<Longrightarrow> split_by slash (join_with ''/'' xs) = xs"
proof (induction "''/''" xs rule: join_with.induct)
  case (2 x)
  then have "\<forall>c \<in> set x. \<not> slash c" by auto
  then show ?case by (simp add: split_by_free)
next
  case (3 x y zs)
  have "split_by slash (x @ CHR ''/'' # join_with ''/'' (y # zs)) = x # split_by slash (join_with ''/'' (y # zs))"
    using 3 by (intro split_by_append_sep) auto
  with 3 show ?case by simp
qed simp

lemma split_join_append:
  "xs \<noteq> [] \<Longrightarrow> \<forall>x \<in> set xs. CHR ''/'' \<notin> set x \<Longrightarrow>
     split_by slash (join_with ''/'' xs @ ''/'' @ t) = xs @ split_by slash t"
proof (induction "''/''" xs rule: join_with.induct)
  case (2 x)
  have "split_by slash (x @ CHR ''/'' # t) = x # split_by slash t"
    using 2 by (intro split_by_append_sep) auto
  then show ?case by simp
next
  case (3 x y zs)
  have "split_by slash (x @ CHR ''/'' # (join_with ''/'' (y # zs) @ ''/'' @ t))
      = x # split_by slash (join_with ''/'' (y # zs) @ ''/'' @ t)"
    using 3 by (intro split_by_append_sep) auto
  with 3 show ?case by simp
qed simp

lemma clean_comps_fixed:
  "comps_ok rooted (rev stack @ cs) \<Longrightarrow> clean_comps rooted stack cs = rev stack @ cs"
proof (induction cs arbitrary: stack)
  case (Cons c cs)
  have c: "c \<noteq> []" "c \<noteq> ''.''" using Cons.prems by (auto simp: comps_ok_def comp_ok_def)
  have rest: "clean_comps rooted (c # stack) cs = rev stack @ c # cs"
    using Cons.IH [of "c # stack"] Cons.prems by simp
  have "up c \<longrightarrow> \<not> rooted \<and> (\<forall>x \<in> set stack. up x)"
    using Cons.prems unfolding comps_ok_def by (auto simp: dropWhile_append split: if_splits)
  then show ?case using c rest by (cases stack) auto
qed simp

lemma clean_comps_abs: "clean_comps True [] ([] # cs) = clean_comps True [] cs"
  by simp

lemma is_abs_render: "comps_ok rooted cs \<Longrightarrow> is_abs (render rooted cs) = rooted"
proof (cases cs)
  case Nil
  then show ?thesis by (simp add: render_def is_abs_def has_prefix_def)
next
  case (Cons c ds)
  assume "comps_ok rooted cs"
  then obtain x xs where "c = x # xs" "x \<noteq> CHR ''/''"
    using Cons by (cases c) (auto simp: comps_ok_def comp_ok_def)
  then show ?thesis using Cons by (cases ds) (auto simp: render_def is_abs_def has_prefix_def)
qed

lemma components_render: "comps_ok rooted cs \<Longrightarrow> components (render rooted cs) = cs"
proof -
  assume ok: "comps_ok rooted cs"
  have free: "\<forall>x \<in> set cs. CHR ''/'' \<notin> set x" using ok by (auto simp: comps_ok_def comp_ok_def)
  note fixed = clean_comps_fixed [of rooted "[]" cs] ok
  show ?thesis
  proof (cases rooted)
    case True
    then show ?thesis
      using fixed free is_abs_render [OF ok] split_join [of cs]
      by (cases "cs = []") (auto simp: components_def render_def)
  next
    case False
    then show ?thesis
      using fixed free is_abs_render [OF ok] split_join [of cs]
      by (cases "cs = []") (auto simp: components_def render_def is_abs_def)
  qed
qed

lemma path_clean_idem [simp]: "path_clean (path_clean p) = path_clean p"
  using components_ok [of p] by (simp add: path_clean_def is_abs_render components_render)

lemma components_clean [simp]: "components (path_clean p) = components p" "is_abs (path_clean p) = is_abs p"
  using components_ok [of p] by (simp_all add: path_clean_def is_abs_render components_render)

subsection \<open>Prefixes\<close>

definition sourcePathMatchesPrefix :: "string \<Rightarrow> string \<Rightarrow> bool" where
  "sourcePathMatchesPrefix sourcePath pre =
     (let sourcePath = path_clean sourcePath; pre = path_clean pre in
      if sourcePath = pre then True
      else has_prefix sourcePath (if pre = ''/'' then pre else pre @ ''/''))"

lemma join_with_append:
  "xs \<noteq> [] \<Longrightarrow> ys \<noteq> [] \<Longrightarrow> join_with sep (xs @ ys) = join_with sep xs @ sep @ join_with sep ys"
proof (induction sep xs rule: join_with.induct)
  case (2 sep x)
  then show ?case by (cases ys) auto
qed auto

lemma join_slash_prefix:
  assumes "\<forall>x \<in> set xs. CHR ''/'' \<notin> set x" "\<forall>x \<in> set ys. CHR ''/'' \<notin> set x" "ys \<noteq> []" "xs \<noteq> []"
  shows "has_prefix (join_with ''/'' xs) (join_with ''/'' ys @ ''/'') \<longleftrightarrow> (\<exists>zs. zs \<noteq> [] \<and> xs = ys @ zs)"
proof
  assume "has_prefix (join_with ''/'' xs) (join_with ''/'' ys @ ''/'')"
  then obtain t where "join_with ''/'' xs = join_with ''/'' ys @ ''/'' @ t"
    by (auto simp: has_prefix_iff)
  then have "xs = ys @ split_by slash t"
    using split_join [OF assms(4,1)] split_join_append [OF assms(3,2)] by metis
  then show "\<exists>zs. zs \<noteq> [] \<and> xs = ys @ zs" by (intro exI [of _ "split_by slash t"]) simp
next
  assume "\<exists>zs. zs \<noteq> [] \<and> xs = ys @ zs"
  then show "has_prefix (join_with ''/'' xs) (join_with ''/'' ys @ ''/'')"
    using assms(3) by (auto simp: has_prefix_iff join_with_append)
qed

lemma join_slash_inj:
  assumes "\<forall>x \<in> set xs. comp_ok x" "\<forall>x \<in> set ys. comp_ok x" "join_with ''/'' xs = join_with ''/'' ys"
  shows "xs = ys"
proof -
  have e: "join_with ''/'' zs = [] \<Longrightarrow> \<forall>z \<in> set zs. comp_ok z \<Longrightarrow> zs = []" for zs
    by (cases zs; cases "tl zs") (auto simp: comp_ok_def)
  have s: "zs \<noteq> [] \<Longrightarrow> \<forall>z \<in> set zs. comp_ok z \<Longrightarrow> split_by slash (join_with ''/'' zs) = zs" for zs
    by (rule split_join) (auto simp: comp_ok_def)
  show ?thesis using assms e s by (metis join_with.simps(1))
qed

text \<open>On rooted paths a prefix matches by whole components.\<close>

lemma prefix_by_components:
  assumes "is_abs p" "is_abs pre"
  shows "sourcePathMatchesPrefix p pre \<longleftrightarrow> prefix (components pre) (components p)"
proof -
  let ?x = "components p" and ?y = "components pre"
  have ok: "\<forall>x \<in> set ?x. comp_ok x" "\<forall>x \<in> set ?y. comp_ok x"
    using components_ok [of p] components_ok [of pre] by (auto simp: comps_ok_def)
  then have free: "\<forall>x \<in> set ?x. CHR ''/'' \<notin> set x" "\<forall>x \<in> set ?y. CHR ''/'' \<notin> set x"
    by (auto simp: comp_ok_def)
  have clean: "path_clean p = ''/'' @ join_with ''/'' ?x" "path_clean pre = ''/'' @ join_with ''/'' ?y"
    using assms by (simp_all add: path_clean_def render_def)
  have eq: "path_clean p = path_clean pre \<longleftrightarrow> ?x = ?y"
    using clean join_slash_inj [OF ok] by auto
  have rootp: "path_clean pre = ''/'' \<longleftrightarrow> ?y = []"
    using clean(2) join_slash_inj [OF ok(2), of "[]"] by auto
  show ?thesis
  proof (cases "?y = []")
    case True
    then show ?thesis
      using rootp clean by (auto simp: sourcePathMatchesPrefix_def Let_def has_prefix_def)
  next
    case y: False
    show ?thesis
    proof (cases "?x = []")
      case True
      then show ?thesis
        using y eq rootp clean by (simp add: sourcePathMatchesPrefix_def Let_def has_prefix_def)
    next
      case False
      have "has_prefix (path_clean p) (path_clean pre @ ''/'') \<longleftrightarrow> (\<exists>zs. zs \<noteq> [] \<and> ?x = ?y @ zs)"
        using join_slash_prefix [OF free y False] clean by (simp add: has_prefix_def)
      then show ?thesis
        using y eq rootp by (auto simp: sourcePathMatchesPrefix_def Let_def prefix_def)
    qed
  qed
qed

subsection \<open>Search filters\<close>

definition normalizeSearchFilterPaths :: "string list \<Rightarrow> string list" where
  "normalizeSearchFilterPaths paths =
     sort_compact (map (\<lambda>p. path_clean (trim_space p)) (filter (\<lambda>p. \<not> blank p) paths))"

text \<open>
  The loop over the cloned map, which it changes while it runs. \<open>ks\<close> is the order in which
  the iteration meets the keys; a key removed before its turn is not met.
\<close>

fun normalize_metadata :: "string list \<Rightarrow> metadata \<Rightarrow> metadata" where
  "normalize_metadata [] m = m"
| "normalize_metadata (k # ks) m = (case m k of None \<Rightarrow> normalize_metadata ks m
     | Some v \<Rightarrow> (let t = trim_space k in
         if t = '''' then normalize_metadata ks (m(k := None))
         else normalize_metadata ks ((if t \<noteq> k then m(k := None) else m)(t \<mapsto> trim_space v))))"

definition sf_normalized :: "string list \<Rightarrow> search_filter \<Rightarrow> search_filter" where
  "sf_normalized ks f = \<lparr>sf_SourcePaths = normalizeSearchFilterPaths (sf_SourcePaths f),
     sf_SourcePrefixes = normalizeSearchFilterPaths (sf_SourcePrefixes f),
     sf_Metadata = normalize_metadata ks (sf_Metadata f)\<rparr>"

definition sf_isZero :: "search_filter \<Rightarrow> bool" where
  "sf_isZero f \<longleftrightarrow> sf_SourcePaths f = [] \<and> sf_SourcePrefixes f = [] \<and> sf_Metadata f = Map.empty"

definition lookup0 :: "metadata \<Rightarrow> string \<Rightarrow> string" where
  "lookup0 m k = (case m k of Some v \<Rightarrow> v | None \<Rightarrow> '''')"

definition matchesChunk :: "search_filter \<Rightarrow> chunk_record \<Rightarrow> bool" where
  "matchesChunk f c \<longleftrightarrow>
     (sf_SourcePaths f = [] \<or> path_clean (cr_SourcePath c) \<in> set (sf_SourcePaths f))
   \<and> (sf_SourcePrefixes f = [] \<or> (\<exists>p \<in> set (sf_SourcePrefixes f). sourcePathMatchesPrefix (cr_SourcePath c) p))
   \<and> (\<forall>k v. sf_Metadata f k = Some v \<longrightarrow> lookup0 (cr_Metadata c) k = v)"

lemma matchesChunk_zero: "sf_isZero f \<Longrightarrow> matchesChunk f c"
  by (simp add: matchesChunk_def sf_isZero_def)

lemma normalize_paths_clean: "p \<in> set (normalizeSearchFilterPaths ps) \<Longrightarrow> path_clean p = p"
  by (auto simp: normalizeSearchFilterPaths_def)

lemma normalize_paths_blank: "list_all blank ps \<Longrightarrow> normalizeSearchFilterPaths ps = []"
proof -
  assume "list_all blank ps"
  then have "filter (\<lambda>p. \<not> blank p) ps = []" by (auto simp: filter_empty_conv list_all_iff)
  then show ?thesis by (simp add: normalizeSearchFilterPaths_def sort_compact_def)
qed

lemma normalize_metadata_trimmed:
  "\<forall>k \<in> dom m. trim_space k = k \<and> k \<noteq> '''' \<Longrightarrow> distinct ks \<Longrightarrow>
     normalize_metadata ks m k = (if k \<in> set ks then map_option trim_space (m k) else m k)"
proof (induction ks arbitrary: m)
  case (Cons a ks)
  show ?case
  proof (cases "m a")
    case None
    then show ?thesis using Cons by auto
  next
    case (Some v)
    then have t: "trim_space a = a" "a \<noteq> ''''" using Cons.prems(1) by auto
    obtain m' where m': "m' = m(a \<mapsto> trim_space v)" by blast
    have r: "normalize_metadata (a # ks) m = normalize_metadata ks m'"
      using Some t by (simp add: Let_def m')
    have "\<forall>k \<in> dom m'. trim_space k = k \<and> k \<noteq> ''''"
      using Cons.prems(1) t by (auto simp: m')
    then have "normalize_metadata ks m' k = (if k \<in> set ks then map_option trim_space (m' k) else m' k)"
      using Cons.IH [of m'] Cons.prems(2) by simp
    then show ?thesis using Cons.prems(2) Some r by (auto simp: m')
  qed
qed simp

subsection \<open>Properties\<close>

text \<open>On rooted paths a source prefix matches exactly the paths whose cleaned components begin with
  the cleaned components of the prefix, so a directory never matches a sibling whose name it
  begins.\<close>

theorem prefix_matches_whole_components:
  assumes "is_abs p" "is_abs pre"
  shows "sourcePathMatchesPrefix p pre \<longleftrightarrow> prefix (components pre) (components p)"
  by (rule prefix_by_components [OF assms])

theorem prefix_matches_whole_components_witness:
  "\<not> sourcePathMatchesPrefix ''/kb/t10/a'' ''/kb/t1'' \<and> sourcePathMatchesPrefix ''/kb//t1/./a'' ''/kb/t1/''"
proof (intro conjI)
  have a: "is_abs ''/kb/t10/a''" "is_abs ''/kb/t1''" "is_abs ''/kb//t1/./a''" "is_abs ''/kb/t1/''"
    by (simp_all add: is_abs_def has_prefix_def)
  have c: "components ''/kb/t10/a'' = [''kb'', ''t10'', ''a'']" "components ''/kb/t1'' = [''kb'', ''t1'']"
    "components ''/kb//t1/./a'' = [''kb'', ''t1'', ''a'']" "components ''/kb/t1/'' = [''kb'', ''t1'']"
    by (simp_all add: components_def is_abs_def has_prefix_def)
  show "\<not> sourcePathMatchesPrefix ''/kb/t10/a'' ''/kb/t1''"
    using prefix_matches_whole_components [OF a(1,2)] by (simp add: c)
  show "sourcePathMatchesPrefix ''/kb//t1/./a'' ''/kb/t1/''"
    using prefix_matches_whole_components [OF a(3,4)] by (simp add: c)
qed

end
