(* ===== verification/Store.thy ===== *)
theory Store
  imports Paths "HOL-Library.Multiset"
begin

section \<open>The embedded vector store\<close>

text \<open>
  \<^verbatim>\<open>internal/storage/chromem_store.go\<close>. The chromem collection is third-party: the
  operations of the store take it as a record of the five methods the store calls, and
  \<open>chromem_ok\<close> is what its documentation promises of them. The store's own work is the
  encoding of a chunk into a document's metadata and back, the replacement of a document's
  chunks by an upsert, and the filtered search.
\<close>

subsection \<open>Encoding\<close>

record cdoc =
  cd_ID :: string
  cd_Metadata :: metadata
  cd_Embedding :: embedding
  cd_Content :: string

abbreviation key_source :: string where "key_source \<equiv> ''rag_source_path''"
abbreviation key_title :: string where "key_title \<equiv> ''rag_title''"
abbreviation key_parent :: string where "key_parent \<equiv> ''rag_parent_id''"
abbreviation key_start :: string where "key_start \<equiv> ''rag_start_rune''"
abbreviation key_end :: string where "key_end \<equiv> ''rag_end_rune''"
abbreviation key_user :: string where "key_user \<equiv> ''rag_meta_''"

definition user_entries :: "metadata \<Rightarrow> metadata" where
  "user_entries m k = (if has_prefix k key_user then m (drop (length key_user) k) else None)"

definition chunkToMetadata :: "chunk_record \<Rightarrow> metadata" where
  "chunkToMetadata c = [key_source \<mapsto> cr_SourcePath c, key_title \<mapsto> cr_Title c, key_parent \<mapsto> cr_ParentID c,
     key_start \<mapsto> itoa (cr_StartRune c), key_end \<mapsto> itoa (cr_EndRune c)] ++ user_entries (cr_Metadata c)"

definition extractUserMetadata :: "metadata \<Rightarrow> metadata" where
  "extractUserMetadata m k = m (key_user @ k)"

definition parseIntMetadata :: "metadata \<Rightarrow> string \<Rightarrow> int" where
  "parseIntMetadata m k = (case m k of None \<Rightarrow> 0
     | Some raw \<Rightarrow> if raw = '''' then 0 else (case atoi raw of Some i \<Rightarrow> i | None \<Rightarrow> 0))"

definition resultToChunk :: "cdoc \<Rightarrow> chunk_record" where
  "resultToChunk d = \<lparr>cr_ChunkID = cd_ID d, cr_ParentID = lookup0 (cd_Metadata d) key_parent,
     cr_SourcePath = lookup0 (cd_Metadata d) key_source, cr_Title = lookup0 (cd_Metadata d) key_title,
     cr_Text = cd_Content d, cr_StartRune = parseIntMetadata (cd_Metadata d) key_start,
     cr_EndRune = parseIntMetadata (cd_Metadata d) key_end,
     cr_Metadata = extractUserMetadata (cd_Metadata d), cr_Embedding = cd_Embedding d\<rparr>"

definition chunkToDoc :: "chunk_record \<Rightarrow> cdoc" where
  "chunkToDoc c = \<lparr>cd_ID = cr_ChunkID c, cd_Metadata = chunkToMetadata c, cd_Embedding = cr_Embedding c,
     cd_Content = cr_Text c\<rparr>"

lemma chunkToMetadata_own:
  "chunkToMetadata c key_source = Some (cr_SourcePath c)" "chunkToMetadata c key_title = Some (cr_Title c)"
  "chunkToMetadata c key_parent = Some (cr_ParentID c)" "chunkToMetadata c key_start = Some (itoa (cr_StartRune c))"
  "chunkToMetadata c key_end = Some (itoa (cr_EndRune c))"
  by (simp_all add: chunkToMetadata_def user_entries_def map_add_def has_prefix_def)

lemma chunkToMetadata_user: "extractUserMetadata (chunkToMetadata c) = cr_Metadata c"
  by (rule ext) (auto simp: extractUserMetadata_def chunkToMetadata_def user_entries_def map_add_def
      has_prefix_def split: option.split)

definition storable :: "chunk_record \<Rightarrow> bool" where
  "storable c \<longleftrightarrow> int64_range (cr_StartRune c) \<and> int64_range (cr_EndRune c)"

lemma itoa_nonempty [simp]: "itoa i \<noteq> ''''"
  by (simp add: itoa_def)

lemma result_of_doc: "storable c \<Longrightarrow> resultToChunk (chunkToDoc c) = c"
  by (simp add: storable_def resultToChunk_def chunkToDoc_def lookup0_def parseIntMetadata_def
      chunkToMetadata_own chunkToMetadata_user)

subsection \<open>The collection\<close>

record 'c collection =
  col_Add :: "'c \<Rightarrow> cdoc list \<Rightarrow> go_error option \<times> 'c"
  col_Query :: "'c \<Rightarrow> embedding \<Rightarrow> nat \<Rightarrow> metadata \<Rightarrow> (cdoc \<times> real) list result"
  col_DeleteIDs :: "'c \<Rightarrow> string list \<Rightarrow> go_error option \<times> 'c"
  col_DeleteWhere :: "'c \<Rightarrow> metadata \<Rightarrow> go_error option \<times> 'c"
  col_Count :: "'c \<Rightarrow> nat"

text \<open>What the documents of a collection are, and what the methods do to them when they succeed.\<close>

definition chromem_ok :: "'c collection \<Rightarrow> ('c \<Rightarrow> string \<rightharpoonup> cdoc) \<Rightarrow> (embedding \<Rightarrow> cdoc \<Rightarrow> real) \<Rightarrow> bool" where
  "chromem_ok col docs sim \<longleftrightarrow>
     (\<forall>c. finite (dom (docs c)) \<and> col_Count col c = card (dom (docs c))
        \<and> (\<forall>k d. docs c k = Some d \<longrightarrow> cd_ID d = k))
   \<and> (\<forall>c ds c'. distinct (map cd_ID ds) \<longrightarrow> col_Add col c ds = (None, c') \<longrightarrow>
        docs c' = docs c ++ map_of (map (\<lambda>d. (cd_ID d, d)) ds))
   \<and> (\<forall>c ks c'. col_DeleteIDs col c ks = (None, c') \<longrightarrow> docs c' = docs c |` (- set ks))
   \<and> (\<forall>c m c'. col_DeleteWhere col c m = (None, c') \<longrightarrow>
        docs c' = (\<lambda>k. case docs c k of Some d \<Rightarrow> if m \<subseteq>\<^sub>m cd_Metadata d then None else Some d | None \<Rightarrow> None))
   \<and> (\<forall>c e n m rs. n \<le> col_Count col c \<longrightarrow> col_Query col c e n m = Inr rs \<longrightarrow>
        length rs \<le> n \<and> distinct (map (\<lambda>r. cd_ID (fst r)) rs)
        \<and> sorted_wrt (\<lambda>a b. snd a \<ge> snd b) rs
        \<and> (\<forall>r \<in> set rs. docs c (cd_ID (fst r)) = Some (fst r) \<and> m \<subseteq>\<^sub>m cd_Metadata (fst r) \<and> snd r = sim e (fst r))
        \<and> (\<forall>k d. docs c k = Some d \<longrightarrow> m \<subseteq>\<^sub>m cd_Metadata d \<longrightarrow>
             (d, sim e d) \<in> set rs \<or> (length rs = n \<and> (\<forall>r \<in> set rs. sim e d \<le> snd r))))"

subsection \<open>Upsert\<close>

fun upsert_check :: "chunk_record list \<Rightarrow> string list \<Rightarrow> go_error option" where
  "upsert_check [] seen = None"
| "upsert_check (c # cs) seen =
     (if cr_ChunkID c = '''' then Some (errorf ''chunk id is empty'' [])
      else if cr_ParentID c = '''' then Some (errorf (''parent id is empty for chunk '' @ cr_ChunkID c) [])
      else if cr_Embedding c = [] then Some (errorf (''embedding is empty for chunk '' @ cr_ChunkID c) [])
      else if cr_ChunkID c \<in> set seen
        then Some (errorf (''duplicate chunk id '' @ cr_ChunkID c @ '' in upsert batch'') [])
      else upsert_check cs (cr_ChunkID c # seen))"

definition listChunkIDsByParent :: "'c collection \<Rightarrow> 'c \<Rightarrow> string \<Rightarrow> embedding \<Rightarrow> string list result" where
  "listChunkIDsByParent col c parentID q =
     (if col_Count col c = 0 then Inr []
      else (case col_Query col c q (col_Count col c) [key_parent \<mapsto> parentID] of
          Inl e \<Rightarrow> Inl (wrap_err ''query parent chunks'' e)
        | Inr rs \<Rightarrow> Inr (map (\<lambda>r. cd_ID (fst r)) rs)))"

definition current_ids :: "chunk_record list \<Rightarrow> string \<Rightarrow> string list" where
  "current_ids chunks parentID = map cr_ChunkID (filter (\<lambda>c. cr_ParentID c = parentID) chunks)"

definition query_embedding :: "chunk_record list \<Rightarrow> string \<Rightarrow> embedding" where
  "query_embedding chunks parentID = (case filter (\<lambda>c. cr_ParentID c = parentID) chunks of c # _ \<Rightarrow> cr_Embedding c | [] \<Rightarrow> [])"

fun drop_stale :: "'c collection \<Rightarrow> chunk_record list \<Rightarrow> string list \<Rightarrow> 'c \<Rightarrow> go_error option \<times> 'c" where
  "drop_stale col chunks [] c = (None, c)"
| "drop_stale col chunks (p # ps) c = (case listChunkIDsByParent col c p (query_embedding chunks p) of
     Inl e \<Rightarrow> (Some (wrap_err (''list chunk ids by parent '' @ p) e), c)
   | Inr ids \<Rightarrow> (let staleIDs = filter (\<lambda>i. i \<notin> set (current_ids chunks p)) ids in
       if staleIDs = [] then drop_stale col chunks ps c
       else (case col_DeleteIDs col c staleIDs of
           (Some e, c') \<Rightarrow> (Some (wrap_err (''delete stale chunks for parent '' @ p) e), c')
         | (None, c') \<Rightarrow> drop_stale col chunks ps c')))"

text \<open>\<open>err1\<close> and \<open>err2\<close> are the context's error when \<^verbatim>\<open>Upsert\<close> asks before and after its work.\<close>

definition chromem_Upsert ::
  "'c collection \<Rightarrow> go_error option \<Rightarrow> go_error option \<Rightarrow> chunk_record list \<Rightarrow> 'c \<Rightarrow> go_error option \<times> 'c" where
  "chromem_Upsert col err1 err2 chunks c =
     (if chunks = [] then (None, c)
      else (case upsert_check chunks [] of Some e \<Rightarrow> (Some e, c) | None \<Rightarrow>
        (case err1 of Some e \<Rightarrow> (Some (wrap_err ''upsert chunks'' e), c) | None \<Rightarrow>
          (case col_Add col c (map chunkToDoc chunks) of
             (Some e, c1) \<Rightarrow> (Some (wrap_err ''upsert chunks'' e), c1)
           | (None, c1) \<Rightarrow> (case drop_stale col chunks (sort_compact (map cr_ParentID chunks)) c1 of
                (Some e, c2) \<Rightarrow> (Some e, c2)
              | (None, c2) \<Rightarrow> (map_option (wrap_err ''upsert chunks'') err2, c2))))))"

fun delete_paths :: "'c collection \<Rightarrow> string list \<Rightarrow> 'c \<Rightarrow> go_error option \<times> 'c" where
  "delete_paths col [] c = (None, c)"
| "delete_paths col (p # ps) c = (case col_DeleteWhere col c [key_source \<mapsto> p] of
     (Some e, c') \<Rightarrow> (Some (wrap_err (''delete source path '' @ p) e), c')
   | (None, c') \<Rightarrow> delete_paths col ps c')"

definition chromem_Delete ::
  "'c collection \<Rightarrow> go_error option \<Rightarrow> go_error option \<Rightarrow> string list \<Rightarrow> 'c \<Rightarrow> go_error option \<times> 'c" where
  "chromem_Delete col err1 err2 sourcePaths c =
     (if sourcePaths = [] then (None, c)
      else (case err1 of Some e \<Rightarrow> (Some (wrap_err ''delete source paths'' e), c) | None \<Rightarrow>
        (case delete_paths col (sort_compact sourcePaths) c of
           (Some e, c') \<Rightarrow> (Some e, c')
         | (None, c') \<Rightarrow> (map_option (wrap_err ''delete source paths'') err2, c'))))"

subsection \<open>Search\<close>

fun collect_hits :: "real \<Rightarrow> search_filter \<Rightarrow> nat \<Rightarrow> (cdoc \<times> real) list \<Rightarrow> search_hit list \<Rightarrow> search_hit list" where
  "collect_hits threshold f topK [] hits = hits"
| "collect_hits threshold f topK ((d, s) # rs) hits =
     (if s < threshold then collect_hits threshold f topK rs hits
      else (let chunk = resultToChunk d in
        if \<not> sf_isZero f \<and> \<not> matchesChunk f chunk then collect_hits threshold f topK rs hits
        else (let hits = hits @ [\<lparr>hit_Chunk = chunk, hit_Score = s\<rparr>] in
          if length hits = topK then hits else collect_hits threshold f topK rs hits)))"

definition chromem_SearchWithFilter ::
  "'c collection \<Rightarrow> string list \<Rightarrow> embedding \<Rightarrow> int \<Rightarrow> real \<Rightarrow> search_filter \<Rightarrow> 'c \<Rightarrow> search_hit list result" where
  "chromem_SearchWithFilter col ks q topK threshold f c =
     (if q = [] then Inl (errorf ''query embedding is empty'' [])
      else if topK \<le> 0 then Inl (errorf ''topK must be > 0'' [])
      else (let count = col_Count col c in
        if count = 0 then Inr []
        else (let topK = (if topK > int count then count else nat topK);
                  f = sf_normalized ks f;
                  queryCount = (if \<not> sf_isZero f then count else topK)
              in case col_Query col c q queryCount Map.empty of
                   Inl e \<Rightarrow> Inl (wrap_err ''query embedding'' e)
                 | Inr rs \<Rightarrow> Inr (collect_hits threshold f topK rs []))))"

definition chromem_Search :: "'c collection \<Rightarrow> embedding \<Rightarrow> int \<Rightarrow> real \<Rightarrow> 'c \<Rightarrow> search_hit list result" where
  "chromem_Search col q topK threshold c = chromem_SearchWithFilter col [] q topK threshold empty_filter c"

subsection \<open>What an upsert leaves behind\<close>

definition doc_parent :: "cdoc \<Rightarrow> string option" where
  "doc_parent d = cd_Metadata d key_parent"

lemma where_parent: "[key_parent \<mapsto> p] \<subseteq>\<^sub>m cd_Metadata d \<longleftrightarrow> doc_parent d = Some p"
  by (auto simp: map_le_def doc_parent_def)

lemma chromem_laws:
  assumes "chromem_ok col docs sim"
  shows "finite (dom (docs c))" "col_Count col c = card (dom (docs c))"
    "docs c k = Some d \<Longrightarrow> cd_ID d = k"
    "distinct (map cd_ID ds) \<Longrightarrow> col_Add col c ds = (None, c') \<Longrightarrow> docs c' = docs c ++ map_of (map (\<lambda>d. (cd_ID d, d)) ds)"
    "col_DeleteIDs col c ids = (None, c') \<Longrightarrow> docs c' = docs c |` (- set ids)"
    "col_DeleteWhere col c m = (None, c') \<Longrightarrow>
       docs c' = (\<lambda>k. case docs c k of Some d \<Rightarrow> if m \<subseteq>\<^sub>m cd_Metadata d then None else Some d | None \<Rightarrow> None)"
  using assms unfolding chromem_ok_def by blast+

lemma chromem_query:
  assumes "chromem_ok col docs sim" "n \<le> col_Count col c" "col_Query col c e n m = Inr rs"
  shows "length rs \<le> n" "distinct (map (\<lambda>r. cd_ID (fst r)) rs)" "sorted_wrt (\<lambda>a b. snd a \<ge> snd b) rs"
    "r \<in> set rs \<Longrightarrow> docs c (cd_ID (fst r)) = Some (fst r) \<and> m \<subseteq>\<^sub>m cd_Metadata (fst r) \<and> snd r = sim e (fst r)"
    "docs c k = Some d \<Longrightarrow> m \<subseteq>\<^sub>m cd_Metadata d \<Longrightarrow>
       (d, sim e d) \<in> set rs \<or> (length rs = n \<and> (\<forall>r \<in> set rs. sim e d \<le> snd r))"
  using assms unfolding chromem_ok_def by blast+

lemma chromem_query_all:
  assumes ok: "chromem_ok col docs sim" and q: "col_Query col c e (col_Count col c) m = Inr rs"
    and d: "docs c k = Some d" "m \<subseteq>\<^sub>m cd_Metadata d"
  shows "(d, sim e d) \<in> set rs"
proof (rule ccontr)
  note res = chromem_query [OF ok le_refl q]
  assume no: "(d, sim e d) \<notin> set rs"
  then have len: "length rs = card (dom (docs c))"
    using res(5) [OF d] chromem_laws(2) [OF ok] by simp
  let ?ids = "set (map (\<lambda>r. cd_ID (fst r)) rs)"
  have "?ids \<subseteq> dom (docs c)" using res(4) by fastforce
  moreover have "card ?ids = card (dom (docs c))" using distinct_card [OF res(2)] len by simp
  ultimately have "?ids = dom (docs c)"
    using chromem_laws(1) [OF ok] by (intro card_subset_eq) auto
  then have "k \<in> ?ids" using d(1) by auto
  then obtain r where r: "r \<in> set rs" "cd_ID (fst r) = k" by auto
  then have "fst r = d" "snd r = sim e d" using res(4) [OF r(1)] d(1) by auto
  with r(1) no show False by (metis prod.collapse)
qed

lemma listChunkIDs_set:
  assumes ok: "chromem_ok col docs sim" and l: "listChunkIDsByParent col c p q = Inr ids"
  shows "set ids = {k. \<exists>d. docs c k = Some d \<and> doc_parent d = Some p}"
proof (cases "col_Count col c = 0")
  case True
  then have "dom (docs c) = {}" using chromem_laws(1,2) [OF ok, of c] by simp
  then show ?thesis using True l by (auto simp: listChunkIDsByParent_def)
next
  case False
  then obtain rs where rs: "col_Query col c q (col_Count col c) [key_parent \<mapsto> p] = Inr rs"
    "ids = map (\<lambda>r. cd_ID (fst r)) rs"
    using l by (auto simp: listChunkIDsByParent_def split: sum.splits)
  note res = chromem_query [OF ok le_refl rs(1)]
  have "k \<in> set ids" if d: "docs c k = Some d" "doc_parent d = Some p" for k d
    using chromem_query_all [OF ok rs(1) d(1)] d chromem_laws(3) [OF ok d(1)]
    by (force simp: where_parent rs(2))
  moreover have "\<exists>d. docs c k = Some d \<and> doc_parent d = Some p" if "k \<in> set ids" for k
    using that res(4) by (auto simp: rs(2) where_parent)
  ultimately show ?thesis by blast
qed

lemma drop_stale_docs:
  assumes ok: "chromem_ok col docs sim" and "drop_stale col chunks ps c = (None, c')"
  shows "docs c' k = (case docs c k of None \<Rightarrow> None
     | Some d \<Rightarrow> if \<exists>p \<in> set ps. doc_parent d = Some p \<and> k \<notin> set (current_ids chunks p) then None else Some d)"
  using assms(2)
proof (induction ps arbitrary: c)
  case (Cons p ps)
  obtain ids where ids: "listChunkIDsByParent col c p (query_embedding chunks p) = Inr ids"
    using Cons.prems by (cases "listChunkIDsByParent col c p (query_embedding chunks p)") auto
  let ?stale = "filter (\<lambda>i. i \<notin> set (current_ids chunks p)) ids"
  obtain c1 where c1: "docs c1 = docs c |` (- set ?stale)" "drop_stale col chunks ps c1 = (None, c')"
  proof (cases "?stale = []")
    case True
    then have "docs c = docs c |` (- set ?stale)" by (simp add: restrict_map_def fun_eq_iff)
    then show ?thesis using True Cons.prems ids that [of c] by simp
  next
    case False
    then show ?thesis
      using Cons.prems ids that chromem_laws(5) [OF ok, of c ?stale]
      by (auto simp: Let_def split: prod.splits option.splits)
  qed
  show ?case
    using Cons.IH [OF c1(2)] listChunkIDs_set [OF ok ids]
    by (auto simp: c1(1) restrict_map_def split: option.splits)
qed (simp split: option.split)

lemma upsert_check_ids: "upsert_check chunks seen = None \<Longrightarrow>
    distinct (map cr_ChunkID chunks) \<and> set (map cr_ChunkID chunks) \<inter> set seen = {}"
  by (induction chunks seen rule: upsert_check.induct) (auto split: if_splits)

lemma chunkToDoc_simps [simp]:
  "cd_ID (chunkToDoc c) = cr_ChunkID c" "doc_parent (chunkToDoc c) = Some (cr_ParentID c)"
  by (simp_all add: chunkToDoc_def doc_parent_def chunkToMetadata_own)

lemma map_of_docs:
  "distinct (map cr_ChunkID chunks) \<Longrightarrow>
     map_of (map (\<lambda>d. (cd_ID d, d)) (map chunkToDoc chunks)) k = Some d \<longleftrightarrow>
       (\<exists>x \<in> set chunks. d = chunkToDoc x \<and> cr_ChunkID x = k)"
proof -
  assume d: "distinct (map cr_ChunkID chunks)"
  have "map fst (map (\<lambda>d. (cd_ID d, d)) (map chunkToDoc chunks)) = map cr_ChunkID chunks" by simp
  with d have "distinct (map fst (map (\<lambda>d. (cd_ID d, d)) (map chunkToDoc chunks)))" by (simp only:)
  then show ?thesis by (auto simp: map_of_eq_Some_iff)
qed

lemma upsert_docs:
  assumes ok: "chromem_ok col docs sim" and run: "chromem_Upsert col err1 err2 chunks c = (None, c')"
  shows "(docs c' k = Some d \<and> doc_parent d = Some p \<and> p \<in> cr_ParentID ` set chunks \<longleftrightarrow>
      (\<exists>x \<in> set chunks. d = chunkToDoc x \<and> cr_ChunkID x = k \<and> cr_ParentID x = p))
    \<and> (p \<notin> cr_ParentID ` set chunks \<longrightarrow> k \<notin> cr_ChunkID ` set chunks \<longrightarrow>
        (docs c' k = Some d \<and> doc_parent d = Some p) = (docs c k = Some d \<and> doc_parent d = Some p))"
proof (cases "chunks = []")
  case True
  then show ?thesis using run by (simp add: chromem_Upsert_def)
next
  case False
  obtain c1 where ck: "upsert_check chunks [] = None" and add: "col_Add col c (map chunkToDoc chunks) = (None, c1)"
    and st: "drop_stale col chunks (sort_compact (map cr_ParentID chunks)) c1 = (None, c')"
    using run False by (auto simp: chromem_Upsert_def split: option.splits prod.splits)
  have dist: "distinct (map cr_ChunkID chunks)" using upsert_check_ids [OF ck] by simp
  have "map cd_ID (map chunkToDoc chunks) = map cr_ChunkID chunks" by simp
  then have d1: "docs c1 = docs c ++ map_of (map (\<lambda>d. (cd_ID d, d)) (map chunkToDoc chunks))"
    using chromem_laws(4) [OF ok _ add] dist by (simp only:)
  have ids: "k \<in> set (current_ids chunks p) \<longleftrightarrow> (\<exists>x \<in> set chunks. cr_ChunkID x = k \<and> cr_ParentID x = p)" for p
    by (auto simp: current_ids_def)
  let ?b = "map_of (map (\<lambda>d. (cd_ID d, d)) (map chunkToDoc chunks)) k"
  show ?thesis
  proof (cases ?b)
    case None
    then have nb: "\<And>x. x \<in> set chunks \<Longrightarrow> cr_ChunkID x \<noteq> k"
      using map_of_docs [OF dist, of k] by fastforce
    have "docs c1 k = docs c k" using d1 None by (simp add: map_add_def)
    moreover have "k \<notin> set (current_ids chunks p)" for p using nb ids by auto
    ultimately have e: "docs c' k = (case docs c k of None \<Rightarrow> None
        | Some d \<Rightarrow> if \<exists>p \<in> cr_ParentID ` set chunks. doc_parent d = Some p then None else Some d)"
      using drop_stale_docs [OF ok st, of k] by (simp split: option.split)
    show ?thesis
    proof (cases "docs c k")
      case None
      then show ?thesis using e nb by auto
    next
      case (Some z)
      then show ?thesis
        using e nb by (cases "\<exists>p \<in> cr_ParentID ` set chunks. doc_parent z = Some p") auto
    qed
  next
    case (Some y)
    then obtain x where x: "x \<in> set chunks" "y = chunkToDoc x" "cr_ChunkID x = k"
      using map_of_docs [OF dist] by blast
    have only: "z = x" if "z \<in> set chunks" "cr_ChunkID z = k" for z
      using dist that x by (metis distinct_map inj_onD)
    have c1k: "docs c1 k = Some y" using d1 Some by (simp add: map_add_def)
    have "k \<in> set (current_ids chunks (cr_ParentID x))" using x ids by blast
    then have "\<not> (\<exists>p \<in> set (sort_compact (map cr_ParentID chunks)).
        doc_parent y = Some p \<and> k \<notin> set (current_ids chunks p))"
      using x(2) by simp
    then have c'k: "docs c' k = Some y"
      unfolding drop_stale_docs [OF ok st, of k] c1k by simp
    have "k \<in> cr_ChunkID ` set chunks" using x by blast
    moreover have "(docs c' k = Some d \<and> doc_parent d = Some p \<and> p \<in> cr_ParentID ` set chunks) =
      (\<exists>x \<in> set chunks. d = chunkToDoc x \<and> cr_ChunkID x = k \<and> cr_ParentID x = p)"
    proof
      assume "docs c' k = Some d \<and> doc_parent d = Some p \<and> p \<in> cr_ParentID ` set chunks"
      then show "\<exists>x \<in> set chunks. d = chunkToDoc x \<and> cr_ChunkID x = k \<and> cr_ParentID x = p"
        using c'k x by (intro bexI [of _ x]) auto
    next
      assume "\<exists>x \<in> set chunks. d = chunkToDoc x \<and> cr_ChunkID x = k \<and> cr_ParentID x = p"
      then obtain z where z: "z \<in> set chunks" "d = chunkToDoc z" "cr_ChunkID z = k" "cr_ParentID z = p" by blast
      with only [of z] c'k x show "docs c' k = Some d \<and> doc_parent d = Some p \<and> p \<in> cr_ParentID ` set chunks"
        by auto
    qed
    ultimately show ?thesis by blast
  qed
qed

lemma chromem_Upsert_only:
  assumes ok: "chromem_ok col docs sim" and run: "chromem_Upsert col err1 err2 chunks c = (None, c')"
  shows "ran (docs c') \<subseteq> ran (docs c) \<union> chunkToDoc ` set chunks"
proof (cases "chunks = []")
  case True
  then show ?thesis using run by (simp add: chromem_Upsert_def)
next
  case False
  obtain c1 where ck: "upsert_check chunks [] = None" and add: "col_Add col c (map chunkToDoc chunks) = (None, c1)"
    and st: "drop_stale col chunks (sort_compact (map cr_ParentID chunks)) c1 = (None, c')"
    using run False by (auto simp: chromem_Upsert_def split: option.splits prod.splits)
  have dist: "distinct (map cr_ChunkID chunks)" using upsert_check_ids [OF ck] by simp
  have "map cd_ID (map chunkToDoc chunks) = map cr_ChunkID chunks" by simp
  then have d1: "docs c1 = docs c ++ map_of (map (\<lambda>d. (cd_ID d, d)) (map chunkToDoc chunks))"
    using chromem_laws(4) [OF ok _ add] dist by (simp only:)
  have "d \<in> ran (docs c) \<union> chunkToDoc ` set chunks" if "docs c' k = Some d" for k d
  proof -
    have "docs c1 k = Some d"
      using that drop_stale_docs [OF ok st, of k] by (cases "docs c1 k") (auto split: if_splits)
    then show ?thesis using map_of_docs [OF dist, of k d] d1 by (auto simp: ran_def map_add_def split: option.splits)
  qed
  then show ?thesis unfolding ran_def by blast
qed

definition chromem_source :: "cdoc \<Rightarrow> string option" where
  "chromem_source d = cd_Metadata d key_source"

lemma delete_paths_docs:
  assumes ok: "chromem_ok col docs sim" and run: "delete_paths col ps c = (None, c')"
  shows "ran (docs c') = {d \<in> ran (docs c). chromem_source d \<notin> Some ` set ps}"
  using run
proof (induction ps arbitrary: c)
  case (Cons p ps)
  then obtain c1 where c1: "col_DeleteWhere col c [key_source \<mapsto> p] = (None, c1)" "delete_paths col ps c1 = (None, c')"
    by (auto split: prod.splits option.splits)
  have "docs c1 k = Some d \<longleftrightarrow> docs c k = Some d \<and> chromem_source d \<noteq> Some p" for k d
    using chromem_laws(6) [OF ok c1(1)] by (auto simp: map_le_def chromem_source_def split: option.splits if_splits)
  then have "ran (docs c1) = {d \<in> ran (docs c). chromem_source d \<noteq> Some p}" by (auto simp: ran_def)
  with Cons.IH [OF c1(2)] show ?case by auto
qed simp

lemma chromem_Delete_docs:
  assumes ok: "chromem_ok col docs sim" and run: "chromem_Delete col e1 e2 ps c = (None, c')"
  shows "ran (docs c') = {d \<in> ran (docs c). chromem_source d \<notin> Some ` set ps}"
proof (cases "ps = []")
  case False
  then have "delete_paths col (sort_compact ps) c = (None, c')"
    using run by (auto simp: chromem_Delete_def split: option.splits prod.splits)
  from delete_paths_docs [OF ok this] show ?thesis by simp
qed (use run in \<open>simp add: chromem_Delete_def\<close>)

subsection \<open>What a search finds\<close>

definition passes :: "real \<Rightarrow> search_filter \<Rightarrow> cdoc \<times> real \<Rightarrow> bool" where
  "passes threshold f r \<longleftrightarrow> threshold \<le> snd r \<and> matchesChunk f (resultToChunk (fst r))"

definition to_hit :: "cdoc \<times> real \<Rightarrow> search_hit" where
  "to_hit r = \<lparr>hit_Chunk = resultToChunk (fst r), hit_Score = snd r\<rparr>"

lemma collect_hits_take:
  "length hits < n \<Longrightarrow> collect_hits threshold f n rs hits =
     hits @ take (n - length hits) (map to_hit (filter (passes threshold f) rs))"
proof (induction threshold f n rs hits rule: collect_hits.induct)
  case (2 threshold f n d s rs hits)
  have p: "passes threshold f (d, s) \<longleftrightarrow> \<not> s < threshold \<and> \<not> (\<not> sf_isZero f \<and> \<not> matchesChunk f (resultToChunk d))"
    using matchesChunk_zero by (auto simp: passes_def not_less)
  show ?case
  proof (cases "passes threshold f (d, s)")
    case False
    then show ?thesis using 2 p by (auto simp: Let_def)
  next
    case True
    have "n - length hits = Suc (n - Suc (length hits))" using 2(4) by simp
    then show ?thesis using 2 p True by (auto simp: Let_def to_hit_def)
  qed
qed simp

lemma sorted_wrt_take_drop:
  "sorted_wrt P xs \<Longrightarrow> a \<in> set (take n xs) \<Longrightarrow> b \<in> set (drop n xs) \<Longrightarrow> P a b"
  by (metis append_take_drop_id sorted_wrt_append)

lemma search_result:
  assumes ok: "chromem_ok col docs sim"
    and run: "chromem_SearchWithFilter col ks q topK threshold f c = Inr hits"
  shows "int (length hits) \<le> topK"
    and "sorted_wrt (\<lambda>a b. hit_Score a \<ge> hit_Score b) hits"
    and "h \<in> set hits \<Longrightarrow> \<exists>k d. docs c k = Some d \<and> h = to_hit (d, sim q d)
           \<and> passes threshold (sf_normalized ks f) (d, sim q d)"
    and "docs c k = Some d \<Longrightarrow> passes threshold (sf_normalized ks f) (d, sim q d) \<Longrightarrow>
           to_hit (d, sim q d) \<in> set hits \<or> (int (length hits) = topK \<and> (\<forall>h \<in> set hits. sim q d \<le> hit_Score h))"
proof -
  have q: "q \<noteq> []" and pos: "0 < topK"
    using run by (auto simp: chromem_SearchWithFilter_def split: if_splits)
  let ?count = "col_Count col c" and ?F = "sf_normalized ks f"
  let ?T = "if topK > int ?count then ?count else nat topK"
  let ?n = "if \<not> sf_isZero ?F then ?count else ?T"
  have "int (length hits) \<le> topK \<and> sorted_wrt (\<lambda>a b. hit_Score a \<ge> hit_Score b) hits
    \<and> (\<forall>h \<in> set hits. \<exists>k d. docs c k = Some d \<and> h = to_hit (d, sim q d) \<and> passes threshold ?F (d, sim q d))
    \<and> (\<forall>k d. docs c k = Some d \<longrightarrow> passes threshold ?F (d, sim q d) \<longrightarrow>
         to_hit (d, sim q d) \<in> set hits \<or> (int (length hits) = topK \<and> (\<forall>h \<in> set hits. sim q d \<le> hit_Score h)))"
  proof (cases "?count = 0")
    case True
    then have "dom (docs c) = {}" using chromem_laws(1,2) [OF ok, of c] by simp
    moreover have "hits = []" using run q pos True by (simp add: chromem_SearchWithFilter_def)
    ultimately show ?thesis using pos by auto
  next
    case False
    obtain rs where rs: "col_Query col c q ?n Map.empty = Inr rs" and h: "hits = collect_hits threshold ?F ?T rs []"
      using run q pos False by (auto simp: chromem_SearchWithFilter_def Let_def split: sum.splits if_splits)
    have le: "?n \<le> ?count" by auto
    note res = chromem_query [OF ok le rs]
    let ?ok = "filter (passes threshold ?F) rs"
    have T: "0 < ?T" using pos False by auto
    then have hits: "hits = map to_hit (take ?T ?ok)" using h by (simp add: collect_hits_take take_map)
    have sorted: "sorted_wrt (\<lambda>a b. snd a \<ge> snd b) ?ok" using res(3) by (rule sorted_wrt_filter)
    have len: "length ?ok \<le> ?n" using res(1) length_filter_le le_trans by blast
    have complete: "to_hit (d, sim q d) \<in> set hits \<or> (int (length hits) = topK \<and> (\<forall>h \<in> set hits. sim q d \<le> hit_Score h))"
      if d: "docs c k = Some d" "passes threshold ?F (d, sim q d)" for k d
    proof (cases "(d, sim q d) \<in> set rs")
      case True
      then have "(d, sim q d) \<in> set ?ok" using d(2) by simp
      then consider "(d, sim q d) \<in> set (take ?T ?ok)" | "(d, sim q d) \<in> set (drop ?T ?ok)"
        by (metis append_take_drop_id set_append UnE)
      then show ?thesis
      proof cases
        case 1
        then show ?thesis unfolding hits by auto
      next
        case 2
        then have "?T < length ?ok" by (cases "?T < length ?ok") auto
        then have "?T = nat topK" using len le by (auto split: if_splits)
        then have "int (length hits) = topK" using \<open>?T < length ?ok\<close> pos unfolding hits by simp
        moreover have "sim q d \<le> hit_Score h" if "h \<in> set hits" for h
          using sorted_wrt_take_drop [OF sorted _ 2] that unfolding hits by (auto simp: to_hit_def)
        ultimately show ?thesis by blast
      qed
    next
      case no: False
      have all: "length rs = ?n" "\<forall>r \<in> set rs. sim q d \<le> snd r"
        using res(5) [OF d(1)] no by auto
      have n: "?n \<noteq> ?count"
      proof
        assume "?n = ?count"
        then have "col_Query col c q ?count Map.empty = Inr rs" using rs by (simp only:)
        from chromem_query_all [OF ok this d(1)] no show False by simp
      qed
      then have z: "sf_isZero ?F" "?n = nat topK" "?T = nat topK" by (auto split: if_splits)
      have "?ok = rs"
        using all(2) d(2) matchesChunk_zero [OF z(1)] by (force simp: filter_id_conv passes_def)
      then have "hits = map to_hit rs" using all(1) z unfolding hits by simp
      then show ?thesis using all z(2) pos by (auto simp: to_hit_def)
    qed
    have "\<exists>k d. docs c k = Some d \<and> h = to_hit (d, sim q d) \<and> passes threshold ?F (d, sim q d)"
      if "h \<in> set hits" for h
    proof -
      have "h \<in> to_hit ` set (take ?T ?ok)" using that unfolding hits by (simp only: set_map)
      then obtain r where "r \<in> set (take ?T ?ok)" "h = to_hit r" by (rule imageE) simp
      then have r: "r \<in> set ?ok" "h = to_hit r" by (blast dest: in_set_takeD)+
      then have "docs c (cd_ID (fst r)) = Some (fst r)" "r = (fst r, sim q (fst r))" using res(4) [of r] by (auto simp: prod_eq_iff)
      then show ?thesis using r by (metis (mono_tags) mem_Collect_eq set_filter)
    qed
    moreover have "int (length hits) \<le> topK" using pos unfolding hits by auto
    moreover have "sorted_wrt (\<lambda>a b. hit_Score a \<ge> hit_Score b) hits"
      unfolding hits sorted_wrt_map using sorted by (auto simp: to_hit_def intro: sorted_wrt_take)
    ultimately show ?thesis using complete by blast
  qed
  then show "int (length hits) \<le> topK" "sorted_wrt (\<lambda>a b. hit_Score a \<ge> hit_Score b) hits"
    "h \<in> set hits \<Longrightarrow> \<exists>k d. docs c k = Some d \<and> h = to_hit (d, sim q d) \<and> passes threshold ?F (d, sim q d)"
    "docs c k = Some d \<Longrightarrow> passes threshold ?F (d, sim q d) \<Longrightarrow>
       to_hit (d, sim q d) \<in> set hits \<or> (int (length hits) = topK \<and> (\<forall>h \<in> set hits. sim q d \<le> hit_Score h))"
    by blast+
qed

subsection \<open>A collection that keeps the promises\<close>

text \<open>Documents in a list, the newest version of an id first, for the witnesses.\<close>

definition ldocs :: "cdoc list \<Rightarrow> string \<rightharpoonup> cdoc" where
  "ldocs c = map_of (map (\<lambda>d. (cd_ID d, d)) c)"

definition lcurrent :: "cdoc list \<Rightarrow> cdoc list" where
  "lcurrent c = map (\<lambda>k. the (ldocs c k)) (remdups (map cd_ID c))"

definition list_collection :: "(embedding \<Rightarrow> cdoc \<Rightarrow> real) \<Rightarrow> cdoc list collection" where
  "list_collection sim =
     \<lparr>col_Add = (\<lambda>c ds. (None, ds @ c)),
      col_Query = (\<lambda>c e n m. Inr (take n (sort_key (\<lambda>r. - snd r)
         (map (\<lambda>d. (d, sim e d)) (filter (\<lambda>d. m \<subseteq>\<^sub>m cd_Metadata d) (lcurrent c)))))),
      col_DeleteIDs = (\<lambda>c ks. (None, filter (\<lambda>d. cd_ID d \<notin> set ks) c)),
      col_DeleteWhere = (\<lambda>c m. (None, filter (\<lambda>d. \<not> m \<subseteq>\<^sub>m cd_Metadata d) (lcurrent c))),
      col_Count = (\<lambda>c. length (lcurrent c))\<rparr>"

lemma ldocs_Some: "ldocs c k = Some d \<Longrightarrow> cd_ID d = k \<and> d \<in> set c"
  by (auto simp: ldocs_def dest!: map_of_SomeD)

lemma dom_ldocs: "dom (ldocs c) = cd_ID ` set c"
  by (simp add: ldocs_def dom_map_of_conv_image_fst image_image)

lemma lcurrent_ids: "map cd_ID (lcurrent c) = remdups (map cd_ID c)"
proof -
  have "cd_ID (the (ldocs c k)) = k" if "k \<in> set (map cd_ID c)" for k
    using that dom_ldocs [of c] by (metis domD image_set ldocs_Some option.sel)
  then show ?thesis by (auto simp: lcurrent_def intro!: map_idI)
qed

lemma lcurrent_set: "d \<in> set (lcurrent c) \<longleftrightarrow> ldocs c (cd_ID d) = Some d"
proof
  assume "d \<in> set (lcurrent c)"
  then obtain k where "k \<in> dom (ldocs c)" "d = the (ldocs c k)"
    by (auto simp: lcurrent_def dom_ldocs)
  then have "ldocs c k = Some d" by auto
  with ldocs_Some [OF this] show "ldocs c (cd_ID d) = Some d" by simp
next
  assume d: "ldocs c (cd_ID d) = Some d"
  have "d \<in> set c" using ldocs_Some [OF d] by simp
  then have "cd_ID d \<in> set (map cd_ID c)" by simp
  then have "the (ldocs c (cd_ID d)) \<in> set (lcurrent c)" unfolding lcurrent_def by simp
  with d show "d \<in> set (lcurrent c)" by simp
qed

lemma option_eqI: "(\<And>d. x = Some d \<longleftrightarrow> y = Some d) \<Longrightarrow> x = y"
  by (cases x; cases y) auto

lemma lcurrent_distinct: "distinct (map cd_ID (lcurrent c))"
  by (simp add: lcurrent_ids)

lemma map_of_lcurrent_filter:
  "ldocs (filter P (lcurrent c)) k = (case ldocs c k of Some d \<Rightarrow> if P d then Some d else None | None \<Rightarrow> None)"
proof -
  have dist: "distinct (map fst (map (\<lambda>d. (cd_ID d, d)) (filter P (lcurrent c))))"
    using lcurrent_distinct [of c] by (simp add: comp_def distinct_map_filter)
  have "ldocs (filter P (lcurrent c)) k = Some d \<longleftrightarrow>
      (case ldocs c k of Some d \<Rightarrow> if P d then Some d else None | None \<Rightarrow> None) = Some d" for d
  proof -
    have "ldocs (filter P (lcurrent c)) k = Some d \<longleftrightarrow> (k, d) \<in> set (map (\<lambda>d. (cd_ID d, d)) (filter P (lcurrent c)))"
      unfolding ldocs_def by (rule map_of_eq_Some_iff [OF dist])
    also have "\<dots> \<longleftrightarrow> cd_ID d = k \<and> ldocs c (cd_ID d) = Some d \<and> P d"
      using lcurrent_set [of d c] by auto
    also have "\<dots> \<longleftrightarrow> ldocs c k = Some d \<and> P d" using ldocs_Some [of c k d] by metis
    finally show ?thesis by (auto split: option.split)
  qed
  then show ?thesis by (rule option_eqI)
qed

lemma ldocs_filter: "ldocs (filter (\<lambda>d. cd_ID d \<notin> K) c) k = (if k \<in> K then None else ldocs c k)"
  by (induction c) (auto simp: ldocs_def)

lemma list_query:
  fixes sim :: "embedding \<Rightarrow> cdoc \<Rightarrow> real"
  assumes "rs = take n (sort_key (\<lambda>r. - snd r) (map (\<lambda>d. (d, sim e d)) (filter (\<lambda>d. m \<subseteq>\<^sub>m cd_Metadata d) (lcurrent c))))"
  shows "length rs \<le> n \<and> distinct (map (\<lambda>r. cd_ID (fst r)) rs) \<and> sorted_wrt (\<lambda>a b. snd a \<ge> snd b) rs
    \<and> (\<forall>r \<in> set rs. ldocs c (cd_ID (fst r)) = Some (fst r) \<and> m \<subseteq>\<^sub>m cd_Metadata (fst r) \<and> snd r = sim e (fst r))
    \<and> (\<forall>k d. ldocs c k = Some d \<longrightarrow> m \<subseteq>\<^sub>m cd_Metadata d \<longrightarrow>
         (d, sim e d) \<in> set rs \<or> (length rs = n \<and> (\<forall>r \<in> set rs. sim e d \<le> snd r)))"
proof -
  let ?f = "filter (\<lambda>d. m \<subseteq>\<^sub>m cd_Metadata d) (lcurrent c)"
  let ?xs = "map (\<lambda>d. (d, sim e d)) ?f"
  let ?s = "sort_key (\<lambda>r. - snd r) ?xs"
  have "distinct (map (\<lambda>r. cd_ID (fst r)) ?xs)"
    using lcurrent_distinct [of c] by (simp add: comp_def distinct_map_filter)
  then have d: "distinct (map (\<lambda>r. cd_ID (fst r)) ?s)"
    by (subst mset_eq_imp_distinct_iff [where ys = "map (\<lambda>r. cd_ID (fst r)) ?xs"]) (simp_all only: mset_map mset_sort)
  have srt: "sorted (map (\<lambda>r. - snd r) ?s)" by simp
  have "sorted_wrt (\<lambda>a b. snd a \<ge> snd b) ?s" using srt by (simp add: sorted_wrt_map)
  moreover have "(d, sim e d) \<in> set rs \<or> (length rs = n \<and> (\<forall>r \<in> set rs. sim e d \<le> snd r))"
    if k: "ldocs c k = Some d" "m \<subseteq>\<^sub>m cd_Metadata d" for k d
  proof -
    have "d \<in> set ?f" using k ldocs_Some [OF k(1)] by (simp add: lcurrent_set)
    then have "(d, sim e d) \<in> set ?s" by simp
    then consider "(d, sim e d) \<in> set (take n ?s)" | "(d, sim e d) \<in> set (drop n ?s)"
      by (metis append_take_drop_id set_append UnE)
    then show ?thesis
    proof cases
      case 1
      then show ?thesis using assms by simp
    next
      case 2
      then have "n < length ?s" by (cases "n < length ?s") auto
      moreover have "sim e d \<le> snd r" if "r \<in> set (take n ?s)" for r
        using sorted_wrt_take_drop [OF \<open>sorted_wrt (\<lambda>a b. snd a \<ge> snd b) ?s\<close> that 2] by simp
      ultimately show ?thesis using assms by simp
    qed
  qed
  moreover have "ldocs c (cd_ID (fst r)) = Some (fst r) \<and> m \<subseteq>\<^sub>m cd_Metadata (fst r) \<and> snd r = sim e (fst r)"
    if "r \<in> set rs" for r
  proof -
    have "r \<in> set (take n ?s)" using that assms by simp
    then have "r \<in> set ?s" by (rule in_set_takeD)
    then obtain x where "x \<in> set ?f" "r = (x, sim e x)" by auto
    then show ?thesis by (simp add: lcurrent_set)
  qed
  moreover have "distinct (map (\<lambda>r. cd_ID (fst r)) rs)" using d assms by (simp flip: take_map)
  moreover have "length rs \<le> n" using assms by simp
  moreover have "sorted_wrt (\<lambda>a b. snd a \<ge> snd b) ?s \<Longrightarrow> sorted_wrt (\<lambda>a b. snd a \<ge> snd b) rs"
    using assms by (simp add: sorted_wrt_take)
  ultimately show ?thesis by blast
qed

lemma list_collection_simps:
  "col_Add (list_collection sim) c ds = (None, ds @ c)"
  "col_DeleteIDs (list_collection sim) c ks = (None, filter (\<lambda>d. cd_ID d \<notin> set ks) c)"
  "col_DeleteWhere (list_collection sim) c m = (None, filter (\<lambda>d. \<not> m \<subseteq>\<^sub>m cd_Metadata d) (lcurrent c))"
  "col_Count (list_collection sim) c = length (lcurrent c)"
  "col_Query (list_collection sim) c e n m = Inr (take n (sort_key (\<lambda>r. - snd r)
     (map (\<lambda>d. (d, sim e d)) (filter (\<lambda>d. m \<subseteq>\<^sub>m cd_Metadata d) (lcurrent c)))))"
  by (simp_all add: list_collection_def)

lemma length_lcurrent: "length (lcurrent c) = card (dom (ldocs c))"
proof -
  have "length (lcurrent c) = length (remdups (map cd_ID c))" by (metis lcurrent_ids length_map)
  then show ?thesis by (simp add: dom_ldocs length_remdups_card_conv)
qed

lemma list_collection_ok: "chromem_ok (list_collection sim) ldocs sim"
  unfolding chromem_ok_def list_collection_simps
proof (intro conjI allI impI)
  show "finite (dom (ldocs c))" for c by (simp add: dom_ldocs)
  show "length (lcurrent c) = card (dom (ldocs c))" for c by (rule length_lcurrent)
  show "cd_ID d = k" if "ldocs c k = Some d" for c k d using ldocs_Some [OF that] by simp
  show "ldocs c' = ldocs c ++ map_of (map (\<lambda>d. (cd_ID d, d)) ds)" if "(None, ds @ c) = (None, c')" for c ds c'
    using that by (auto simp: ldocs_def)
  show "ldocs c' = ldocs c |` (- set ks)" if "(None, filter (\<lambda>d. cd_ID d \<notin> set ks) c) = (None, c')" for c ks c'
    using that by (auto simp: fun_eq_iff ldocs_filter restrict_map_def)
  show "ldocs c' = (\<lambda>k. case ldocs c k of None \<Rightarrow> None | Some d \<Rightarrow> if m \<subseteq>\<^sub>m cd_Metadata d then None else Some d)"
    if "(None, filter (\<lambda>d. \<not> m \<subseteq>\<^sub>m cd_Metadata d) (lcurrent c)) = (None, c')" for c m c'
    using that by (auto simp: fun_eq_iff map_of_lcurrent_filter split: option.split)
next
  fix c e n m rs
  assume "Inr (take n (sort_key (\<lambda>r. - snd r)
     (map (\<lambda>d. (d, sim e d)) (filter (\<lambda>d. m \<subseteq>\<^sub>m cd_Metadata d) (lcurrent c))))) = Inr rs"
  then have "rs = take n (sort_key (\<lambda>r. - snd r)
     (map (\<lambda>d. (d, sim e d)) (filter (\<lambda>d. m \<subseteq>\<^sub>m cd_Metadata d) (lcurrent c))))" by simp
  note q = list_query [where sim = sim and e = e and m = m and c = c and n = n, OF this]
  show "length rs \<le> n" "distinct (map (\<lambda>r. cd_ID (fst r)) rs)" "sorted_wrt (\<lambda>a b. snd b \<le> snd a) rs"
    "\<forall>r \<in> set rs. ldocs c (cd_ID (fst r)) = Some (fst r) \<and> m \<subseteq>\<^sub>m cd_Metadata (fst r) \<and> snd r = sim e (fst r)"
    using q by blast+
  show "(d, sim e d) \<in> set rs \<or> length rs = n \<and> (\<forall>r \<in> set rs. sim e d \<le> snd r)"
    if "ldocs c k = Some d" "m \<subseteq>\<^sub>m cd_Metadata d" for k d
    using q that by blast
qed

subsection \<open>Properties\<close>

text \<open>A chunk survives storage: the document it is encoded as decodes to the same chunk, user
  metadata included, whatever its keys are.\<close>

theorem chunk_encoding_roundtrip:
  assumes "int64_range (cr_StartRune c)" "int64_range (cr_EndRune c)"
  shows "resultToChunk (chunkToDoc c) = c"
  using assms by (intro result_of_doc) (simp add: storable_def)

definition demo_record :: "string \<Rightarrow> string \<Rightarrow> string \<Rightarrow> chunk_record" where
  "demo_record cid parent path = \<lparr>cr_ChunkID = cid, cr_ParentID = parent, cr_SourcePath = path, cr_Title = ''t'',
     cr_Text = ''x'', cr_StartRune = 0, cr_EndRune = 1, cr_Metadata = [''rag_title'' \<mapsto> ''user''], cr_Embedding = [1]\<rparr>"

theorem chunk_encoding_roundtrip_witness:
  "resultToChunk (chunkToDoc (demo_record ''p:0'' ''p'' ''/kb/p'')) = demo_record ''p:0'' ''p'' ''/kb/p''"
  by (rule chunk_encoding_roundtrip) (simp_all add: demo_record_def int64_range_def)


lemma lcurrent_single: "lcurrent [d] = [d]"
  by (simp add: lcurrent_def ldocs_def)

lemma demo_upsert:
  "chromem_Upsert (list_collection (\<lambda>_ _. 1)) None None [demo_record ''p:0'' ''p'' ''/kb/p'']
     [chunkToDoc (demo_record ''p:1'' ''p'' ''/kb/p'')] = (None, [chunkToDoc (demo_record ''p:0'' ''p'' ''/kb/p'')])"
proof -
  let ?new = "chunkToDoc (demo_record ''p:0'' ''p'' ''/kb/p'')" and ?old = "chunkToDoc (demo_record ''p:1'' ''p'' ''/kb/p'')"
  have cur: "lcurrent [?new, ?old] = [?new, ?old]"
    by (simp add: lcurrent_def ldocs_def) (simp add: demo_record_def)
  have w: "[key_parent \<mapsto> ''p''] \<subseteq>\<^sub>m cd_Metadata ?new" "[key_parent \<mapsto> ''p''] \<subseteq>\<^sub>m cd_Metadata ?old"
    by (simp_all add: where_parent demo_record_def)
  have ids: "cd_ID ?new = ''p:0''" "cd_ID ?old = ''p:1''" by (simp_all add: demo_record_def)
  have list: "listChunkIDsByParent (list_collection (\<lambda>_ _. 1)) [?new, ?old] ''p'' q = Inr [''p:0'', ''p:1'']" for q
    by (simp only: listChunkIDsByParent_def list_collection_simps cur) (simp add: w, simp add: demo_record_def)
  have ck: "upsert_check [demo_record ''p:0'' ''p'' ''/kb/p''] [] = None"
    "sort_compact (map cr_ParentID [demo_record ''p:0'' ''p'' ''/kb/p'']) = [''p'']"
    "current_ids [demo_record ''p:0'' ''p'' ''/kb/p''] ''p'' = [''p:0'']"
    by (simp_all add: demo_record_def sort_compact_def current_ids_def)
  have stale: "drop_stale (list_collection (\<lambda>_ _. 1)) [demo_record ''p:0'' ''p'' ''/kb/p''] [''p''] [?new, ?old] = (None, [?new])"
    by (simp only: drop_stale.simps list ck(3) sum.case Let_def list_collection_simps)
       (simp, simp add: demo_record_def)
  have parents: "sort_compact [cr_ParentID (demo_record ''p:0'' ''p'' ''/kb/p'')] = [''p'']"
    using ck(2) by simp
  show ?thesis
    by (simp add: chromem_Upsert_def ck(1) list_collection_simps parents stale del: drop_stale.simps)
       (simp add: demo_record_def)
qed


text \<open>C12: A search returns at most topK stored chunks, best first, each at or above the threshold and
  passing the normalised filter; a stored chunk that passes both and is missing is no more
  similar than any of the topK that are returned, so a filter never costs results.\<close>

theorem search_is_filtered_top_k:
  assumes "chromem_ok col docs sim"
    and "chromem_SearchWithFilter col ks q topK threshold f c = Inr hits"
  shows "int (length hits) \<le> topK \<and> sorted_wrt (\<lambda>a b. hit_Score a \<ge> hit_Score b) hits
    \<and> (\<forall>h \<in> set hits. \<exists>k d. docs c k = Some d \<and> h = to_hit (d, sim q d)
         \<and> threshold \<le> hit_Score h \<and> matchesChunk (sf_normalized ks f) (hit_Chunk h))
    \<and> (\<forall>k d. docs c k = Some d \<longrightarrow> threshold \<le> sim q d \<longrightarrow> matchesChunk (sf_normalized ks f) (resultToChunk d) \<longrightarrow>
         to_hit (d, sim q d) \<in> set hits \<or> (int (length hits) = topK \<and> (\<forall>h \<in> set hits. sim q d \<le> hit_Score h)))"
proof -
  note res = search_result [OF assms]
  have "\<exists>k d. docs c k = Some d \<and> h = to_hit (d, sim q d) \<and> threshold \<le> hit_Score h
      \<and> matchesChunk (sf_normalized ks f) (hit_Chunk h)" if "h \<in> set hits" for h
  proof -
    obtain k d where "docs c k = Some d" "h = to_hit (d, sim q d)" "passes threshold (sf_normalized ks f) (d, sim q d)"
      using res(3) \<open>h \<in> set hits\<close> by blast
    then show ?thesis by (intro exI [of _ k] exI [of _ d]) (simp add: passes_def to_hit_def)
  qed
  then show ?thesis using res(1,2,4) by (auto simp: passes_def)
qed

theorem search_is_filtered_top_k_witness:
  "\<exists>hits. chromem_SearchWithFilter (list_collection (\<lambda>_ _. 1)) [] [1] 1 0 empty_filter
      [chunkToDoc (demo_record ''p:0'' ''p'' ''/kb/p'')] = Inr hits \<and> int (length hits) \<le> 1"
proof -
  obtain hits where h: "chromem_SearchWithFilter (list_collection (\<lambda>_ _. 1)) [] [1] 1 0 empty_filter
      [chunkToDoc (demo_record ''p:0'' ''p'' ''/kb/p'')] = Inr hits"
    by (simp add: chromem_SearchWithFilter_def list_collection_simps lcurrent_single Let_def)
  from search_is_filtered_top_k [OF list_collection_ok h] h show ?thesis by auto
qed

subsection \<open>Opening\<close>

text \<open>The database module opens a database, in memory for \<open>None\<close> and else in a directory, and gives a collection of it.\<close>

record store_config =
  stc_DataDir :: string
  stc_Collection :: string

definition newChromemStore ::
  "(string option \<Rightarrow> 'd result) \<Rightarrow> ('d \<Rightarrow> string \<Rightarrow> 'c result) \<Rightarrow> store_config \<Rightarrow> ('d \<times> 'c) result" where
  "newChromemStore open_db collection cfg =
     (let name = (if stc_Collection cfg = '''' then ''knowledge'' else stc_Collection cfg);
          db = (if stc_DataDir cfg = '''' then open_db None
                else map_sum (wrap_err ''create persistent chromem db'') id (open_db (Some (path_clean (stc_DataDir cfg @ ''/chromem'')))))
      in case db of
           Inl e \<Rightarrow> Inl e
         | Inr d \<Rightarrow> (case collection d name of
              Inl e \<Rightarrow> Inl (wrap_err (''get or create collection '' @ quoted name) e)
            | Inr c \<Rightarrow> Inr (d, c)))"

end
