(* ===== verification/AccessBoundary.thy ===== *)
theory AccessBoundary
  imports Store
begin

section \<open>The access boundary\<close>

text \<open>
  \<^verbatim>\<open>access_boundary.go\<close>: a static namespace and static source limits, and an optional
  policy that may transform files and constrain searches. The policy is a parameter. The
  lemmas follow a filter from the boundary through the normalisation of the vector store to
  the chunks it lets through.
\<close>

abbreviation namespaceKey :: string where "namespaceKey \<equiv> ''rag_namespace''"
abbreviation noMatchSource :: string where "noMatchSource \<equiv> ''/__ragagent_no_match__''"

record access_request =
  ar_SessionID :: string
  ar_Query :: string
  ar_Filter :: search_filter
  ar_MemoryScope :: memory_scope

record access_policy =
  ap_TransformKnowledgeFile :: "knowledge_file \<Rightarrow> knowledge_file result"
  ap_ConstrainRetrieval :: "access_request \<Rightarrow> search_filter result"

record access_boundary =
  ab_Namespace :: string
  ab_AllowedSourcePaths :: "string list"
  ab_AllowedSourcePrefixes :: "string list"
  ab_Policy :: "access_policy option"

definition normalizeStringSlice :: "string list \<Rightarrow> string list" where
  "normalizeStringSlice xs = map trim_space (filter (\<lambda>s. \<not> blank s) xs)"

definition ab_normalized :: "access_boundary \<Rightarrow> access_boundary" where
  "ab_normalized c = c\<lparr>ab_Namespace := trim_space (ab_Namespace c),
     ab_AllowedSourcePaths := normalizeStringSlice (ab_AllowedSourcePaths c),
     ab_AllowedSourcePrefixes := normalizeStringSlice (ab_AllowedSourcePrefixes c)\<rparr>"

definition applyNamespaceMetadata :: "metadata \<Rightarrow> string \<Rightarrow> metadata" where
  "applyNamespaceMetadata m ns = (if blank ns then m else m(namespaceKey \<mapsto> ns))"

definition applyToKnowledgeFile :: "access_boundary \<Rightarrow> knowledge_file \<Rightarrow> knowledge_file result" where
  "applyToKnowledgeFile c file =
     (let c = ab_normalized c in
      case (case ab_Policy c of None \<Rightarrow> Inr file | Some p \<Rightarrow> ap_TransformKnowledgeFile p file) of
        Inl e \<Rightarrow> Inl e
      | Inr f \<Rightarrow> Inr (f\<lparr>kf_Metadata := applyNamespaceMetadata (kf_Metadata f) (ab_Namespace c)\<rparr>))"

definition mergeAllowedPaths :: "string list \<Rightarrow> string list \<Rightarrow> string list" where
  "mergeAllowedPaths current allowed =
     (if allowed = [] then current else if current = [] then allowed
      else (let out = filter (\<lambda>p. p \<in> set allowed) current in if out = [] then [noMatchSource] else out))"

definition mergeAllowedPrefixes :: "string list \<Rightarrow> string list \<Rightarrow> string list" where
  "mergeAllowedPrefixes current allowed =
     (if allowed = [] then current else if current = [] then allowed
      else (let out = filter (\<lambda>p. \<exists>a \<in> set allowed. has_prefix p a \<or> has_prefix a p) current
            in if out = [] then [noMatchSource] else out))"

definition applyStaticToRootFilter :: "access_boundary \<Rightarrow> search_filter \<Rightarrow> search_filter" where
  "applyStaticToRootFilter c f =
     \<lparr>sf_SourcePaths = mergeAllowedPaths (sf_SourcePaths f) (ab_AllowedSourcePaths c),
      sf_SourcePrefixes = mergeAllowedPrefixes (sf_SourcePrefixes f) (ab_AllowedSourcePrefixes c),
      sf_Metadata = (if ab_Namespace c \<noteq> '''' then (sf_Metadata f)(namespaceKey \<mapsto> ab_Namespace c)
                     else sf_Metadata f)\<rparr>"

definition applyToRetrieval :: "access_boundary \<Rightarrow> access_request \<Rightarrow> search_filter result" where
  "applyToRetrieval c req =
     (let c = ab_normalized c; f = applyStaticToRootFilter c (ar_Filter req) in
      case ab_Policy c of None \<Rightarrow> Inr f
      | Some p \<Rightarrow> (case ap_ConstrainRetrieval p (req\<lparr>ar_Filter := f\<rparr>) of
           Inl e \<Rightarrow> Inl e | Inr next' \<Rightarrow> Inr (applyStaticToRootFilter c next')))"

subsection \<open>What the boundary enforces\<close>

lemma applyToRetrieval_static:
  "applyToRetrieval c req = Inr f \<Longrightarrow> \<exists>g. f = applyStaticToRootFilter (ab_normalized c) g"
  by (auto simp: applyToRetrieval_def Let_def split: option.splits sum.splits)

lemma mergeAllowedPaths_bound:
  "allowed \<noteq> [] \<Longrightarrow> mergeAllowedPaths current allowed \<noteq> [] \<and>
     set (mergeAllowedPaths current allowed) \<subseteq> insert noMatchSource (set allowed)"
  by (auto simp: mergeAllowedPaths_def Let_def)

lemma normalizeStringSlice_words: "s \<in> set (normalizeStringSlice xs) \<Longrightarrow> trim_space s = s \<and> \<not> blank s"
  by (auto simp: normalizeStringSlice_def)

lemma normalize_paths_nonblank:
  "\<forall>p \<in> set ps. trim_space p = p \<and> \<not> blank p \<Longrightarrow> set (normalizeSearchFilterPaths ps) = path_clean ` set ps"
  by (force simp: normalizeSearchFilterPaths_def image_iff)

lemma noMatch_word: "trim_space noMatchSource = noMatchSource \<and> \<not> blank noMatchSource"
  by (simp add: trim_space_def blank_def trim_left_def is_space_def code_of_def)

lemma normalize_metadata_key:
  assumes "\<forall>k \<in> dom m. trim_space k = k \<and> k \<noteq> ''''" "distinct ks" "dom m \<subseteq> set ks" "m k = Some v"
  shows "normalize_metadata ks m k = Some (trim_space v)"
  using normalize_metadata_trimmed [OF assms(1,2), of k] assms(3,4) by auto

text \<open>A chunk that the store lets through the boundary's filter lies inside the boundary.\<close>

lemma boundary_paths:
  assumes f: "applyToRetrieval c req = Inr f" and allowed: "ab_AllowedSourcePaths (ab_normalized c) \<noteq> []"
    and m: "matchesChunk (sf_normalized ks f) x"
  shows "path_clean (cr_SourcePath x) \<in> path_clean ` insert noMatchSource (set (ab_AllowedSourcePaths (ab_normalized c)))"
proof -
  obtain g where g: "f = applyStaticToRootFilter (ab_normalized c) g" using applyToRetrieval_static [OF f] ..
  let ?A = "ab_AllowedSourcePaths (ab_normalized c)"
  have sub: "sf_SourcePaths f \<noteq> []" "set (sf_SourcePaths f) \<subseteq> insert noMatchSource (set ?A)"
    using mergeAllowedPaths_bound [OF allowed, of "sf_SourcePaths g"] by (simp_all add: g applyStaticToRootFilter_def)
  have "\<forall>p \<in> set ?A. trim_space p = p \<and> \<not> blank p"
    by (auto simp: ab_normalized_def dest: normalizeStringSlice_words)
  then have "\<forall>p \<in> set (sf_SourcePaths f). trim_space p = p \<and> \<not> blank p" using sub(2) noMatch_word by blast
  then have n: "set (normalizeSearchFilterPaths (sf_SourcePaths f)) = path_clean ` set (sf_SourcePaths f)"
    by (rule normalize_paths_nonblank)
  then have "normalizeSearchFilterPaths (sf_SourcePaths f) \<noteq> []" using sub(1) by (metis image_is_empty set_empty)
  then have "path_clean (cr_SourcePath x) \<in> path_clean ` set (sf_SourcePaths f)"
    using m n by (simp add: matchesChunk_def sf_normalized_def)
  then show ?thesis using sub(2) by blast
qed

lemma boundary_namespace:
  assumes f: "applyToRetrieval c req = Inr f" and ns: "\<not> blank (ab_Namespace c)"
    and keys: "\<forall>k \<in> dom (sf_Metadata f). trim_space k = k \<and> k \<noteq> ''''"
    and ks: "distinct ks" "dom (sf_Metadata f) \<subseteq> set ks"
    and m: "matchesChunk (sf_normalized ks f) x"
  shows "cr_Metadata x namespaceKey = Some (trim_space (ab_Namespace c))"
proof -
  obtain g where g: "f = applyStaticToRootFilter (ab_normalized c) g" using applyToRetrieval_static [OF f] ..
  have "sf_Metadata f namespaceKey = Some (trim_space (ab_Namespace c))"
    using ns by (simp add: g applyStaticToRootFilter_def ab_normalized_def)
  then have "normalize_metadata ks (sf_Metadata f) namespaceKey = Some (trim_space (ab_Namespace c))"
    using normalize_metadata_key [OF keys ks] by simp
  then have "lookup0 (cr_Metadata x) namespaceKey = trim_space (ab_Namespace c)"
    using m by (simp add: matchesChunk_def sf_normalized_def)
  moreover have "'''' \<noteq> trim_space (ab_Namespace c)" using ns by (metis trim_space_eq_Nil)
  ultimately show ?thesis by (auto simp: lookup0_def split: option.splits)
qed

lemma knowledge_file_namespace:
  "applyToKnowledgeFile c file = Inr f \<Longrightarrow> \<not> blank (ab_Namespace c) \<Longrightarrow>
     kf_Metadata f namespaceKey = Some (trim_space (ab_Namespace c))"
  by (auto simp: applyToKnowledgeFile_def applyNamespaceMetadata_def ab_normalized_def Let_def split: sum.splits)

subsection \<open>Properties\<close>


definition demo_boundary :: access_boundary where
  "demo_boundary = \<lparr>ab_Namespace = ''a'', ab_AllowedSourcePaths = [], ab_AllowedSourcePrefixes = [''/kb/t1''], ab_Policy = None\<rparr>"

definition demo_request :: "search_filter \<Rightarrow> access_request" where
  "demo_request f = \<lparr>ar_SessionID = ''s'', ar_Query = ''q'', ar_Filter = f, ar_MemoryScope = \<lparr>ms_UserID = '''', ms_Tenant = ''''\<rparr>\<rparr>"

lemma demo_words [simp]: "trim_space ''a'' = ''a''" "\<not> blank ''a''" "trim_space namespaceKey = namespaceKey"
    "trim_space ''/kb/t1'' = ''/kb/t1''" "\<not> blank ''/kb/t1''"
  by (simp_all add: trim_space_def blank_def trim_left_def is_space_def code_of_def)

lemma demo_retrieval: "applyToRetrieval demo_boundary (demo_request empty_filter) =
    Inr \<lparr>sf_SourcePaths = [], sf_SourcePrefixes = [''/kb/t1''], sf_Metadata = [namespaceKey \<mapsto> ''a'']\<rparr>"
  by (simp add: applyToRetrieval_def demo_boundary_def demo_request_def ab_normalized_def normalizeStringSlice_def
      applyStaticToRootFilter_def mergeAllowedPaths_def mergeAllowedPrefixes_def empty_filter_def)

definition demo_own :: cdoc where
  "demo_own = chunkToDoc ((demo_record ''p:0'' ''p'' ''/kb/t1/p'')\<lparr>cr_Metadata := [namespaceKey \<mapsto> ''a'']\<rparr>)"

lemma demo_own_chunk: "resultToChunk demo_own = (demo_record ''p:0'' ''p'' ''/kb/t1/p'')\<lparr>cr_Metadata := [namespaceKey \<mapsto> ''a'']\<rparr>"
  unfolding demo_own_def by (rule result_of_doc) (simp add: storable_def demo_record_def int64_range_def)

lemma demo_normalized:
  "sf_normalized [namespaceKey] \<lparr>sf_SourcePaths = [], sf_SourcePrefixes = [''/kb/t1''], sf_Metadata = [namespaceKey \<mapsto> ''a'']\<rparr>
     = \<lparr>sf_SourcePaths = [], sf_SourcePrefixes = [''/kb/t1''], sf_Metadata = [namespaceKey \<mapsto> ''a'']\<rparr>"
proof -
  have "path_clean ''/kb/t1'' = ''/kb/t1''"
    by (simp add: path_clean_def components_def is_abs_def has_prefix_def render_def)
  then show ?thesis by (simp add: sf_normalized_def normalizeSearchFilterPaths_def sort_compact_def)
qed

lemma demo_search:
  "chromem_SearchWithFilter (list_collection (\<lambda>_ _. 1)) [namespaceKey] [1] 1 0
     \<lparr>sf_SourcePaths = [], sf_SourcePrefixes = [''/kb/t1''], sf_Metadata = [namespaceKey \<mapsto> ''a'']\<rparr> [demo_own]
   = Inr [to_hit (demo_own, 1)]"
proof -
  have p: "sourcePathMatchesPrefix ''/kb/t1/p'' ''/kb/t1''"
    by (simp add: sourcePathMatchesPrefix_def path_clean_def components_def is_abs_def has_prefix_def render_def)
  have m: "matchesChunk \<lparr>sf_SourcePaths = [], sf_SourcePrefixes = [''/kb/t1''], sf_Metadata = [namespaceKey \<mapsto> ''a'']\<rparr> (resultToChunk demo_own)"
    unfolding demo_own_chunk using p by (simp add: matchesChunk_def demo_record_def lookup0_def)
  then show ?thesis
    by (simp add: chromem_SearchWithFilter_def list_collection_simps lcurrent_single Let_def demo_normalized to_hit_def)
qed


text \<open>The namespace can be left with a metadata key that only differs by white space: the request
  filter {" rag_namespace": "b"} passes the boundary of namespace "a", and one iteration
  order of the store's normalisation turns it into a filter for namespace "b".\<close>

lemma namespace_escape_by_untrimmed_key:
  "\<exists>req f ks. ab_Namespace demo_boundary = ''a'' \<and> applyToRetrieval demo_boundary req = Inr f
     \<and> distinct ks \<and> set ks = dom (sf_Metadata f)
     \<and> sf_Metadata (sf_normalized ks f) = [namespaceKey \<mapsto> ''b'']"
proof (intro exI conjI)
  let ?req = "demo_request (empty_filter\<lparr>sf_Metadata := ['' rag_namespace'' \<mapsto> ''b'']\<rparr>)"
  let ?f = "\<lparr>sf_SourcePaths = [], sf_SourcePrefixes = [''/kb/t1''],
     sf_Metadata = ['' rag_namespace'' \<mapsto> ''b'', namespaceKey \<mapsto> ''a'']\<rparr>"
  have t: "trim_space '' rag_namespace'' = namespaceKey" "trim_space ''b'' = ''b''"
    by (simp_all add: trim_space_def trim_left_def is_space_def code_of_def)
  show "ab_Namespace demo_boundary = ''a''" by (simp add: demo_boundary_def)
  show "applyToRetrieval demo_boundary ?req = Inr ?f"
    by (simp add: applyToRetrieval_def demo_boundary_def demo_request_def ab_normalized_def normalizeStringSlice_def
        applyStaticToRootFilter_def mergeAllowedPaths_def mergeAllowedPrefixes_def empty_filter_def)
  show "distinct [namespaceKey, '' rag_namespace'']" "set [namespaceKey, '' rag_namespace''] = dom (sf_Metadata ?f)"
    by auto
  show "sf_Metadata (sf_normalized [namespaceKey, '' rag_namespace''] ?f) = [namespaceKey \<mapsto> ''b'']"
    by (simp add: sf_normalized_def t Let_def fun_eq_iff)
qed

text \<open>With static AllowedSourcePaths every chunk that a search through the boundary lets pass comes
  from one of these paths (up to path cleaning), whatever the request and the policy ask for.\<close>

theorem allowed_paths_bound_results:
  assumes "applyToRetrieval c req = Inr f" and "ab_AllowedSourcePaths (ab_normalized c) \<noteq> []"
    and "matchesChunk (sf_normalized ks f) x"
  shows "path_clean (cr_SourcePath x) \<in> path_clean ` insert noMatchSource (set (ab_AllowedSourcePaths (ab_normalized c)))"
  by (rule boundary_paths [OF assms])

theorem allowed_paths_bound_results_witness:
  "path_clean ''/kb/t1'' \<in> path_clean ` {noMatchSource, ''/kb/t1''}"
proof -
  let ?c = "demo_boundary\<lparr>ab_AllowedSourcePaths := [''/kb/t1''], ab_AllowedSourcePrefixes := [], ab_Namespace := ''''\<rparr>"
  let ?x = "demo_record ''p:0'' ''p'' ''/kb/t1''"
  have n: "ab_AllowedSourcePaths (ab_normalized ?c) = [''/kb/t1'']"
    by (simp add: ab_normalized_def normalizeStringSlice_def)
  have c: "path_clean ''/kb/t1'' = ''/kb/t1''"
    by (simp add: path_clean_def components_def is_abs_def has_prefix_def render_def)
  have r: "applyToRetrieval ?c (demo_request empty_filter) = Inr (empty_filter\<lparr>sf_SourcePaths := [''/kb/t1'']\<rparr>)"
    by (simp add: applyToRetrieval_def demo_boundary_def demo_request_def ab_normalized_def normalizeStringSlice_def
        applyStaticToRootFilter_def mergeAllowedPaths_def mergeAllowedPrefixes_def empty_filter_def)
  have "matchesChunk (sf_normalized [] (empty_filter\<lparr>sf_SourcePaths := [''/kb/t1'']\<rparr>)) ?x"
    by (simp add: matchesChunk_def sf_normalized_def empty_filter_def normalizeSearchFilterPaths_def sort_compact_def c demo_record_def)
  from allowed_paths_bound_results [OF r _ this] n
  show ?thesis by (simp add: demo_record_def)
qed

text \<open>The static AllowedSourcePrefixes are no upper bound: with the prefix "/kb/t1" allowed, a request
  for "/kb" gets every chunk below /kb, and a request for the empty prefix is not filtered by
  source at all.\<close>

lemma allowed_prefixes_can_be_widened:
  "\<exists>f g. applyToRetrieval demo_boundary (demo_request (empty_filter\<lparr>sf_SourcePrefixes := [''/kb'']\<rparr>)) = Inr f
     \<and> sf_SourcePrefixes (sf_normalized [] f) = [''/kb'']
     \<and> sourcePathMatchesPrefix ''/kb/t2/secret'' ''/kb''
     \<and> applyToRetrieval demo_boundary (demo_request (empty_filter\<lparr>sf_SourcePrefixes := ['''']\<rparr>)) = Inr g
     \<and> sf_SourcePrefixes (sf_normalized [] g) = []"
proof -
  have w: "trim_space ''/kb'' = ''/kb''" "\<not> blank ''/kb''" "path_clean ''/kb'' = ''/kb''"
    by (simp_all add: trim_space_def blank_def trim_left_def is_space_def code_of_def path_clean_def
        components_def is_abs_def has_prefix_def render_def)
  have p: "sourcePathMatchesPrefix ''/kb/t2/secret'' ''/kb''"
    by (simp add: sourcePathMatchesPrefix_def path_clean_def components_def is_abs_def has_prefix_def render_def)
  show ?thesis
    by (simp add: applyToRetrieval_def demo_boundary_def demo_request_def ab_normalized_def normalizeStringSlice_def
        applyStaticToRootFilter_def mergeAllowedPaths_def mergeAllowedPrefixes_def empty_filter_def has_prefix_def
        sf_normalized_def normalizeSearchFilterPaths_def sort_compact_def w p)
qed

end
