(* ===== verification/Retriever.thy ===== *)
theory Retriever
  imports Retrieval Store
begin

section \<open>Retriever: hybrid search with its fallbacks\<close>

text \<open>
  \<^verbatim>\<open>rootRetriever.SearchDetailed\<close> of \<^verbatim>\<open>agent.go\<close> with the wrappers \<^verbatim>\<open>safeLexicalSearch\<close> and
  \<^verbatim>\<open>safeRerank\<close>, the rule-based reranker of \<^verbatim>\<open>reranker.go\<close> and the default retriever of
  \<^verbatim>\<open>retriever.go\<close>. The embedder, an injected reranker and the vector store are operations of the
  retriever's record; a panic of the reranker is the outcome \<open>Panicked\<close>, which the wrapper
  recovers. The wall-clock duration of the metrics is left out. Two locales state what the
  retriever relies on: \<open>vector_search\<close> for the store, which the chromem store provides, and
  \<open>reranking\<close>, which the rule-based reranker provides.
\<close>

subsection \<open>Panics and the rerankers\<close>

text \<open>A call under a deferred \<open>recover\<close> that turns a panic into an error.\<close>

definition recovering :: "string \<Rightarrow> 'a result outcome \<Rightarrow> 'a result" where
  "recovering what o' = (case o' of Returned r \<Rightarrow> r | Panicked v \<Rightarrow> Inl (errorf (what @ '' panic: '' @ v) []))"

type_synonym reranker = "string \<Rightarrow> search_hit list \<Rightarrow> int \<Rightarrow> int \<Rightarrow> search_hit list result outcome"

definition ruleBasedReranker :: reranker where
  "ruleBasedReranker query candidates shortlistSize topK =
     Returned (Inr (rerankShortlistWithLimit query candidates shortlistSize topK))"

definition safeLexicalSearch :: "string \<Rightarrow> search_hit list \<Rightarrow> int \<Rightarrow> search_hit list result" where
  "safeLexicalSearch query candidates topK =
     recovering ''lexical search'' (Returned (Inr (lexicalSearch query candidates topK)))"

definition safeRerank :: "reranker option \<Rightarrow> string \<Rightarrow> search_hit list \<Rightarrow> int \<Rightarrow> int \<Rightarrow> search_hit list result" where
  "safeRerank reranker query candidates shortlistSize topK = recovering ''rerank''
     (case reranker of
        None \<Rightarrow> Returned (Inr (rerankShortlistWithLimit query candidates shortlistSize topK))
      | Some r \<Rightarrow> r query candidates shortlistSize topK)"

subsection \<open>SearchDetailed\<close>

record root_retriever =
  rr_search :: "embedding \<Rightarrow> int \<Rightarrow> real \<Rightarrow> search_filter \<Rightarrow> search_hit list result"
  rr_embed :: "string list \<Rightarrow> embedding list result"
  rr_reranker :: "reranker option"
  rr_topK :: int
  rr_threshold :: real
  rr_hybrid :: bool
  rr_rerank :: bool
  rr_opts :: retrieval_options

type_synonym detailed = "search_hit list \<times> retrieval_metrics \<times> fallback_event list \<times> go_error option"

definition maxInt :: int where
  "maxInt = 2 ^ 63 - 1"

definition start_metrics :: "root_retriever \<Rightarrow> retrieval_metrics" where
  "start_metrics r = \<lparr>rm_HybridEnabled = rr_hybrid r, rm_RerankEnabled = rr_rerank r,
     rm_RawCandidateCount = 0, rm_VectorCandidateCount = 0, rm_LexicalCandidateCount = 0,
     rm_FusedCandidateCount = 0, rm_RerankShortlistCount = 0, rm_FinalHitCount = 0\<rparr>"

definition vectorOnlySearch :: "root_retriever \<Rightarrow> embedding \<Rightarrow> search_filter \<Rightarrow> search_hit list result" where
  "vectorOnlySearch r q f = (case rr_search r q (rr_topK r) (rr_threshold r) f of
     Inl e \<Rightarrow> Inl (wrap_err ''search vector store'' e) | Inr hits \<Rightarrow> Inr hits)"

text \<open>The loop that keeps the first \<open>limit\<close> hits at or above the threshold.\<close>

fun collect_above :: "real \<Rightarrow> int \<Rightarrow> search_hit list \<Rightarrow> search_hit list \<Rightarrow> search_hit list" where
  "collect_above threshold limit [] kept = kept"
| "collect_above threshold limit (h # hs) kept =
     (if hit_Score h < threshold then collect_above threshold limit hs kept
      else (let kept = kept @ [h] in
        if int (length kept) = limit then kept else collect_above threshold limit hs kept))"

definition fallback :: "fallback_stage \<Rightarrow> fallback_target \<Rightarrow> go_error \<Rightarrow> fallback_event" where
  "fallback s t e = \<lparr>fe_Stage = s, fe_FallbackTo = t, fe_Err = e\<rparr>"

text \<open>The tail of the function: fuse, rerank, cut.\<close>

definition fuse_and_rerank ::
  "root_retriever \<Rightarrow> string \<Rightarrow> search_hit list \<Rightarrow> search_hit list \<Rightarrow> int \<Rightarrow> retrieval_metrics \<Rightarrow> detailed" where
  "fuse_and_rerank r query vectorHits lexicalHits limit m =
     (let opts = ro_Normalize (rr_opts r);
          fusedHits = fuseRRFWithK vectorHits lexicalHits limit (ro_RRFK opts);
          m = m\<lparr>rm_FusedCandidateCount := length fusedHits\<rparr>
      in if rr_rerank r then
           (if ro_RerankMultiplier (rr_opts r) < 0 then
              (cut (rr_topK r) fusedHits, m,
               [fallback FallbackStageRerank FallbackTargetHybrid (errorf ''invalid rerank tuning options'' [])], None)
            else (let shortlistSize = rerankShortlistSize opts (rr_topK r) (int (length fusedHits));
                      m = m\<lparr>rm_RerankShortlistCount := nat shortlistSize\<rparr>
                  in case safeRerank (rr_reranker r) query fusedHits shortlistSize (rr_topK r) of
                       Inl e \<Rightarrow> (cut (rr_topK r) fusedHits, m, [fallback FallbackStageRerank FallbackTargetHybrid e], None)
                     | Inr hits \<Rightarrow> (hits, m, [], None)))
         else (cut (rr_topK r) fusedHits, m, [], None))"

definition searchDetailed :: "root_retriever \<Rightarrow> string \<Rightarrow> search_filter \<Rightarrow> detailed" where
  "searchDetailed r query f =
     (let m = start_metrics r in
      if blank query then ([], m, [], Some (errorf ''search query is required'' []))
      else case rr_embed r [query] of
        Inl e \<Rightarrow> ([], m, [], Some (wrap_err ''embed search query'' e))
      | Inr rows \<Rightarrow>
        (if length rows \<noteq> 1 \<or> hd rows = [] then ([], m, [], Some (errorf ''query embedding is empty'' []))
         else (let q = hd rows;
                   vector_only = (\<lambda>on_error fallbacks. case vectorOnlySearch r q f of
                     Inl e \<Rightarrow> ([], m, [], Some (on_error e))
                   | Inr hits \<Rightarrow> (hits, m\<lparr>rm_VectorCandidateCount := length hits\<rparr>, fallbacks, None))
               in if \<not> rr_hybrid r then vector_only (\<lambda>e. e) []
                  else if ro_CandidateMultiplier (rr_opts r) < 0 \<or> ro_RRFK (rr_opts r) < 0
                  then vector_only (\<lambda>e. e)
                         [fallback FallbackStageHybrid FallbackTargetVectorOnly (errorf ''invalid hybrid tuning options'' [])]
                  else case rr_search r q maxInt (- 1) f of
                    Inl e \<Rightarrow> (let e = wrap_err ''search vector store for hybrid retrieval'' e in
                      vector_only (\<lambda>_. e) [fallback FallbackStageHybrid FallbackTargetVectorOnly e])
                  | Inr allHits \<Rightarrow>
                      (let m = m\<lparr>rm_RawCandidateCount := length allHits\<rparr> in
                       if allHits = [] then ([], m, [], None)
                       else (let limit = candidateLimit (ro_Normalize (rr_opts r)) (rr_topK r);
                                 vectorHits = collect_above (rr_threshold r) limit allHits [];
                                 m = m\<lparr>rm_VectorCandidateCount := length vectorHits\<rparr>
                             in case safeLexicalSearch query allHits limit of
                                  Inl e \<Rightarrow> (cut (rr_topK r) vectorHits, m,
                                    [fallback FallbackStageHybrid FallbackTargetVectorOnly e], None)
                                | Inr lexicalHits \<Rightarrow> fuse_and_rerank r query vectorHits lexicalHits limit
                                    (m\<lparr>rm_LexicalCandidateCount := length lexicalHits\<rparr>))))))"

text \<open>\<^verbatim>\<open>defaultRetriever\<close>: an error drops the hits; \<open>Search\<close> also drops metrics and fallbacks.\<close>

definition default_SearchDetailed :: "root_retriever \<Rightarrow> string \<Rightarrow> search_filter \<Rightarrow> detailed" where
  "default_SearchDetailed r query f = (case searchDetailed r query f of
     (hits, m, fbs, Some e) \<Rightarrow> ([], m, fbs, Some e) | (hits, m, fbs, None) \<Rightarrow> (hits, m, fbs, None))"

definition default_Search :: "root_retriever \<Rightarrow> string \<Rightarrow> search_filter \<Rightarrow> search_hit list result" where
  "default_Search r query f = (case searchDetailed r query f of
     (hits, m, fbs, Some e) \<Rightarrow> Inl e | (hits, m, fbs, None) \<Rightarrow> Inr hits)"

subsection \<open>Where the hits come from\<close>

lemma collect_above_in: "x \<in> set (collect_above t n hs kept) \<Longrightarrow> x \<in> set kept \<or> x \<in> set hs \<and> t \<le> hit_Score x"
  by (induction t n hs kept rule: collect_above.induct) (auto simp: Let_def not_less split: if_splits)

definition chunks_of :: "search_hit list \<Rightarrow> chunk_record set" where
  "chunks_of hs = hit_Chunk ` set hs"

lemma chunks_of_simps [simp]:
  "chunks_of [] = {}" "chunks_of (h # hs) = insert (hit_Chunk h) (chunks_of hs)"
  "chunks_of (xs @ ys) = chunks_of xs \<union> chunks_of ys"
  by (simp_all add: chunks_of_def image_Un)

lemma chunks_of_cut: "chunks_of (cut n hs) \<subseteq> chunks_of hs"
  by (auto simp: chunks_of_def cut_take dest: in_set_takeD)

lemma chunks_of_above: "chunks_of (collect_above t n hs []) \<subseteq> chunks_of hs"
  by (auto simp: chunks_of_def dest: collect_above_in)

lemma chunks_of_lexical: "chunks_of (lexicalSearch query hs n) \<subseteq> chunks_of hs"
  by (auto simp: chunks_of_def image_iff dest!: lexicalSearch_result)

definition from_chunks :: "chunk_record set \<Rightarrow> (string \<times> fused) list \<Rightarrow> bool" where
  "from_chunks C m \<longleftrightarrow> (\<forall>(k, f) \<in> set m. hit_Chunk (fu_hit f) \<in> C)"

lemma fuse_add_from:
  assumes "from_chunks C m" "fuse_ok m" "hit_Chunk (snd rh) \<in> C"
  shows "from_chunks C (fuse_add k v rh m)"
proof -
  have "hit_Chunk (fu_hit (get_or zero_fused (hit_id (snd rh)) m)) \<in> C
      \<or> hit_id (fu_hit (get_or zero_fused (hit_id (snd rh)) m)) = ''''"
    using assms(1)
    by (auto simp: get_or_def from_chunks_def zero_fused_def zero_hit_def zero_chunk_def hit_id_def
        split: option.split dest!: map_of_SomeD)
  with assms show ?thesis
    by (cases rh) (auto simp: fuse_add_def Let_def from_chunks_def dest!: set_put)
qed

lemma fuse_fold_from:
  "from_chunks C m \<Longrightarrow> fuse_ok m \<Longrightarrow> \<forall>rh \<in> set rhs. hit_Chunk (snd rh) \<in> C \<Longrightarrow>
     from_chunks C (fold (fuse_add k v) rhs m)"
  by (induction rhs arbitrary: m) (simp_all add: fuse_add_from fuse_add_ok)

lemma chunks_of_fused: "chunks_of (fuseRRFWithK V L n k) \<subseteq> chunks_of V \<union> chunks_of L"
proof -
  have in_enum: "hit_Chunk (snd rh) \<in> chunks_of hs" if "rh \<in> set (enumerate 0 hs)" for rh hs
    using that nth_mem [of "fst rh" hs] by (auto simp: chunks_of_def in_set_enumerate_eq)
  have "from_chunks (chunks_of V \<union> chunks_of L) (fuse_map k V L)"
    unfolding fuse_map_def using in_enum
    by (intro fuse_fold_from fuse_fold_ok) (auto simp: from_chunks_def fuse_ok_def)
  then have "hit_Chunk (fu_hit f) \<in> chunks_of V \<union> chunks_of L" if "f \<in> snd ` set (fuse_map k V L)" for f
    using that by (auto simp: from_chunks_def)
  moreover have "chunks_of (fuseRRFWithK V L n k) \<subseteq> (\<lambda>f. hit_Chunk (fu_hit f)) ` snd ` set (fuse_map k V L)"
    by (auto simp: fuseRRFWithK_def cut_take chunks_of_def dest!: in_set_takeD)
  ultimately show ?thesis by blast
qed

lemma chunks_of_rerank: "chunks_of (rerankShortlistWithLimit query hs s n) \<subseteq> chunks_of hs"
  by (auto simp: rerankShortlistWithLimit_def chunks_of_def cut_take rescore_def Let_def
      split: if_splits dest!: in_set_takeD)

subsection \<open>The interfaces\<close>

definition wired :: "(embedding \<Rightarrow> int \<Rightarrow> real \<Rightarrow> search_filter \<Rightarrow> search_hit list result) \<Rightarrow> reranker option \<Rightarrow> root_retriever \<Rightarrow> bool" where
  "wired search rerank r \<longleftrightarrow> rr_search r = search \<and> rr_reranker r = rerank \<and> 0 < rr_topK r"

definition good :: "(search_filter \<Rightarrow> chunk_record \<Rightarrow> bool) \<Rightarrow> root_retriever \<Rightarrow> search_filter \<Rightarrow> search_hit list \<Rightarrow> bool" where
  "good admits r f hs \<longleftrightarrow> chunks_of hs \<subseteq> {c. admits f c} \<and> int (length hs) \<le> rr_topK r \<and> distinct (map hit_id hs)"

text \<open>What the retriever relies on in the vector store: \<open>admits f\<close> are the chunks that the store
  holds and that pass the filter \<open>f\<close>.\<close>

locale vector_search =
  fixes search :: "embedding \<Rightarrow> int \<Rightarrow> real \<Rightarrow> search_filter \<Rightarrow> search_hit list result"
    and admits :: "search_filter \<Rightarrow> chunk_record \<Rightarrow> bool"
  assumes search_admitted: "search q n t f = Inr hs \<Longrightarrow> h \<in> set hs \<Longrightarrow> admits f (hit_Chunk h) \<and> t \<le> hit_Score h"
    and search_bounded: "search q n t f = Inr hs \<Longrightarrow> int (length hs) \<le> n"
    and search_distinct: "search q n t f = Inr hs \<Longrightarrow> distinct (map hit_id hs)"
begin

lemma admitted_chunks: "search q n t f = Inr hs \<Longrightarrow> chunks_of hs \<subseteq> {c. admits f c}"
  using search_admitted by (auto simp: chunks_of_def)

end

text \<open>What it relies on in a reranker: it only orders, rescores and cuts its candidates.\<close>

locale reranking =
  fixes rerank :: "reranker option"
  assumes rerank_chunks: "safeRerank rerank query cs s n = Inr hs \<Longrightarrow> chunks_of hs \<subseteq> chunks_of cs"
    and rerank_bounded: "safeRerank rerank query cs s n = Inr hs \<Longrightarrow> 0 < n \<Longrightarrow> int (length hs) \<le> n"
    and rerank_distinct: "safeRerank rerank query cs s n = Inr hs \<Longrightarrow> distinct (map hit_id cs) \<Longrightarrow> distinct (map hit_id hs)"

locale hybrid_retrieval = vector_search search admits + reranking rerank
  for search admits rerank
begin

lemma good_Nil: "wired search rerank r \<Longrightarrow> good admits r f []"
  by (simp add: good_def wired_def)

lemma vector_only_good:
  "wired search rerank r \<Longrightarrow> vectorOnlySearch r q f = Inr hs \<Longrightarrow> good admits r f hs"
  using search_bounded search_distinct admitted_chunks
  by (auto simp: vectorOnlySearch_def good_def wired_def split: sum.splits)

lemma cut_good:
  "wired search rerank r \<Longrightarrow> chunks_of hs \<subseteq> {c. admits f c} \<Longrightarrow> distinct (map hit_id hs) \<Longrightarrow> good admits r f (cut (rr_topK r) hs)"
  using chunks_of_cut [of "rr_topK r" hs] by (auto simp: good_def wired_def cut_take take_map simp flip: take_map)

lemma fuse_and_rerank_good:
  assumes "wired search rerank r" "0 < limit" "chunks_of V \<union> chunks_of L \<subseteq> {c. admits f c}"
    and "fuse_and_rerank r query V L limit m = (hs, m', fbs, e)"
  shows "good admits r f hs"
proof -
  let ?F = "fuseRRFWithK V L limit (ro_RRFK (ro_Normalize (rr_opts r)))"
  have F: "chunks_of ?F \<subseteq> {c. admits f c}" "distinct (map hit_id ?F)"
    using chunks_of_fused [of V L limit "ro_RRFK (ro_Normalize (rr_opts r))"] assms(3) fuseRRF_result(1) [OF assms(2)] by auto
  note c = cut_good [OF assms(1) F]
  have "good admits r f hs'" if "safeRerank (rr_reranker r) query ?F s (rr_topK r) = Inr hs'" for hs' s
    using that rerank_chunks [of query ?F s "rr_topK r" hs'] rerank_bounded [of query ?F s "rr_topK r" hs']
      rerank_distinct [of query ?F s "rr_topK r" hs'] F assms(1)
    by (auto simp: good_def wired_def)
  then show ?thesis using assms(4) c by (auto simp: fuse_and_rerank_def Let_def split: if_splits sum.splits)
qed

lemma searchDetailed_good:
  assumes w: "wired search rerank r" and run: "searchDetailed r query f = (hs, m, fbs, e)"
  shows "good admits r f hs"
proof -
  note nil = good_Nil [OF w, of f]
  let ?limit = "candidateLimit (ro_Normalize (rr_opts r)) (rr_topK r)"
  have limit: "0 < ?limit" using w by (auto simp: candidateLimit_def wired_def less_max_iff_disj)
  have hybrid: "good admits r f hs'"
    if "rr_search r q maxInt (- 1) f = Inr all"
      "fuse_and_rerank r query (collect_above (rr_threshold r) ?limit all []) (lexicalSearch query all ?limit) ?limit m' = (hs', m'', fbs', e')"
    for q all m' hs' m'' fbs' e'
  proof -
    have "chunks_of all \<subseteq> {c. admits f c}" using admitted_chunks that(1) w by (auto simp: wired_def)
    then have "chunks_of (collect_above (rr_threshold r) ?limit all []) \<union> chunks_of (lexicalSearch query all ?limit)
        \<subseteq> {c. admits f c}"
      using chunks_of_above [of "rr_threshold r" ?limit all] chunks_of_lexical [of query all ?limit] by blast
    then show ?thesis by (rule fuse_and_rerank_good [OF w limit _ that(2)])
  qed
  show ?thesis
    using run unfolding searchDetailed_def Let_def
    by (auto simp: safeLexicalSearch_def recovering_def nil vector_only_good [OF w] dest: hybrid
        split: if_splits sum.splits)
qed

end

text \<open>The rule-based reranker and the chromem store keep these contracts.\<close>

lemma mset_subset_distinct: "mset xs \<subseteq># mset ys \<Longrightarrow> distinct ys \<Longrightarrow> distinct xs"
proof -
  assume "mset xs \<subseteq># mset ys" and d: "distinct ys"
  then obtain Z where "mset ys = mset xs + Z" by (metis subset_mset.le_iff_add)
  moreover obtain zs where "mset zs = Z" using ex_mset by blast
  ultimately have "mset ys = mset (xs @ zs)" by simp
  from mset_eq_imp_distinct_iff [OF this] d show "distinct xs" by simp
qed

lemma safeRerank_local: "safeRerank None query cs s n = Inr (rerankShortlistWithLimit query cs s n)"
  by (simp add: safeRerank_def recovering_def)

lemma rule_rerank_distinct: "distinct (map hit_id cs) \<Longrightarrow> distinct (map hit_id (rerankShortlistWithLimit query cs s n))"
proof (cases "0 < n \<and> 0 < s")
  case True
  assume "distinct (map hit_id cs)"
  then have "distinct (map hit_id (take (nat s) cs))" by (simp flip: take_map)
  then show ?thesis using mset_subset_distinct [OF rerank_result(1)] True by blast
qed (auto simp: rerankShortlistWithLimit_def)

lemma rule_rerank_bounded: "0 < n \<Longrightarrow> int (length (rerankShortlistWithLimit query cs s n)) \<le> n"
  by (auto simp: rerankShortlistWithLimit_def Let_def cut_take)

lemma rule_reranking: "reranking (Some ruleBasedReranker)"
  by unfold_locales
     (auto simp: safeRerank_def ruleBasedReranker_def recovering_def rule_rerank_distinct rule_rerank_bounded
       dest: subsetD [OF chunks_of_rerank])

interpretation rule: reranking "Some ruleBasedReranker"
  by (rule rule_reranking)

subsection \<open>The chromem store as a provider\<close>

definition chromem_admits ::
  "('c \<Rightarrow> string \<rightharpoonup> cdoc) \<Rightarrow> string list \<Rightarrow> 'c \<Rightarrow> search_filter \<Rightarrow> chunk_record \<Rightarrow> bool" where
  "chromem_admits docs ks c f x \<longleftrightarrow>
     (\<exists>k d. docs c k = Some d \<and> x = resultToChunk d) \<and> matchesChunk (sf_normalized ks f) x"

lemma hit_id_to_hit [simp]: "hit_id (to_hit r) = cd_ID (fst r)"
  by (simp add: to_hit_def hit_id_def resultToChunk_def)

lemma chromem_hits_distinct:
  assumes ok: "chromem_ok col docs sim" and run: "chromem_SearchWithFilter col ks q topK threshold f c = Inr hits"
  shows "distinct (map hit_id hits)"
proof (cases "col_Count col c = 0")
  case False
  let ?F = "sf_normalized ks f"
  let ?T = "if topK > int (col_Count col c) then col_Count col c else nat topK"
  let ?n = "if \<not> sf_isZero ?F then col_Count col c else ?T"
  obtain rs where rs: "col_Query col c q ?n Map.empty = Inr rs" and h: "hits = collect_hits threshold ?F ?T rs []"
    and pos: "0 < topK"
    using run False by (auto simp: chromem_SearchWithFilter_def Let_def split: sum.splits if_splits)
  have le: "?n \<le> col_Count col c" by auto
  have "0 < ?T" using False pos by auto
  then have "map hit_id hits = take ?T (map (\<lambda>r. cd_ID (fst r)) (filter (passes threshold ?F) rs))"
    using h by (simp add: collect_hits_take take_map comp_def)
  then show ?thesis
    using chromem_query(2) [OF ok le rs] by (simp add: distinct_map_filter)
qed (use run in \<open>auto simp: chromem_SearchWithFilter_def split: if_splits\<close>)

lemma chromem_vector_search:
  assumes ok: "chromem_ok col docs sim"
  shows "vector_search (\<lambda>q n t f. chromem_SearchWithFilter col ks q n t f c) (chromem_admits docs ks c)"
proof
  fix q n t f hs h
  assume run: "chromem_SearchWithFilter col ks q n t f c = Inr hs"
  show "int (length hs) \<le> n" by (rule search_result(1) [OF ok run])
  show "distinct (map hit_id hs)" by (rule chromem_hits_distinct [OF ok run])
  assume "h \<in> set hs"
  from search_result(3) [OF ok run this] show "chromem_admits docs ks c f (hit_Chunk h) \<and> t \<le> hit_Score h"
    unfolding chromem_admits_def passes_def to_hit_def by (metis fst_conv search_hit.select_convs snd_conv)
qed

lemma chromem_retrieval:
  "chromem_ok col docs sim \<Longrightarrow> reranking rr \<Longrightarrow>
     hybrid_retrieval (\<lambda>q n t f. chromem_SearchWithFilter col ks q n t f c) (chromem_admits docs ks c) rr"
  by (intro hybrid_retrieval.intro chromem_vector_search)

interpretation chromem: hybrid_retrieval
  "\<lambda>q n t f. chromem_SearchWithFilter (list_collection sim) ks q n t f c" "chromem_admits ldocs ks c"
  "Some ruleBasedReranker" for sim ks c
  by (rule chromem_retrieval [OF list_collection_ok rule_reranking])

lemma reranked_hits_good:
  assumes "chromem_ok col docs sim"
    and "rr_search r = (\<lambda>q n t f. chromem_SearchWithFilter col ks q n t f c)"
    and "reranking (rr_reranker r)" and "0 < rr_topK r"
    and "default_SearchDetailed r query f = (hits, m, fbs, e)"
  shows "good (chromem_admits docs ks c) r f hits"
proof -
  obtain hs e' where run: "searchDetailed r query f = (hs, m, fbs, e')" and "hits = hs \<or> hits = []"
    using assms(5) by (auto simp: default_SearchDetailed_def split: prod.splits option.splits)
  moreover have "wired (\<lambda>q n t f. chromem_SearchWithFilter col ks q n t f c) (rr_reranker r) r"
    using assms(2,4) by (simp add: wired_def)
  ultimately show ?thesis
    using hybrid_retrieval.searchDetailed_good [OF chromem_retrieval [OF assms(1,3)] _ run] assms(4)
    by (auto simp: good_def)
qed

lemma hybrid_hits_good:
  assumes "chromem_ok col docs sim"
    and "rr_search r = (\<lambda>q n t f. chromem_SearchWithFilter col ks q n t f c)"
    and "rr_reranker r = Some ruleBasedReranker" and "0 < rr_topK r"
    and "default_SearchDetailed r query f = (hits, m, fbs, e)"
  shows "good (chromem_admits docs ks c) r f hits"
  by (rule reranked_hits_good [OF assms(1,2) _ assms(4,5)]) (simp add: assms(3) rule_reranking)

subsection \<open>Properties\<close>

text \<open>C14: Whatever path hybrid retrieval takes (vector only, fused, reranked or one of the fallbacks),
  over a chromem store it returns at most topK hits with distinct ids, and each of them is a
  stored chunk that passes the filter of the request.\<close>

theorem retrieval_stays_in_filter:
  assumes "chromem_ok col docs sim"
    and "rr_search r = (\<lambda>q n t f. chromem_SearchWithFilter col ks q n t f c)"
    and "rr_reranker r = Some ruleBasedReranker" and "0 < rr_topK r"
    and "default_SearchDetailed r query f = (hits, m, fbs, e)"
  shows "int (length hits) \<le> rr_topK r \<and> distinct (map hit_id hits)
    \<and> (\<forall>h \<in> set hits. (\<exists>k d. docs c k = Some d \<and> hit_Chunk h = resultToChunk d)
         \<and> matchesChunk (sf_normalized ks f) (hit_Chunk h))"
  using hybrid_hits_good [OF assms] by (fastforce simp: good_def chunks_of_def chromem_admits_def)

definition demo_retriever :: "cdoc list \<Rightarrow> root_retriever" where
  "demo_retriever c = \<lparr>rr_search = (\<lambda>q n t f. chromem_SearchWithFilter (list_collection (\<lambda>_ _. 1)) [] q n t f c),
     rr_embed = (\<lambda>_. Inr [[1]]), rr_reranker = Some ruleBasedReranker, rr_topK = 1, rr_threshold = 0,
     rr_hybrid = False, rr_rerank = False,
     rr_opts = \<lparr>ro_CandidateMultiplier = 0, ro_RRFK = 0, ro_RerankMultiplier = 0\<rparr>\<rparr>"

theorem retrieval_stays_in_filter_witness:
  "\<exists>hits m. default_SearchDetailed (demo_retriever [chunkToDoc (demo_record ''p:0'' ''p'' ''/kb/p'')]) ''q'' empty_filter
      = (hits, m, [], None) \<and> length hits \<le> 1"
proof -
  let ?c = "[chunkToDoc (demo_record ''p:0'' ''p'' ''/kb/p'')]"
  have b: "\<not> blank ''q''" by code_simp
  obtain hs where "chromem_SearchWithFilter (list_collection (\<lambda>_ _. 1)) [] [1] 1 0 empty_filter ?c = Inr hs"
    by (simp add: chromem_SearchWithFilter_def list_collection_simps lcurrent_single Let_def)
  then obtain m where run: "default_SearchDetailed (demo_retriever ?c) ''q'' empty_filter = (hs, m, [], None)"
    by (simp add: default_SearchDetailed_def searchDetailed_def demo_retriever_def vectorOnlySearch_def b Let_def)
  show ?thesis
    using retrieval_stays_in_filter [OF list_collection_ok _ _ _ run, of _ "[]" ?c] run
    by (auto simp: demo_retriever_def)
qed

text \<open>C15: Hybrid retrieval degrades instead of failing: when the query embeds and the plain vector search
  works, no failure of the wide search, of the tuning options or of the reranker (not even a
  panic) makes it return an error; at most one fallback is reported, and a fallback of the hybrid
  stage returns exactly the hits of the plain vector search.\<close>

theorem retrieval_degrades_without_error:
  assumes "\<not> blank query" and "rr_embed r [query] = Inr [q]" and "q \<noteq> []"
    and "vectorOnlySearch r q f = Inr plain"
  shows "\<exists>hits m fbs. default_SearchDetailed r query f = (hits, m, fbs, None) \<and> length fbs \<le> 1
    \<and> (\<forall>b \<in> set fbs. fe_Stage b = FallbackStageRerank \<or> hits = plain)"
  using assms
  by (auto simp: default_SearchDetailed_def searchDetailed_def fuse_and_rerank_def safeLexicalSearch_def recovering_def
      fallback_def Let_def split: sum.splits)

theorem retrieval_degrades_without_error_witness:
  "\<exists>hits m fbs. default_SearchDetailed
      ((demo_retriever [])\<lparr>rr_hybrid := True, rr_search := (\<lambda>q n t f. if n = 1 then Inr [] else Inl (errorf ''io'' []))\<rparr>)
      ''q'' empty_filter = (hits, m, fbs, None) \<and> length fbs \<le> 1"
proof -
  have b: "\<not> blank ''q''" by code_simp
  show ?thesis
    using retrieval_degrades_without_error [OF b, of "(demo_retriever [])\<lparr>rr_hybrid := True,
        rr_search := (\<lambda>q n t f. if n = 1 then Inr [] else Inl (errorf ''io'' []))\<rparr>" "[1]" empty_filter "[]"]
    by (auto simp: demo_retriever_def vectorOnlySearch_def)
qed

end
