(* ===== verification/Session.thy ===== *)
theory Session
  imports History "HOL-Library.Multiset"
begin

section \<open>Session: the life cycle of sessions and of the agent\<close>

text \<open>
  The concurrent protocol of \<^verbatim>\<open>session.go\<close> and of the operation counter of \<^verbatim>\<open>agent.go\<close>. Every
  section under a mutex, every atomic load or compare-and-swap and every channel operation is
  one function on the state it touches; \<open>sys_step\<close> interleaves them. A running call is a
  member of the multiset \<open>sy_calls\<close>: an \<open>Ask\<close> on a session with the phase it has reached
  (\<^verbatim>\<open>AskWithOptions\<close>, \<^verbatim>\<open>AskStructuredWithOptions\<close> and \<^verbatim>\<open>AskStreamWithOptions\<close> share these
  phases), another operation of the agent between \<^verbatim>\<open>beginOperation\<close> and \<^verbatim>\<open>endOperation\<close>, or a
  \<^verbatim>\<open>ClearHistory\<close> that has left the session's lock and is about to clear the external store.
  What an execution computes is left open here: it may fail at any point, and it may call
  back into the session. Sessions live in a heap, so that callers can hold a session that
  the agent has forgotten.
\<close>

subsection \<open>The state\<close>

record session =
  ss_id :: string
  ss_slot :: bool
  ss_history :: history
  ss_closed :: bool
  ss_executing :: bool
  ss_emitting :: bool
  ss_pendingClear :: bool
  ss_pendingClose :: bool

text \<open>The external history store: the operations of the interface \<^verbatim>\<open>HistoryStore\<close> that the
  session calls, on a state of their own.\<close>

record 'h history_store =
  st_Append :: "'h \<Rightarrow> string \<Rightarrow> turn \<Rightarrow> go_error option \<times> 'h"
  st_Clear :: "'h \<Rightarrow> string \<Rightarrow> go_error option \<times> 'h"

record agent =
  ag_closed :: bool
  ag_inFlight :: int
  ag_callbackDepth :: int
  ag_sessions :: "string \<rightharpoonup> nat"

text \<open>\<open>Running\<close> and \<open>InCallback\<close> carry how far the commit of the history is; \<open>Committing\<close> whether the
  commit clears, \<open>Returned\<close> the turn and whether the answer is a success.\<close>

datatype progress = Uncommitted | Committed | CommitFailed

datatype phase =
    Checked | Admitted | Waiting | Running progress | InCallback progress | Committing bool
  | Returned turn bool | Ended bool | Flushing | Releasing | Leaving

datatype call = Ask nat phase | Operation | Clearer nat

datatype closer = CloserIdle | CloserDraining | CloserClosing "nat list" | CloserDone

record 'h system =
  sy_agent :: agent
  sy_heap :: "nat \<Rightarrow> session"
  sy_next :: nat
  sy_calls :: "call multiset"
  sy_closer :: closer
  sy_store :: 'h

subsection \<open>The sections of session.go\<close>

definition newSession :: "string \<Rightarrow> int \<Rightarrow> bool \<Rightarrow> session" where
  "newSession i maxRounds is_closed = \<lparr>ss_id = i, ss_slot = True, ss_history = newHistory maxRounds, ss_closed = is_closed,
     ss_executing = False, ss_emitting = False, ss_pendingClear = False, ss_pendingClose = False\<rparr>"

definition beginExecution :: "session \<Rightarrow> go_error option \<times> session" where
  "beginExecution s = (if ss_closed s then (Some (sentinel_error ''ragagent: session closed'' ErrSessionClosed), s)
     else (None, s\<lparr>ss_executing := True\<rparr>))"

definition endExecution :: "bool \<Rightarrow> turn \<Rightarrow> bool \<Rightarrow> session \<Rightarrow> session" where
  "endExecution external t appendHistory s =
     (let s = (if external then s
               else let s = (if appendHistory
                             then s\<lparr>ss_history := history_append (ss_history s) (tn_User t) (tn_Assistant t)\<rparr> else s)
                    in if ss_pendingClear s
                       then s\<lparr>ss_history := history_clear (ss_history s), ss_pendingClear := False\<rparr> else s);
          s = (if ss_pendingClose s then s\<lparr>ss_closed := True, ss_pendingClose := False\<rparr> else s)
      in s\<lparr>ss_executing := False\<rparr>)"

text \<open>The result says whether the caller has to clear the external store.\<close>

definition markHistoryClear :: "go_error option \<Rightarrow> bool \<Rightarrow> session \<Rightarrow> bool result \<times> session" where
  "markHistoryClear ctx_err local s =
     (case ctx_err of Some e \<Rightarrow> (Inl e, s)
      | None \<Rightarrow> if ss_closed s then (Inl (sentinel_error ''ragagent: session closed'' ErrSessionClosed), s)
          else if ss_executing s then (Inr False, s\<lparr>ss_pendingClear := True\<rparr>)
          else if local then (Inr False, s\<lparr>ss_history := history_clear (ss_history s)\<rparr>)
          else (Inr True, s))"

definition takePendingClear :: "session \<Rightarrow> bool \<times> session" where
  "takePendingClear s = (ss_pendingClear s, s\<lparr>ss_pendingClear := False\<rparr>)"

definition flushPendingHistoryClear :: "session \<Rightarrow> bool \<times> session" where
  "flushPendingHistoryClear s =
     (let clear = ss_pendingClear s \<and> \<not> ss_executing s
      in (clear, if clear then s\<lparr>ss_pendingClear := False\<rparr> else s))"

definition session_Close :: "session \<Rightarrow> session" where
  "session_Close s = (if ss_executing s then s\<lparr>ss_pendingClose := True\<rparr> else s\<lparr>ss_closed := True\<rparr>)"

definition commit_store :: "'h history_store \<Rightarrow> bool \<Rightarrow> string \<Rightarrow> turn \<Rightarrow> 'h \<Rightarrow> go_error option \<times> 'h" where
  "commit_store st clear i t h = (if clear then st_Clear st h i else st_Append st h i t)"

text \<open>The slot is a channel of capacity one: taking its token waits until it is there, or for the
  context (\<open>cancel\<close> below).\<close>

definition acquireExecutionSlot :: "session \<Rightarrow> session option" where
  "acquireExecutionSlot s = (if ss_slot s then Some (s\<lparr>ss_slot := False\<rparr>) else None)"

definition releaseExecutionSlot :: "session \<Rightarrow> session" where
  "releaseExecutionSlot s = s\<lparr>ss_slot := True\<rparr>"

definition isEmittingCallback :: "session \<Rightarrow> bool" where
  "isEmittingCallback s = ss_emitting s"

subsection \<open>The sections of agent.go\<close>

definition agent_closed_error :: go_error where
  "agent_closed_error = sentinel_error ''ragagent: agent closed'' ErrAgentClosed"

definition beginOperation :: "agent \<Rightarrow> go_error option \<times> agent" where
  "beginOperation a = (if ag_closed a then (Some agent_closed_error, a)
     else (None, a\<lparr>ag_inFlight := ag_inFlight a + 1\<rparr>))"

definition endOperation :: "agent \<Rightarrow> agent" where
  "endOperation a = (if ag_inFlight a \<le> 0 then a else a\<lparr>ag_inFlight := ag_inFlight a - 1\<rparr>)"

text \<open>The entry of \<^verbatim>\<open>Agent.Close\<close>: the refusal from a callback, then the compare-and-swap; the
  boolean says whether this call does the closing.\<close>

definition close_enter :: "agent \<Rightarrow> (bool result) \<times> agent" where
  "close_enter a = (if ag_callbackDepth a > 0 then (Inl (errorf ''ragagent: agent close from callback is not supported'' []), a)
     else if ag_closed a then (Inr False, a) else (Inr True, a\<lparr>ag_closed := True\<rparr>))"

definition enter_callback :: "nat \<Rightarrow> 'h system \<Rightarrow> 'h system" where
  "enter_callback p s = s\<lparr>sy_agent := (sy_agent s)\<lparr>ag_callbackDepth := ag_callbackDepth (sy_agent s) + 1\<rparr>,
     sy_heap := (sy_heap s)(p := (sy_heap s p)\<lparr>ss_emitting := True\<rparr>)\<rparr>"

definition leave_callback :: "nat \<Rightarrow> 'h system \<Rightarrow> 'h system" where
  "leave_callback p s = s\<lparr>sy_agent := (sy_agent s)\<lparr>ag_callbackDepth := ag_callbackDepth (sy_agent s) - 1\<rparr>,
     sy_heap := (sy_heap s)(p := (sy_heap s p)\<lparr>ss_emitting := False\<rparr>)\<rparr>"

definition getSession :: "int \<Rightarrow> string \<Rightarrow> 'h system \<Rightarrow> nat \<times> 'h system" where
  "getSession maxRounds i s =
     (let p = sy_next s; fresh = (\<lambda>is_closed. s\<lparr>sy_heap := (sy_heap s)(p := newSession i maxRounds is_closed), sy_next := Suc p\<rparr>)
      in if ag_closed (sy_agent s) then (p, fresh True)
         else case ag_sessions (sy_agent s) i of
           Some q \<Rightarrow> (q, s)
         | None \<Rightarrow> (p, (fresh False)\<lparr>sy_agent := (sy_agent s)\<lparr>ag_sessions := (ag_sessions (sy_agent s))(i \<mapsto> p)\<rparr>\<rparr>))"

definition upd :: "nat \<Rightarrow> session \<Rightarrow> 'h system \<Rightarrow> 'h system" where
  "upd p ss s = s\<lparr>sy_heap := (sy_heap s)(p := ss)\<rparr>"

definition move :: "call \<Rightarrow> call option \<Rightarrow> 'h system \<Rightarrow> 'h system" where
  "move c d s = s\<lparr>sy_calls := sy_calls s - {#c#} + (case d of None \<Rightarrow> {#} | Some d \<Rightarrow> {#d#})\<rparr>"

subsection \<open>The interleavings\<close>

record 'h session_env =
  se_maxRounds :: int
  se_store :: "'h history_store option"
  se_failOpen :: bool

inductive sys_step :: "'h session_env \<Rightarrow> 'h system \<Rightarrow> 'h system \<Rightarrow> bool" for env where
  get: "getSession (se_maxRounds env) i s = (p, s') \<Longrightarrow> sys_step env s s'"
| check: "p < sy_next s \<Longrightarrow> \<not> isEmittingCallback (sy_heap s p) \<Longrightarrow>
    sys_step env s (s\<lparr>sy_calls := add_mset (Ask p Checked) (sy_calls s)\<rparr>)"
| admit: "Ask p Checked \<in># sy_calls s \<Longrightarrow> beginOperation (sy_agent s) = (None, a) \<Longrightarrow>
    sys_step env s (move (Ask p Checked) (Some (Ask p Admitted)) (s\<lparr>sy_agent := a\<rparr>))"
| refuse: "Ask p Checked \<in># sy_calls s \<Longrightarrow> beginOperation (sy_agent s) = (Some e, a) \<Longrightarrow>
    sys_step env s (move (Ask p Checked) None (s\<lparr>sy_agent := a\<rparr>))"
| cancel: "Ask p Admitted \<in># sy_calls s \<Longrightarrow>
    sys_step env s (move (Ask p Admitted) (Some (Ask p Leaving)) s)"
| take_slot: "Ask p Admitted \<in># sy_calls s \<Longrightarrow> acquireExecutionSlot (sy_heap s p) = Some ss \<Longrightarrow>
    sys_step env s (move (Ask p Admitted) (Some (Ask p Waiting)) (upd p ss s))"
| begin_ok: "Ask p Waiting \<in># sy_calls s \<Longrightarrow> beginExecution (sy_heap s p) = (None, ss) \<Longrightarrow>
    sys_step env s (move (Ask p Waiting) (Some (Ask p (Running Uncommitted))) (upd p ss s))"
| begin_closed: "Ask p Waiting \<in># sy_calls s \<Longrightarrow> beginExecution (sy_heap s p) = (Some e, ss) \<Longrightarrow>
    sys_step env s (move (Ask p Waiting) (Some (Ask p Releasing)) (upd p ss s))"
| callback_in: "Ask p (Running g) \<in># sy_calls s \<Longrightarrow>
    sys_step env s (move (Ask p (Running g)) (Some (Ask p (InCallback g))) (enter_callback p s))"
| callback_out: "Ask p (InCallback g) \<in># sy_calls s \<Longrightarrow>
    sys_step env s (move (Ask p (InCallback g)) (Some (Ask p (Running g))) (leave_callback p s))"
| commit_local: "Ask p (Running Uncommitted) \<in># sy_calls s \<Longrightarrow> se_store env = None \<Longrightarrow>
    sys_step env s (move (Ask p (Running Uncommitted)) (Some (Ask p (Running Committed))) s)"
| commit_take: "Ask p (Running Uncommitted) \<in># sy_calls s \<Longrightarrow> se_store env = Some st \<Longrightarrow>
    takePendingClear (sy_heap s p) = (clear, ss) \<Longrightarrow>
    sys_step env s (move (Ask p (Running Uncommitted)) (Some (Ask p (Committing clear))) (upd p ss s))"
| commit: "Ask p (Committing clear) \<in># sy_calls s \<Longrightarrow> se_store env = Some st \<Longrightarrow>
    commit_store st clear (ss_id (sy_heap s p)) t (sy_store s) = (err, h) \<Longrightarrow>
    sys_step env s (move (Ask p (Committing clear))
      (Some (Ask p (Running (if err = None \<or> se_failOpen env then Committed else CommitFailed)))) (s\<lparr>sy_store := h\<rparr>))"
| return_call: "Ask p (Running g) \<in># sy_calls s \<Longrightarrow> (ok \<longrightarrow> g = Committed) \<Longrightarrow>
    sys_step env s (move (Ask p (Running g)) (Some (Ask p (Returned t ok))) s)"
| end_execution: "Ask p (Returned t ok) \<in># sy_calls s \<Longrightarrow>
    sys_step env s (move (Ask p (Returned t ok)) (Some (Ask p (Ended ok)))
      (upd p (endExecution (se_store env \<noteq> None) t ok (sy_heap s p)) s))"
| end_ok: "Ask p (Ended True) \<in># sy_calls s \<Longrightarrow>
    sys_step env s (move (Ask p (Ended True)) (Some (Ask p Releasing)) s)"
| end_local: "Ask p (Ended False) \<in># sy_calls s \<Longrightarrow> se_store env = None \<Longrightarrow>
    sys_step env s (move (Ask p (Ended False)) (Some (Ask p Releasing)) s)"
| flush: "Ask p (Ended False) \<in># sy_calls s \<Longrightarrow> se_store env = Some st \<Longrightarrow>
    flushPendingHistoryClear (sy_heap s p) = (clear, ss) \<Longrightarrow>
    sys_step env s (move (Ask p (Ended False)) (Some (Ask p (if clear then Flushing else Releasing))) (upd p ss s))"
| flush_store: "Ask p Flushing \<in># sy_calls s \<Longrightarrow> se_store env = Some st \<Longrightarrow>
    st_Clear st (sy_store s) (ss_id (sy_heap s p)) = (err, h) \<Longrightarrow>
    sys_step env s (move (Ask p Flushing) (Some (Ask p Releasing)) (s\<lparr>sy_store := h\<rparr>))"
| release: "Ask p Releasing \<in># sy_calls s \<Longrightarrow>
    sys_step env s (move (Ask p Releasing) (Some (Ask p Leaving)) (upd p (releaseExecutionSlot (sy_heap s p)) s))"
| leave: "Ask p Leaving \<in># sy_calls s \<Longrightarrow>
    sys_step env s (move (Ask p Leaving) None (s\<lparr>sy_agent := endOperation (sy_agent s)\<rparr>))"
| operation_begin: "beginOperation (sy_agent s) = (None, a) \<Longrightarrow>
    sys_step env s (s\<lparr>sy_agent := a, sy_calls := add_mset Operation (sy_calls s)\<rparr>)"
| operation_end: "Operation \<in># sy_calls s \<Longrightarrow>
    sys_step env s (move Operation None (s\<lparr>sy_agent := endOperation (sy_agent s)\<rparr>))"
| clear_mark: "p < sy_next s \<Longrightarrow> markHistoryClear ctx_err (se_store env = None) (sy_heap s p) = (r, ss) \<Longrightarrow>
    sys_step env s (upd p ss (if r = Inr True then s\<lparr>sy_calls := add_mset (Clearer p) (sy_calls s)\<rparr> else s))"
| clear_store: "Clearer p \<in># sy_calls s \<Longrightarrow> se_store env = Some st \<Longrightarrow>
    st_Clear st (sy_store s) (ss_id (sy_heap s p)) = (err, h) \<Longrightarrow>
    sys_step env s (move (Clearer p) None (s\<lparr>sy_store := h\<rparr>))"
| close_session: "p < sy_next s \<Longrightarrow> sys_step env s (upd p (session_Close (sy_heap s p)) s)"
| close_agent: "close_enter (sy_agent s) = (Inr True, a) \<Longrightarrow>
    sys_step env s (s\<lparr>sy_agent := a, sy_closer := CloserDraining\<rparr>)"
| close_drained: "sy_closer s = CloserDraining \<Longrightarrow> \<not> ag_inFlight (sy_agent s) > 0 \<Longrightarrow>
    set ps = ran (ag_sessions (sy_agent s)) \<Longrightarrow>
    sys_step env s (s\<lparr>sy_agent := (sy_agent s)\<lparr>ag_sessions := Map.empty\<rparr>, sy_closer := CloserClosing ps\<rparr>)"
| close_next: "sy_closer s = CloserClosing (p # ps) \<Longrightarrow>
    sys_step env s (upd p (session_Close (sy_heap s p)) (s\<lparr>sy_closer := CloserClosing ps\<rparr>))"
| close_done: "sy_closer s = CloserClosing [] \<Longrightarrow> sys_step env s (s\<lparr>sy_closer := CloserDone\<rparr>)"

definition init_system :: "'h \<Rightarrow> 'h system" where
  "init_system h = \<lparr>sy_agent = \<lparr>ag_closed = False, ag_inFlight = 0, ag_callbackDepth = 0, ag_sessions = Map.empty\<rparr>,
     sy_heap = (\<lambda>_. newSession '''' 0 True), sy_next = 0, sy_calls = {#}, sy_closer = CloserIdle, sy_store = h\<rparr>"

inductive reachable :: "'h session_env \<Rightarrow> 'h system \<Rightarrow> bool" for env where
  start: "reachable env (init_system h)"
| step: "reachable env s \<Longrightarrow> sys_step env s s' \<Longrightarrow> reachable env s'"

subsection \<open>The invariant\<close>

definition cnt :: "(call \<Rightarrow> bool) \<Rightarrow> call multiset \<Rightarrow> int" where
  "cnt P M = int (size (filter_mset P M))"

lemma cnt_simps [simp]:
  "cnt P {#} = 0" "cnt P (add_mset c M) = of_bool (P c) + cnt P M" "cnt P (M + N) = cnt P M + cnt P N"
  by (simp_all add: cnt_def)

lemma cnt_remove: "c \<in># M \<Longrightarrow> cnt P (M - {#c#}) = cnt P M - of_bool (P c)"
  by (drule multi_member_split) auto

lemma cnt_nonneg [simp]: "0 \<le> cnt P M"
  by (simp add: cnt_def)

lemma cnt_pos: "c \<in># M \<Longrightarrow> P c \<Longrightarrow> 1 \<le> cnt P M"
  by (auto simp: dest!: multi_member_split)

lemma cnt_zero: "cnt P M = 0 \<longleftrightarrow> (\<forall>c \<in># M. \<not> P c)"
  by (induction M) (auto simp: add_nonneg_eq_0_iff)

lemma cnt_ge: "c \<in># M \<Longrightarrow> of_bool (P c) \<le> cnt P M"
  using cnt_pos [of c M P] by (cases "P c") simp_all

fun admitted :: "call \<Rightarrow> bool" where
  "admitted (Ask p Checked) = False" | "admitted (Clearer p) = False" | "admitted _ = True"

text \<open>The calls that hold a session's slot: outside, in and in a callback of an execution.\<close>

fun outside :: "phase \<Rightarrow> bool" where
  "outside Waiting = True" | "outside (Ended ok) = True" | "outside Flushing = True"
| "outside Releasing = True" | "outside _ = False"

fun quiet :: "phase \<Rightarrow> bool" where
  "quiet (Running g) = True" | "quiet (Committing b) = True" | "quiet (Returned t ok) = True" | "quiet _ = False"

fun in_callback :: "phase \<Rightarrow> bool" where
  "in_callback (InCallback g) = True" | "in_callback _ = False"

definition phase_at :: "(phase \<Rightarrow> bool) \<Rightarrow> nat \<Rightarrow> call \<Rightarrow> bool" where
  "phase_at P p c = (case c of Ask q ph \<Rightarrow> q = p \<and> P ph | _ \<Rightarrow> False)"

lemma phase_at_simps [simp]: "phase_at P p (Ask q ph) \<longleftrightarrow> q = p \<and> P ph" "\<not> phase_at P p Operation" "\<not> phase_at P p (Clearer q)"
  by (simp_all add: phase_at_def)

definition any_callback :: "call \<Rightarrow> bool" where
  "any_callback c = (case c of Ask q ph \<Rightarrow> in_callback ph | _ \<Rightarrow> False)"

lemma any_callback_simps [simp]:
  "any_callback (Ask q ph) = in_callback ph" "\<not> any_callback Operation" "\<not> any_callback (Clearer q)"
  by (simp_all add: any_callback_def)

definition session_ok :: "bool \<Rightarrow> call multiset \<Rightarrow> nat \<Rightarrow> session \<Rightarrow> bool" where
  "session_ok external M p ss \<longleftrightarrow>
     cnt (phase_at outside p) M + cnt (phase_at quiet p) M + cnt (phase_at in_callback p) M + of_bool (ss_slot ss) = 1
   \<and> of_bool (ss_executing ss) = cnt (phase_at quiet p) M + cnt (phase_at in_callback p) M
   \<and> of_bool (ss_emitting ss) = cnt (phase_at in_callback p) M
   \<and> (ss_pendingClose ss \<longrightarrow> ss_executing ss)
   \<and> (\<not> external \<longrightarrow> ss_pendingClear ss \<longrightarrow> ss_executing ss)"

definition call_ptr :: "call \<Rightarrow> nat option" where
  "call_ptr c = (case c of Ask p _ \<Rightarrow> Some p | Operation \<Rightarrow> None | Clearer p \<Rightarrow> Some p)"

definition sys_inv :: "bool \<Rightarrow> 'h system \<Rightarrow> bool" where
  "sys_inv external s \<longleftrightarrow>
     ag_inFlight (sy_agent s) = cnt admitted (sy_calls s)
   \<and> ag_callbackDepth (sy_agent s) = cnt any_callback (sy_calls s)
   \<and> (\<forall>p. session_ok external (sy_calls s) p (sy_heap s p))
   \<and> (\<forall>c \<in># sy_calls s. \<forall>p. call_ptr c = Some p \<longrightarrow> p < sy_next s)
   \<and> (\<forall>i p. ag_sessions (sy_agent s) i = Some p \<longrightarrow> p < sy_next s)
   \<and> (sy_closer s \<noteq> CloserIdle \<longrightarrow> ag_closed (sy_agent s))
   \<and> (sy_closer s \<noteq> CloserIdle \<longrightarrow> sy_closer s \<noteq> CloserDraining \<longrightarrow> cnt admitted (sy_calls s) = 0)"

lemma session_ok_other:
  assumes "session_ok external M q ss" "q \<noteq> p" "c \<in># M" "call_ptr c = Some p" "\<forall>d \<in># D. call_ptr d = Some p"
  shows "session_ok external (M - {#c#} + D) q ss"
proof -
  have no: "\<not> phase_at P q d" if "call_ptr d = Some p" for P d
    using that \<open>q \<noteq> p\<close> by (auto simp: call_ptr_def phase_at_def split: call.splits)
  have "cnt (phase_at P q) D = 0" for P using no assms(5) by (auto simp: cnt_zero)
  with assms(1) no [OF assms(4)] show ?thesis
    by (simp add: session_ok_def cnt_remove [OF assms(3)])
qed

text \<open>One call moves on: what its step owes to the invariant.\<close>

lemma ask_move:
  assumes inv: "sys_inv external s" and c: "Ask p ph \<in># sy_calls s"
    and d: "d = None \<or> (\<exists>ph'. d = Some (Ask p ph'))"
    and ok: "session_ok external (sy_calls s - {#Ask p ph#} + (case d of None \<Rightarrow> {#} | Some d \<Rightarrow> {#d#})) p ss"
    and flight: "ag_inFlight a = ag_inFlight (sy_agent s) - of_bool (admitted (Ask p ph))
        + (case d of None \<Rightarrow> 0 | Some d \<Rightarrow> of_bool (admitted d))"
    and depth: "ag_callbackDepth a = ag_callbackDepth (sy_agent s) - of_bool (any_callback (Ask p ph))
        + (case d of None \<Rightarrow> 0 | Some d \<Rightarrow> of_bool (any_callback d))"
    and rest: "ag_closed a = ag_closed (sy_agent s)" "ag_sessions a = ag_sessions (sy_agent s)"
    and late: "ag_closed a \<Longrightarrow> d \<noteq> None \<Longrightarrow> admitted (Ask p ph)"
    and new_state: "sy_agent s' = a" "sy_heap s' = (sy_heap s)(p := ss)" "sy_next s' = sy_next s"
      "sy_closer s' = sy_closer s"
      "sy_calls s' = sy_calls s - {#Ask p ph#} + (case d of None \<Rightarrow> {#} | Some d \<Rightarrow> {#d#})"
  shows "sys_inv external s'"
proof -
  let ?D = "case d of None \<Rightarrow> {#} | Some d \<Rightarrow> {#d#}"
  have D: "\<forall>d \<in># ?D. call_ptr d = Some p" using d by (auto simp: call_ptr_def)
  have p: "p < sy_next s" using inv c by (auto simp: sys_inv_def call_ptr_def)
  have other: "session_ok external (sy_calls s - {#Ask p ph#} + ?D) q (sy_heap s q)" if "q \<noteq> p" for q
    using inv that c D by (intro session_ok_other) (auto simp: sys_inv_def call_ptr_def)
  have new: "cnt P (sy_calls s - {#Ask p ph#} + ?D) =
      cnt P (sy_calls s) - of_bool (P (Ask p ph)) + (case d of None \<Rightarrow> 0 | Some d \<Rightarrow> of_bool (P d))" for P
    using c by (simp add: cnt_remove split: option.split)
  have idle: "cnt admitted (sy_calls s - {#Ask p ph#} + ?D) = 0"
    if "sy_closer s \<noteq> CloserIdle" "sy_closer s \<noteq> CloserDraining"
  proof -
    from that inv have z: "cnt admitted (sy_calls s) = 0" "ag_closed (sy_agent s)" by (auto simp: sys_inv_def)
    then have "\<not> admitted (Ask p ph)" using c by (auto simp: cnt_zero)
    with z late rest show ?thesis by (cases d) (auto simp: cnt_remove [OF c])
  qed
  have calls: "\<forall>c \<in># sy_calls s - {#Ask p ph#} + ?D. \<forall>q. call_ptr c = Some q \<longrightarrow> q < sy_next s"
    using inv D p by (auto simp: sys_inv_def dest: in_diffD)
  show ?thesis
    using inv ok other new flight depth rest idle calls
    unfolding sys_inv_def new_state by auto
qed

lemma ask_facts:
  assumes "sys_inv external s" "Ask p ph \<in># sy_calls s"
  shows "session_ok external (sy_calls s) p (sy_heap s p)"
    and "of_bool (outside ph) \<le> cnt (phase_at outside p) (sy_calls s)"
    and "of_bool (quiet ph) \<le> cnt (phase_at quiet p) (sy_calls s)"
    and "of_bool (in_callback ph) \<le> cnt (phase_at in_callback p) (sy_calls s)"
    and "of_bool (admitted (Ask p ph)) \<le> cnt admitted (sy_calls s)"
    and "cnt P (sy_calls s - {#Ask p ph#}) = cnt P (sy_calls s) - of_bool (P (Ask p ph))"
  using assms(1) cnt_ge [OF assms(2), of "phase_at outside p"] cnt_ge [OF assms(2), of "phase_at quiet p"]
    cnt_ge [OF assms(2), of "phase_at in_callback p"] cnt_ge [OF assms(2), of admitted]
  by (simp_all add: sys_inv_def cnt_remove [OF assms(2)])

text \<open>The obligation on the session, in numbers.\<close>

lemma session_ok_move:
  assumes inv: "sys_inv external s" and c: "Ask p ph \<in># sy_calls s"
    and new: "\<And>n k m. n + k + m + of_bool (ss_slot (sy_heap s p)) = 1 - of_bool (outside ph) - of_bool (quiet ph) - of_bool (in_callback ph) \<Longrightarrow>
      0 \<le> n \<Longrightarrow> 0 \<le> k \<Longrightarrow> 0 \<le> m \<Longrightarrow>
      of_bool (ss_executing (sy_heap s p)) = k + m + of_bool (quiet ph) + of_bool (in_callback ph) \<Longrightarrow>
      of_bool (ss_emitting (sy_heap s p)) = m + of_bool (in_callback ph) \<Longrightarrow>
      ss_pendingClose (sy_heap s p) \<longrightarrow> ss_executing (sy_heap s p) \<Longrightarrow>
      \<not> external \<longrightarrow> ss_pendingClear (sy_heap s p) \<longrightarrow> ss_executing (sy_heap s p) \<Longrightarrow>
      n + k + m + of_bool (outside ph') + of_bool (quiet ph') + of_bool (in_callback ph') + of_bool (ss_slot ss) = (1 :: int)
      \<and> of_bool (ss_executing ss) = k + m + of_bool (quiet ph') + of_bool (in_callback ph')
      \<and> of_bool (ss_emitting ss) = m + of_bool (in_callback ph')
      \<and> (ss_pendingClose ss \<longrightarrow> ss_executing ss)
      \<and> (\<not> external \<longrightarrow> ss_pendingClear ss \<longrightarrow> ss_executing ss)"
  shows "session_ok external (sy_calls s - {#Ask p ph#} + {#Ask p ph'#}) p ss"
proof -
  note f = ask_facts [OF inv c]
  let ?M = "sy_calls s - {#Ask p ph#}"
  show ?thesis
    using f(1-4) new [of "cnt (phase_at outside p) ?M" "cnt (phase_at quiet p) ?M" "cnt (phase_at in_callback p) ?M"]
    unfolding session_ok_def by (simp add: f(6) algebra_simps)
qed

lemmas section_defs = move_def upd_def beginOperation_def endOperation_def beginExecution_def endExecution_def
  takePendingClear_def flushPendingHistoryClear_def enter_callback_def leave_callback_def session_Close_def
  markHistoryClear_def acquireExecutionSlot_def releaseExecutionSlot_def isEmittingCallback_def Let_def

lemma ask_to:
  assumes "sys_inv external s" "Ask p ph \<in># sy_calls s"
    and "session_ok external (sy_calls s - {#Ask p ph#} + {#Ask p ph'#}) p ss"
    and "admitted (Ask p ph)" "admitted (Ask p ph')"
    and "sy_agent s' = (sy_agent s)\<lparr>ag_callbackDepth := ag_callbackDepth (sy_agent s)
           - of_bool (in_callback ph) + of_bool (in_callback ph')\<rparr>"
      "sy_heap s' = (sy_heap s)(p := ss)" "sy_next s' = sy_next s" "sy_closer s' = sy_closer s"
      "sy_calls s' = sy_calls s - {#Ask p ph#} + {#Ask p ph'#}"
  shows "sys_inv external s'"
  using assms by (intro ask_move [where s' = s' and d = "Some (Ask p ph')" and ss = ss]) auto

lemma upd_inv:
  "sys_inv external s \<Longrightarrow> session_ok external (sy_calls s) p ss \<Longrightarrow> sys_inv external (upd p ss s)"
  by (simp add: sys_inv_def upd_def)

lemma clearer_inv:
  "sys_inv external s \<Longrightarrow> p < sy_next s \<Longrightarrow> sys_inv external (s\<lparr>sy_calls := add_mset (Clearer p) (sy_calls s)\<rparr>)"
  by (simp add: sys_inv_def session_ok_def call_ptr_def)

lemma markHistoryClear_ok:
  "session_ok external M p s \<Longrightarrow> markHistoryClear e (\<not> external) s = (r, s') \<Longrightarrow> session_ok external M p s'"
  by (auto simp: markHistoryClear_def session_ok_def split: option.splits if_splits)

lemma session_Close_ok: "session_ok external M p s \<Longrightarrow> session_ok external M p (session_Close s)"
  by (auto simp: session_Close_def session_ok_def)

lemma heap_ok: "sys_inv external s \<Longrightarrow> session_ok external (sy_calls s) p (sy_heap s p)"
  by (simp add: sys_inv_def)

lemma closer_inv:
  "sys_inv external s \<Longrightarrow> sy_closer s = CloserClosing qs \<Longrightarrow> c = CloserClosing ps \<or> c = CloserDone \<Longrightarrow>
     sys_inv external (s\<lparr>sy_closer := c\<rparr>)"
  by (auto simp: sys_inv_def)

lemma sys_step_inv:
  assumes "sys_step env s s'" and inv: "sys_inv (se_store env \<noteq> None) s"
  shows "sys_inv (se_store env \<noteq> None) s'"
  using assms(1)
proof cases
  case (cancel p)
  show ?thesis
    by (rule ask_to [OF inv cancel(2), where ph' = Leaving and ss = "sy_heap s p"])
       (rule session_ok_move [OF inv cancel(2)], auto simp: cancel(1) move_def)
next
  case (take_slot p ss)
  show ?thesis
    by (rule ask_to [OF inv take_slot(2), where ph' = Waiting and ss = ss])
       (rule session_ok_move [OF inv take_slot(2)], use take_slot in \<open>auto simp: of_bool_def section_defs split: if_splits\<close>)
next
  case (begin_ok p ss)
  show ?thesis
    by (rule ask_to [OF inv begin_ok(2), where ph' = "Running Uncommitted" and ss = ss])
       (rule session_ok_move [OF inv begin_ok(2)], use begin_ok in \<open>auto simp: of_bool_def section_defs split: if_splits\<close>)
next
  case (begin_closed p e ss)
  show ?thesis
    by (rule ask_to [OF inv begin_closed(2), where ph' = Releasing and ss = ss])
       (rule session_ok_move [OF inv begin_closed(2)], use begin_closed in \<open>auto simp: of_bool_def section_defs split: if_splits\<close>)
next
  case (callback_in p g)
  show ?thesis
    by (rule ask_to [OF inv callback_in(2), where ph' = "InCallback g" and ss = "(sy_heap s p)\<lparr>ss_emitting := True\<rparr>"])
       (rule session_ok_move [OF inv callback_in(2)], use callback_in in \<open>auto simp: of_bool_def section_defs split: if_splits\<close>)
next
  case (callback_out p g)
  show ?thesis
    by (rule ask_to [OF inv callback_out(2), where ph' = "Running g" and ss = "(sy_heap s p)\<lparr>ss_emitting := False\<rparr>"])
       (rule session_ok_move [OF inv callback_out(2)], use callback_out in \<open>auto simp: of_bool_def section_defs split: if_splits\<close>)
next
  case (commit_local p)
  show ?thesis
    by (rule ask_to [OF inv commit_local(2), where ph' = "Running Committed" and ss = "sy_heap s p"])
       (rule session_ok_move [OF inv commit_local(2)], auto simp: commit_local(1) move_def)
next
  case (commit_take p st c ss)
  show ?thesis
    by (rule ask_to [OF inv commit_take(2), where ph' = "Committing c" and ss = ss])
       (rule session_ok_move [OF inv commit_take(2)], use commit_take in \<open>auto simp: of_bool_def section_defs split: if_splits\<close>)
next
  case (commit p c st t err h)
  show ?thesis
    by (rule ask_to [OF inv commit(2), where ss = "sy_heap s p"
          and ph' = "Running (if err = None \<or> se_failOpen env then Committed else CommitFailed)"])
       (rule session_ok_move [OF inv commit(2)], use commit in \<open>auto simp: of_bool_def section_defs split: if_splits\<close>)
next
  case (return_call p g ok t)
  show ?thesis
    by (rule ask_to [OF inv return_call(2), where ph' = "Returned t ok" and ss = "sy_heap s p"])
       (rule session_ok_move [OF inv return_call(2)], auto simp: return_call(1) move_def)
next
  case (end_execution p t ok)
  show ?thesis
    by (rule ask_to [OF inv end_execution(2), where ph' = "Ended ok"
          and ss = "endExecution (se_store env \<noteq> None) t ok (sy_heap s p)"])
       (rule session_ok_move [OF inv end_execution(2)], use end_execution in \<open>auto simp: of_bool_def section_defs split: if_splits\<close>)
next
  case (end_ok p)
  show ?thesis
    by (rule ask_to [OF inv end_ok(2), where ph' = Releasing and ss = "sy_heap s p"])
       (rule session_ok_move [OF inv end_ok(2)], auto simp: end_ok(1) move_def)
next
  case (end_local p)
  show ?thesis
    by (rule ask_to [OF inv end_local(2), where ph' = Releasing and ss = "sy_heap s p"])
       (rule session_ok_move [OF inv end_local(2)], auto simp: end_local(1) move_def)
next
  case (flush p st c ss)
  show ?thesis
    by (rule ask_to [OF inv flush(2), where ph' = "if c then Flushing else Releasing" and ss = ss])
       (rule session_ok_move [OF inv flush(2)], use flush in \<open>auto simp: of_bool_def section_defs split: if_splits\<close>)
next
  case (flush_store p st err h)
  show ?thesis
    by (rule ask_to [OF inv flush_store(2), where ph' = Releasing and ss = "sy_heap s p"])
       (rule session_ok_move [OF inv flush_store(2)], auto simp: flush_store(1) move_def)
next
  case (release p)
  show ?thesis
    by (rule ask_to [OF inv release(2), where ph' = Leaving and ss = "releaseExecutionSlot (sy_heap s p)"])
       (rule session_ok_move [OF inv release(2)], use release in \<open>auto simp: of_bool_def section_defs split: if_splits\<close>)
next
  case (admit p a)
  have "session_ok (se_store env \<noteq> None) (sy_calls s - {#Ask p Checked#} + {#Ask p Admitted#}) p (sy_heap s p)"
    by (rule session_ok_move [OF inv admit(2)]) auto
  then show ?thesis
    using admit by (intro ask_move [OF inv admit(2), where d = "Some (Ask p Admitted)" and ss = "sy_heap s p" and a = a])
      (auto simp: section_defs split: if_splits)
next
  case (refuse p e a)
  have "session_ok (se_store env \<noteq> None) (sy_calls s - {#Ask p Checked#}) p (sy_heap s p)"
    using ask_facts(1,6) [OF inv refuse(2)] by (simp add: session_ok_def)
  then show ?thesis
    using refuse by (intro ask_move [OF inv refuse(2), where d = None and ss = "sy_heap s p" and a = a])
      (auto simp: section_defs split: if_splits)
next
  case (leave p)
  have "session_ok (se_store env \<noteq> None) (sy_calls s - {#Ask p Leaving#}) p (sy_heap s p)"
    using ask_facts(1,6) [OF inv leave(2)] by (simp add: session_ok_def)
  moreover have "0 < ag_inFlight (sy_agent s)" using ask_facts(5) [OF inv leave(2)] inv by (simp add: sys_inv_def)
  ultimately show ?thesis
    using leave by (intro ask_move [OF inv leave(2), where d = None and ss = "sy_heap s p" and a = "endOperation (sy_agent s)"])
      (auto simp: section_defs)
next
  case (get i p)
  have "cnt (phase_at P (sy_next s)) (sy_calls s) = 0" for P
    using inv by (fastforce simp: cnt_zero sys_inv_def phase_at_def call_ptr_def split: call.splits)
  then have "session_ok (se_store env \<noteq> None) (sy_calls s) (sy_next s) (newSession i (se_maxRounds env) c)" for c
    by (simp add: session_ok_def newSession_def)
  with get inv show ?thesis
    by (auto simp: getSession_def sys_inv_def Let_def less_SucI split: if_splits option.splits)
next
  case (check p)
  with inv show ?thesis by (auto simp: sys_inv_def session_ok_def call_ptr_def)
next
  case (operation_begin a)
  with inv show ?thesis
    by (auto simp: sys_inv_def session_ok_def call_ptr_def section_defs split: if_splits)
next
  case operation_end
  have "1 \<le> cnt admitted (sy_calls s)" by (rule cnt_pos [OF operation_end(2)]) simp
  with inv operation_end show ?thesis
    by (auto simp: sys_inv_def session_ok_def section_defs cnt_remove dest: in_diffD)
next
  case (clear_mark p ctx_err r ss)
  have "session_ok (se_store env \<noteq> None) (sy_calls s) p ss"
    using markHistoryClear_ok [of "se_store env \<noteq> None" "sy_calls s" p "sy_heap s p"] clear_mark(3) inv
    by (simp add: sys_inv_def)
  moreover from this have "session_ok (se_store env \<noteq> None) (add_mset (Clearer p) (sy_calls s)) p ss"
    by (simp add: session_ok_def)
  ultimately show ?thesis
    unfolding clear_mark(1) using upd_inv [OF inv, of p ss] upd_inv [OF clearer_inv [OF inv clear_mark(2)], of p ss]
    by simp
next
  case (clear_store p st err h)
  with inv show ?thesis
    by (auto simp: sys_inv_def session_ok_def section_defs cnt_remove dest: in_diffD)
next
  case (close_session p)
  then show ?thesis using upd_inv [OF inv session_Close_ok [OF heap_ok [OF inv]]] by simp
next
  case (close_agent a)
  with inv show ?thesis by (auto simp: sys_inv_def close_enter_def split: if_splits)
next
  case (close_drained ps)
  with inv have "cnt admitted (sy_calls s) \<le> 0" by (simp add: sys_inv_def)
  then have "cnt admitted (sy_calls s) = 0" by (rule order.antisym) (rule cnt_nonneg)
  with inv close_drained show ?thesis by (simp add: sys_inv_def)
next
  case (close_next p ps)
  note i = closer_inv [OF inv close_next(2), of "CloserClosing ps" ps]
  then show ?thesis using close_next(1) upd_inv [OF i session_Close_ok [OF heap_ok [OF i]], of p] by simp
next
  case close_done
  then show ?thesis using closer_inv [OF inv] by simp
qed

lemma reachable_inv: "reachable env s \<Longrightarrow> sys_inv (se_store env \<noteq> None) s"
proof (induction rule: reachable.induct)
  case (start h)
  show ?case by (simp add: sys_inv_def init_system_def session_ok_def newSession_def)
qed (rule sys_step_inv)

subsection \<open>Closing the agent closes every session\<close>

text \<open>A session is closed, or known to the agent, or in the list that \<^verbatim>\<open>Close\<close> walks.\<close>

fun known :: "closer \<Rightarrow> (string \<rightharpoonup> nat) \<Rightarrow> nat \<Rightarrow> bool" where
  "known (CloserClosing ps) m p \<longleftrightarrow> p \<in> set ps"
| "known CloserDone m p \<longleftrightarrow> False"
| "known _ m p \<longleftrightarrow> p \<in> ran m"

definition handed_out :: "'h system \<Rightarrow> bool" where
  "handed_out s \<longleftrightarrow> (\<forall>p < sy_next s. ss_closed (sy_heap s p)
     \<or> known (sy_closer s) (ag_sessions (sy_agent s)) p)"

lemma closed_mono:
  "ss_closed s \<Longrightarrow> ss_closed (endExecution external t ok s)" "ss_closed s \<Longrightarrow> ss_closed (session_Close s)"
  "markHistoryClear e l s = (r, s') \<Longrightarrow> ss_closed s' = ss_closed s"
  "beginExecution s = (e', s') \<Longrightarrow> ss_closed s' = ss_closed s"
  "takePendingClear s = (c, s') \<Longrightarrow> ss_closed s' = ss_closed s"
  "flushPendingHistoryClear s = (c, s') \<Longrightarrow> ss_closed s' = ss_closed s"
  "acquireExecutionSlot s = Some s' \<Longrightarrow> ss_closed s' = ss_closed s"
  "ss_closed (releaseExecutionSlot s) = ss_closed s"
  by (auto simp: section_defs split: if_splits option.splits)

lemma agent_sessions:
  "beginOperation a = (e, a') \<Longrightarrow> ag_sessions a' = ag_sessions a"
  "ag_sessions (endOperation a) = ag_sessions a"
  "close_enter a = (r, a') \<Longrightarrow> ag_sessions a' = ag_sessions a"
  by (auto simp: beginOperation_def endOperation_def close_enter_def split: if_splits)

text \<open>Every step that leaves the walk of \<^verbatim>\<open>Close\<close> alone keeps what the agent knows and what is closed.\<close>

lemma handed_out_frame:
  assumes "handed_out s" "sy_next s' = sy_next s" "sy_closer s' = sy_closer s"
    "ag_sessions (sy_agent s') = ag_sessions (sy_agent s)"
    "\<And>p. ss_closed (sy_heap s p) \<Longrightarrow> ss_closed (sy_heap s' p)"
  shows "handed_out s'"
  using assms unfolding handed_out_def by auto

lemma handed_out_step:
  assumes "sys_step env s s'" and inv: "sys_inv external s" and "handed_out s"
  shows "handed_out s'"
  using assms(1)
proof cases
  case (get i p)
  have next_free: "ag_sessions (sy_agent s) j \<noteq> Some (sy_next s)" for j
    using inv by (auto simp: sys_inv_def)
  consider (gone) "ag_closed (sy_agent s)" | (old) q where "\<not> ag_closed (sy_agent s)" "ag_sessions (sy_agent s) i = Some q"
    | (new) "\<not> ag_closed (sy_agent s)" "ag_sessions (sy_agent s) i = None" by blast
  then show ?thesis
  proof cases
    case gone
    with get assms(3) show ?thesis
      by (auto simp: getSession_def handed_out_def newSession_def less_Suc_eq Let_def)
  next
    case old
    with get assms(3) show ?thesis by (simp add: getSession_def Let_def)
  next
    case new
    then have "sy_closer s = CloserIdle" using inv by (auto simp: sys_inv_def)
    moreover have "ran ((ag_sessions (sy_agent s))(i \<mapsto> sy_next s)) = insert (sy_next s) (ran (ag_sessions (sy_agent s)))"
      using new by (simp add: ran_map_upd)
    ultimately show ?thesis using get assms(3) new
      by (auto simp: getSession_def handed_out_def less_Suc_eq Let_def)
  qed
next
  case (close_agent a)
  moreover have "ag_sessions a = ag_sessions (sy_agent s)" using close_agent by (auto simp: agent_sessions(3))
  moreover have "sy_closer s = CloserIdle" using close_agent inv by (auto simp: sys_inv_def close_enter_def split: if_splits)
  ultimately show ?thesis using assms(3) by (simp add: handed_out_def)
next
  case (close_drained ps)
  with assms(3) show ?thesis by (auto simp: handed_out_def)
next
  case (close_next p ps)
  have "cnt admitted (sy_calls s) = 0" using close_next inv by (simp add: sys_inv_def)
  then have "cnt (phase_at quiet p) (sy_calls s) = 0" "cnt (phase_at in_callback p) (sy_calls s) = 0"
    by (auto simp: cnt_zero phase_at_def split: call.splits) (metis admitted.simps quiet.simps in_callback.simps phase.exhaust)+
  then have "\<not> ss_executing (sy_heap s p)" using heap_ok [OF inv, of p] by (simp add: session_ok_def)
  then have "ss_closed (session_Close (sy_heap s p))" by (simp add: session_Close_def)
  with close_next assms(3) show ?thesis by (auto simp: handed_out_def upd_def intro: closed_mono(2))
next
  case close_done
  with assms(3) show ?thesis by (auto simp: handed_out_def)
qed (rule handed_out_frame [OF assms(3)];
     auto simp: move_def upd_def enter_callback_def leave_callback_def closed_mono agent_sessions split: if_splits)+

lemma reachable_handed_out: "reachable env s \<Longrightarrow> handed_out s"
proof (induction rule: reachable.induct)
  case (start h)
  show ?case by (simp add: handed_out_def init_system_def)
next
  case (step s s')
  with handed_out_step [OF step(2) reachable_inv] show ?case by blast
qed

subsection \<open>Properties\<close>

text \<open>The calls between the acquisition and the release of the slot, and those that execute.\<close>

definition holds_slot :: "nat \<Rightarrow> call \<Rightarrow> bool" where
  "holds_slot p c = phase_at (\<lambda>ph. outside ph \<or> quiet ph \<or> in_callback ph) p c"

definition executes :: "nat \<Rightarrow> call \<Rightarrow> bool" where
  "executes p c = phase_at (\<lambda>ph. quiet ph \<or> in_callback ph) p c"

lemma cnt_executes: "cnt (executes p) M = cnt (phase_at quiet p) M + cnt (phase_at in_callback p) M"
proof (induction M)
  case (add c M)
  have "quiet ph \<Longrightarrow> \<not> in_callback ph" for ph by (cases ph) auto
  then have "of_bool (executes p c) = (of_bool (phase_at quiet p c) + of_bool (phase_at in_callback p c) :: int)"
    by (cases c) (auto simp: executes_def)
  with add show ?case by simp
qed simp

lemma cnt_holds: "cnt (holds_slot p) M = cnt (phase_at outside p) M + cnt (executes p) M"
proof (induction M)
  case (add c M)
  have "outside ph \<Longrightarrow> \<not> in_callback ph \<and> \<not> quiet ph" for ph by (cases ph) auto
  then have "of_bool (holds_slot p c) = (of_bool (phase_at outside p c) + of_bool (executes p c) :: int)"
    by (cases c) (auto simp: executes_def holds_slot_def)
  with add show ?case by simp
qed simp


definition demo_local :: "nat session_env" where
  "demo_local = \<lparr>se_maxRounds = 2, se_store = None, se_failOpen = False\<rparr>"


text \<open>C17: Agent.Close waits: once it has passed its wait no call of the agent is in flight and none can
  be admitted any more, and when it has returned every session that was ever handed out is closed.\<close>

theorem agent_close_waits_and_closes:
  assumes "reachable env s" and "sy_closer s \<noteq> CloserIdle" and "sy_closer s \<noteq> CloserDraining"
  shows "cnt admitted (sy_calls s) = 0 \<and> ag_inFlight (sy_agent s) = 0
    \<and> fst (beginOperation (sy_agent s)) = Some agent_closed_error
    \<and> (sy_closer s = CloserDone \<longrightarrow> (\<forall>p < sy_next s. ss_closed (sy_heap s p)))"
  using reachable_inv [OF assms(1)] reachable_handed_out [OF assms(1)] assms(2,3)
  by (auto simp: sys_inv_def handed_out_def beginOperation_def)

lemma reach:
  "reachable env s \<Longrightarrow> sys_step env s t \<Longrightarrow> t = s' \<Longrightarrow> reachable env s'"
  using reachable.step by simp

text \<open>A system with the one session "s" at address 0.\<close>

definition demo_agent :: "bool \<Rightarrow> bool \<Rightarrow> int \<Rightarrow> int \<Rightarrow> agent" where
  "demo_agent c listed n d = \<lparr>ag_closed = c, ag_inFlight = n, ag_callbackDepth = d,
     ag_sessions = (if listed then [''s'' \<mapsto> 0] else Map.empty)\<rparr>"

definition demo_system :: "agent \<Rightarrow> session \<Rightarrow> call multiset \<Rightarrow> closer \<Rightarrow> 'h \<Rightarrow> 'h system" where
  "demo_system a ss cs cl h = \<lparr>sy_agent = a, sy_heap = (\<lambda>_. newSession '''' 0 True)(0 := ss), sy_next = 1,
     sy_calls = cs, sy_closer = cl, sy_store = h\<rparr>"

lemmas demo_simps = demo_agent_def demo_system_def section_defs newSession_def

lemma demo_start:
  assumes "se_maxRounds env = 2"
  shows "reachable env (demo_system (demo_agent False True 0 0) (newSession ''s'' 2 False) {#} CloserIdle h)"
  by (rule reach [OF reachable.start [of env h] sys_step.get [of env "''s''" "init_system h" 0]])
     (auto simp: getSession_def init_system_def assms demo_simps)

theorem agent_close_waits_and_closes_witness:
  "\<exists>s. reachable demo_local s \<and> sy_closer s = CloserDone \<and> sy_next s = 1 \<and> ss_closed (sy_heap s 0)"
proof -
  let ?a = "demo_agent True True 0 0" and ?z = "demo_agent True False 0 0"
  let ?ss = "newSession ''s'' 2 False"
  have 1: "reachable demo_local (demo_system (demo_agent False True 0 0) ?ss {#} CloserIdle (0 :: nat))"
    by (rule demo_start) (simp add: demo_local_def)
  have 2: "reachable demo_local (demo_system ?a ?ss {#} CloserDraining (0 :: nat))"
    by (rule reach [OF 1 sys_step.close_agent]) (auto simp: close_enter_def demo_simps)
  have 3: "reachable demo_local (demo_system ?z ?ss {#} (CloserClosing [0]) (0 :: nat))"
    by (rule reach [OF 2 sys_step.close_drained [where ps = "[0]"]]) (auto simp: demo_simps)
  have 4: "reachable demo_local (demo_system ?z (session_Close ?ss) {#} (CloserClosing []) (0 :: nat))"
    by (rule reach [OF 3 sys_step.close_next]) (auto simp: demo_simps)
  have 5: "reachable demo_local (demo_system ?z (session_Close ?ss) {#} CloserDone (0 :: nat))"
    by (rule reach [OF 4 sys_step.close_done]) (auto simp: demo_simps)
  let ?end_state = "demo_system ?z (session_Close ?ss) {#} CloserDone (0 :: nat)"
  have "sy_closer ?end_state = CloserDone" "sy_next ?end_state = 1" by (simp_all add: demo_system_def)
  moreover have "\<forall>p < sy_next ?end_state. ss_closed (sy_heap ?end_state p)"
    using agent_close_waits_and_closes [OF 5] by (simp add: demo_system_def)
  ultimately show ?thesis using 5 by (intro exI [of _ ?end_state]) simp
qed

text \<open>With an external history store a ClearHistory can be lost: called from a callback after the
  turn was committed (a trace recorder runs then), it returns without an error, the question
  succeeds, no call is left running, and the turn is still stored; the request stays pending and
  makes the commit of a later question clear the store instead of appending to it.\<close>

definition list_history :: "(string \<Rightarrow> turn list) history_store" where
  "list_history = \<lparr>st_Append = (\<lambda>h i t. (None, h(i := h i @ [t]))), st_Clear = (\<lambda>h i. (None, h(i := [])))\<rparr>"

definition demo_external :: "(string \<Rightarrow> turn list) session_env" where
  "demo_external = \<lparr>se_maxRounds = 2, se_store = Some list_history, se_failOpen = False\<rparr>"

lemma external_clear_can_be_lost:
  "\<exists>s t. reachable demo_external s \<and> sy_calls s = {#} \<and> sy_store s ''s'' = [t]
     \<and> ss_pendingClear (sy_heap s 0) \<and> \<not> ss_executing (sy_heap s 0)
     \<and> fst (takePendingClear (sy_heap s 0))
     \<and> snd (commit_store list_history True ''s'' t' (sy_store s)) ''s'' = []"
proof -
  let ?none = "(\<lambda>_. []) :: string \<Rightarrow> turn list"
  let ?t = "\<lparr>tn_User = ''q'', tn_Assistant = ''a''\<rparr>"
  let ?h = "?none(''s'' := [?t])"
  let ?s = "newSession ''s'' 2 False"
  let ?run = "?s\<lparr>ss_slot := False, ss_executing := True\<rparr>"
  let ?emit = "?run\<lparr>ss_emitting := True, ss_pendingClear := True\<rparr>"
  let ?late = "?run\<lparr>ss_pendingClear := True\<rparr>"
  let ?st = "\<lambda>n d ss ph h. demo_system (demo_agent False True n d) ss {#Ask 0 ph#} CloserIdle h"
  note defs = demo_simps demo_external_def list_history_def commit_store_def
  have 0: "reachable demo_external (demo_system (demo_agent False True 0 0) ?s {#} CloserIdle ?none)"
    by (rule demo_start) (simp add: demo_external_def)
  have 1: "reachable demo_external (?st 0 0 ?s Checked ?none)"
    by (rule reach [OF 0 sys_step.check [where p = 0]]) (auto simp: defs)
  have 2: "reachable demo_external (?st 1 0 ?s Admitted ?none)"
    by (rule reach [OF 1 sys_step.admit [where p = 0]]) (auto simp: defs)
  have 3: "reachable demo_external (?st 1 0 (?s\<lparr>ss_slot := False\<rparr>) Waiting ?none)"
    by (rule reach [OF 2 sys_step.take_slot [where p = 0]]) (auto simp: defs)
  have 4: "reachable demo_external (?st 1 0 ?run (Running Uncommitted) ?none)"
    by (rule reach [OF 3 sys_step.begin_ok [where p = 0]]) (auto simp: defs)
  have 5: "reachable demo_external (?st 1 0 ?run (Committing False) ?none)"
    by (rule reach [OF 4 sys_step.commit_take [where p = 0 and st = list_history]]) (auto simp: defs)
  have 6: "reachable demo_external (?st 1 0 ?run (Running Committed) ?h)"
    by (rule reach [OF 5 sys_step.commit [where p = 0 and clear = False and t = ?t and st = list_history]]) (auto simp: defs)
  have 7: "reachable demo_external (?st 1 1 (?run\<lparr>ss_emitting := True\<rparr>) (InCallback Committed) ?h)"
    by (rule reach [OF 6 sys_step.callback_in [where p = 0]]) (auto simp: defs)
  have 8: "reachable demo_external (?st 1 1 ?emit (InCallback Committed) ?h)"
    by (rule reach [OF 7 sys_step.clear_mark [where p = 0 and ctx_err = None]]) (auto simp: defs)
  have 9: "reachable demo_external (?st 1 0 ?late (Running Committed) ?h)"
    by (rule reach [OF 8 sys_step.callback_out [where p = 0]]) (auto simp: defs)
  have 10: "reachable demo_external (?st 1 0 ?late (Returned ?t True) ?h)"
    by (rule reach [OF 9 sys_step.return_call [where p = 0 and t = ?t and ok = True]]) (auto simp: defs)
  have 11: "reachable demo_external (?st 1 0 (?late\<lparr>ss_executing := False\<rparr>) (Ended True) ?h)"
    by (rule reach [OF 10 sys_step.end_execution [where p = 0]]) (auto simp: defs)
  have 12: "reachable demo_external (?st 1 0 (?late\<lparr>ss_executing := False\<rparr>) Releasing ?h)"
    by (rule reach [OF 11 sys_step.end_ok [where p = 0]]) (auto simp: defs)
  have 13: "reachable demo_external (?st 1 0 (?s\<lparr>ss_pendingClear := True\<rparr>) Leaving ?h)"
    by (rule reach [OF 12 sys_step.release [where p = 0]]) (auto simp: defs)
  have 14: "reachable demo_external (demo_system (demo_agent False True 0 0) (?s\<lparr>ss_pendingClear := True\<rparr>) {#} CloserIdle ?h)"
    by (rule reach [OF 13 sys_step.leave [where p = 0]]) (auto simp: defs)
  show ?thesis
    by (intro exI conjI, rule 14) (auto simp: defs)
qed

end
