(* ===== verification/Knowledge.thy ===== *)
theory Knowledge
  imports AccessBoundary Rag
begin

section \<open>Knowledge: sources, converters, directory sync and the import pipeline\<close>

text \<open>
  \<^verbatim>\<open>source.go\<close>, \<^verbatim>\<open>sidecar_metadata.go\<close>, \<^verbatim>\<open>document_converter.go\<close>, \<^verbatim>\<open>directory_sync.go\<close>,
  \<^verbatim>\<open>knowledge_lifecycle.go\<close> and \<^verbatim>\<open>AddKnowledge\<close> of \<^verbatim>\<open>session.go\<close>. The file system, the JSON and
  YAML decoders, the bridge commands and the embedder are operations of parameter records; the
  vector store is a pair of operations on a state of its own, with the locale
  \<open>knowledge_store\<close> for what the pipeline relies on, which the chromem store provides.
\<close>

subsection \<open>Source files\<close>

datatype file_kind = RegularFile | Directory | Symlink | OtherFile

text \<open>\<open>fe_readFile\<close> returns no data for a file that does not exist; \<open>fe_walk\<close> lists the entries below
  a directory that the walk visits, in its order, and the error (of the file system or of the
  context) that ended it early.\<close>

record file_env =
  fe_lstat :: "string \<Rightarrow> file_kind result"
  fe_walk :: "string \<Rightarrow> (string \<times> file_kind) list \<times> go_error option"
  fe_readFile :: "string \<Rightarrow> string option result"
  fe_json :: "string \<Rightarrow> (string \<times> yaml_value) list result"
  fe_yaml :: "string \<Rightarrow> (string \<times> yaml_value) list result"

definition unsupported :: "string \<Rightarrow> go_error" where
  "unsupported t = errorf t [sentinel_error ''ragagent: unsupported source'' ErrUnsupportedSource]"

definition isSupportedKnowledgePath :: "string \<Rightarrow> bool" where
  "isSupportedKnowledgePath path \<longleftrightarrow> to_lower (path_ext path)
     \<in> set [''.txt'', ''.md'', ''.pdf'', ''.html'', ''.htm'', ''.png'', ''.jpg'', ''.jpeg'', ''.webp'']"

definition trim_suffix :: "string \<Rightarrow> string \<Rightarrow> string" where
  "trim_suffix s suf = (if has_suffix s suf then take (length s - length suf) s else s)"

text \<open>\<open>filepath.Base\<close>: the last element of the path, trailing slashes removed.\<close>

definition path_base :: "string \<Rightarrow> string" where
  "path_base path = (if path = '''' then ''.''
     else let p = dropWhile (\<lambda>c. c = CHR ''/'') (rev path)
          in if p = '''' then ''/'' else rev (takeWhile (\<lambda>c. c \<noteq> CHR ''/'') p))"

definition titleFromPath :: "string \<Rightarrow> string" where
  "titleFromPath path = (let base = path_base path in trim_suffix base (path_ext base))"

subsection \<open>Sidecar metadata\<close>

definition sidecarMetadataExtensions :: "string list" where
  "sidecarMetadataExtensions = [''.meta.yaml'', ''.meta.yml'', ''.meta.json'']"

definition candidateSidecarMetadataPaths :: "string \<Rightarrow> string list" where
  "candidateSidecarMetadataPaths path = map (\<lambda>suf. trim_suffix path (path_ext path) @ suf) sidecarMetadataExtensions"

definition isMetadataSidecarPath :: "string \<Rightarrow> bool" where
  "isMetadataSidecarPath path \<longleftrightarrow> list_ex (has_suffix (to_lower path)) sidecarMetadataExtensions"

definition parseMetadataMap :: "file_env \<Rightarrow> string \<Rightarrow> string \<Rightarrow> metadata result" where
  "parseMetadataMap env d ext =
     (let ext' = to_lower ext in
      if ext' = ''.json'' then (case fe_json env d of Inl e \<Rightarrow> Inl (wrap_err ''parse json metadata'' e) | Inr raw \<Rightarrow> stringifyMetadataMap raw)
      else if ext' = ''.yaml'' \<or> ext' = ''.yml'' then
        (case fe_yaml env d of Inl e \<Rightarrow> Inl (wrap_err ''parse yaml metadata'' e) | Inr raw \<Rightarrow> stringifyMetadataMap raw)
      else Inl (errorf (''unsupported metadata file extension '' @ ext) []))"

definition loadMetadataMapFile :: "file_env \<Rightarrow> string \<Rightarrow> metadata option result" where
  "loadMetadataMapFile env path = (case fe_readFile env path of
     Inl e \<Rightarrow> Inl e
   | Inr None \<Rightarrow> Inr None
   | Inr (Some d) \<Rightarrow> map_sum id Some (parseMetadataMap env d (path_ext path)))"

fun first_sidecar :: "file_env \<Rightarrow> string list \<Rightarrow> metadata result" where
  "first_sidecar env [] = Inr Map.empty"
| "first_sidecar env (p # ps) = (case loadMetadataMapFile env p of
     Inl e \<Rightarrow> Inl (wrap_err (''load sidecar metadata '' @ p) e)
   | Inr (Some m) \<Rightarrow> Inr m
   | Inr None \<Rightarrow> first_sidecar env ps)"

definition loadSidecarMetadataForSource :: "file_env \<Rightarrow> string \<Rightarrow> metadata result" where
  "loadSidecarMetadataForSource env path = first_sidecar env (candidateSidecarMetadataPaths path)"

subsection \<open>Resolve\<close>

definition knowledge_file_at :: "file_env \<Rightarrow> string \<Rightarrow> knowledge_file result" where
  "knowledge_file_at env path = map_sum id
     (\<lambda>m. \<lparr>kf_Path = path, kf_Title = titleFromPath path, kf_Metadata = m\<rparr>) (loadSidecarMetadataForSource env path)"

definition fileSource_Resolve :: "file_env \<Rightarrow> go_error option \<Rightarrow> string \<Rightarrow> bool \<Rightarrow> knowledge_file list result" where
  "fileSource_Resolve env ctx_err path allowUnsupported =
     (case ctx_err of Some e \<Rightarrow> Inl e | None \<Rightarrow>
      if \<not> isSupportedKnowledgePath path \<and> \<not> allowUnsupported
      then Inl (unsupported (''unsupported file extension for '' @ path))
      else case fe_lstat env path of
        Inl e \<Rightarrow> Inl (wrap_err (''stat source file '' @ path) e)
      | Inr Directory \<Rightarrow> Inl (unsupported (''file source is directory '' @ path))
      | Inr RegularFile \<Rightarrow> map_sum id (\<lambda>f. [f]) (knowledge_file_at env path)
      | Inr _ \<Rightarrow> Inl (unsupported (''file source must be a regular file '' @ path)))"

text \<open>The entries a walk keeps, in walk order; the first sidecar that cannot be read stops it.\<close>

definition walk_keeps :: "string \<times> file_kind \<Rightarrow> bool" where
  "walk_keeps x \<longleftrightarrow> snd x = RegularFile \<and> \<not> isMetadataSidecarPath (fst x) \<and> isSupportedKnowledgePath (fst x)"

fun walk_files :: "file_env \<Rightarrow> (string \<times> file_kind) list \<Rightarrow> knowledge_file list result" where
  "walk_files env [] = Inr []"
| "walk_files env (x # xs) =
     (if \<not> walk_keeps x then walk_files env xs
      else case knowledge_file_at env (fst x) of
        Inl e \<Rightarrow> Inl e
      | Inr f \<Rightarrow> map_sum id (\<lambda>fs. f # fs) (walk_files env xs))"

definition is_ctx_error :: "go_error \<Rightarrow> bool" where
  "is_ctx_error e \<longleftrightarrow> err_is e CtxCanceled \<or> err_is e CtxDeadlineExceeded"

definition dirSource_Resolve :: "file_env \<Rightarrow> go_error option \<Rightarrow> string \<Rightarrow> knowledge_file list result" where
  "dirSource_Resolve env ctx_err path =
     (case ctx_err of Some e \<Rightarrow> Inl e | None \<Rightarrow>
      (case fe_lstat env path of
         Inl e \<Rightarrow> Inl (wrap_err (''stat source dir '' @ path) e)
       | Inr Symlink \<Rightarrow> Inl (unsupported (''dir source must not be a symlink '' @ path))
       | Inr Directory \<Rightarrow>
           (case (case walk_files env (fst (fe_walk env path)) of Inl e \<Rightarrow> Inl e
                  | Inr files \<Rightarrow> (case snd (fe_walk env path) of Some e \<Rightarrow> Inl e | None \<Rightarrow> Inr files)) of
              Inl e \<Rightarrow> Inl (if is_ctx_error e then e else wrap_err (''walk source dir '' @ path) e)
            | Inr files \<Rightarrow> Inr (sort_key kf_Path files))
       | Inr _ \<Rightarrow> Inl (unsupported (''dir source is not a directory '' @ path))))"

definition materializeBridgeArgs :: "string list \<Rightarrow> string \<Rightarrow> string list \<times> bool" where
  "materializeBridgeArgs args outputDir =
     (map (\<lambda>a. if contains a ''{output}'' then replace_all a ''{output}'' outputDir else a) args,
      list_ex (\<lambda>a. contains a ''{output}'') args)"

record youdao_config =
  yd_Command :: string
  yd_Args :: "string list"

text \<open>The bridge command: found or not, a fresh directory, and a run that may fail; cleaning up an
  old export directory has no effect that the source reads.\<close>

record youdao_env =
  ye_lookPath :: "string \<Rightarrow> string option"
  ye_mkdirTemp :: "string result"
  ye_run :: "string \<Rightarrow> string list \<Rightarrow> go_error option"

definition youdao_Resolve ::
  "file_env \<Rightarrow> youdao_env \<Rightarrow> go_error option \<Rightarrow> youdao_config \<Rightarrow> knowledge_file list result" where
  "youdao_Resolve env yenv ctx_err cfg =
     (case ctx_err of Some e \<Rightarrow> Inl e | None \<Rightarrow>
      (let command = (if blank (yd_Command cfg) then ''youdaonote'' else trim_space (yd_Command cfg)) in
       case ye_lookPath yenv command of
         None \<Rightarrow> Inl (unsupported (''youdao bridge command '' @ command @ '' not found''))
       | Some commandPath \<Rightarrow>
         (if yd_Args cfg = [] \<or> \<not> snd (materializeBridgeArgs (yd_Args cfg) '''')
          then Inl (unsupported ''youdao bridge args must include {output}'')
          else case ye_mkdirTemp yenv of
            Inl e \<Rightarrow> Inl (wrap_err ''create youdao export dir'' e)
          | Inr exportDir \<Rightarrow>
            (case ye_run yenv commandPath (fst (materializeBridgeArgs (yd_Args cfg) exportDir)) of
               Some e \<Rightarrow> Inl (wrap_err ''run youdao bridge export'' e)
             | None \<Rightarrow> (case dirSource_Resolve env None exportDir of
                  Inl e \<Rightarrow> Inl e
                | Inr files \<Rightarrow> if files = [] then Inl (unsupported ''youdao bridge export produced no supported files'')
                                else Inr files)))))"

datatype knowledge_source =
    FileSource string bool
  | DirSource string
  | OtherSource "knowledge_file list result"

definition source_Resolve :: "file_env \<Rightarrow> go_error option \<Rightarrow> knowledge_source \<Rightarrow> knowledge_file list result" where
  "source_Resolve env ctx_err src = (case src of
     FileSource p allow \<Rightarrow> fileSource_Resolve env ctx_err p allow
   | DirSource p \<Rightarrow> dirSource_Resolve env ctx_err p
   | OtherSource r \<Rightarrow> r)"

definition knowledgeDirectoryRoot :: "knowledge_source \<Rightarrow> string option" where
  "knowledgeDirectoryRoot src = (case src of DirSource p \<Rightarrow> Some p | _ \<Rightarrow> None)"

subsection \<open>Document converters\<close>

text \<open>A converter's document comes with whether its metadata map is there at all (it may be nil).\<close>

record document_converter =
  dc_Name :: string
  dc_Supports :: "string \<Rightarrow> bool result"
  dc_Convert :: "string \<Rightarrow> string \<Rightarrow> metadata \<Rightarrow> (document \<times> bool) result"

fun loadDocumentWithConverters ::
  "document_converter option list \<Rightarrow> (string \<Rightarrow> string \<Rightarrow> metadata \<Rightarrow> document result)
   \<Rightarrow> string \<Rightarrow> string \<Rightarrow> metadata \<Rightarrow> document result" where
  "loadDocumentWithConverters [] load path title md = load path title md"
| "loadDocumentWithConverters (None # cs) load path title md = loadDocumentWithConverters cs load path title md"
| "loadDocumentWithConverters (Some c # cs) load path title md = (case dc_Supports c path of
     Inl e \<Rightarrow> Inl (wrap_err (''check document converter '' @ dc_Name c @ '' for '' @ path) e)
   | Inr False \<Rightarrow> loadDocumentWithConverters cs load path title md
   | Inr True \<Rightarrow> (case dc_Convert c path title md of
        Inl e \<Rightarrow> Inl (wrap_err (''convert knowledge file '' @ path @ '' with '' @ dc_Name c) e)
      | Inr (doc, has_metadata) \<Rightarrow>
          (let doc = (if blank (doc_SourcePath doc) then doc\<lparr>doc_SourcePath := path\<rparr> else doc);
               doc = (if blank (doc_Title doc) then doc\<lparr>doc_Title := title\<rparr> else doc)
           in Inr (if has_metadata then doc else doc\<lparr>doc_Metadata := md\<rparr>))))"

definition normalizeExtensions :: "string list \<Rightarrow> string list" where
  "normalizeExtensions exts = sort_compact (map (\<lambda>e. if has_prefix e ''.'' then e else ''.'' @ e)
     (filter (\<lambda>e. e \<noteq> '''') (map (\<lambda>e. to_lower (trim_space e)) exts)))"

definition argsContainPlaceholder :: "string list \<Rightarrow> string \<Rightarrow> bool" where
  "argsContainPlaceholder args placeholder \<longleftrightarrow> list_ex (\<lambda>a. contains a placeholder) args"

definition replaceCommandPlaceholders :: "string list \<Rightarrow> string \<Rightarrow> string \<Rightarrow> string list" where
  "replaceCommandPlaceholders args input output =
     map (\<lambda>a. replace_all (replace_all a ''{input}'' input) ''{output}'' output) args"

record command_converter =
  cc_Name :: string
  cc_Extensions :: "string list"
  cc_Command :: string
  cc_Args :: "string list"
  cc_OutputExt :: string
  cc_Env :: "string list"
  cc_WorkDir :: string

definition newCommandDocumentConverter :: "command_converter \<Rightarrow> command_converter result" where
  "newCommandDocumentConverter cfg =
     (let cfg = cfg\<lparr>cc_Name := trim_space (cc_Name cfg)\<rparr> in
      if cc_Name cfg = '''' then Inl (invalid_config ''document converter name is required'')
      else let cfg = cfg\<lparr>cc_Command := trim_space (cc_Command cfg)\<rparr> in
      if cc_Command cfg = '''' then Inl (invalid_config ''document converter command is required'')
      else if \<not> argsContainPlaceholder (cc_Args cfg) ''{input}'' then Inl (invalid_config ''document converter args must contain {input}'')
      else if \<not> argsContainPlaceholder (cc_Args cfg) ''{output}'' then Inl (invalid_config ''document converter args must contain {output}'')
      else let extensions = normalizeExtensions (cc_Extensions cfg) in
      if extensions = [] then Inl (invalid_config ''document converter extensions are required'')
      else let ext = (if blank (cc_OutputExt cfg) then ''.md'' else cc_OutputExt cfg);
               ext = (if has_prefix ext ''.'' then ext else ''.'' @ ext)
           in Inr (cfg\<lparr>cc_Extensions := extensions, cc_OutputExt := ext\<rparr>))"

definition command_Supports :: "command_converter \<Rightarrow> string \<Rightarrow> bool" where
  "command_Supports c path \<longleftrightarrow> to_lower (path_ext path) \<in> set (cc_Extensions c)"

subsection \<open>Directory sync\<close>

text \<open>The paths of the last successful import of every directory root, in memory and (when there is a
  data directory) in a manifest on disk.\<close>

record 'd dir_sync =
  sync_persistent :: bool
  sync_roots :: "string \<rightharpoonup> string list"
  sync_disk :: 'd

definition normalizeDirectorySyncPaths :: "string list \<Rightarrow> string list" where
  "normalizeDirectorySyncPaths paths =
     sort_compact (map path_clean (filter (\<lambda>p. p \<noteq> '''') (map trim_space paths)))"

definition diffDirectorySyncPaths :: "string list \<Rightarrow> string list \<Rightarrow> string list" where
  "diffDirectorySyncPaths previous current = filter (\<lambda>p. p \<notin> set current) previous"

definition unionDirectorySyncPaths :: "string list \<Rightarrow> string list \<Rightarrow> string list" where
  "unionDirectorySyncPaths a b = normalizeDirectorySyncPaths (a @ b)"

definition newDirectorySyncState ::
  "string \<Rightarrow> (string \<times> string list) list option result \<Rightarrow> 'd \<Rightarrow> 'd dir_sync result" where
  "newDirectorySyncState dataDir manifest disk =
     (if blank dataDir then Inr \<lparr>sync_persistent = False, sync_roots = Map.empty, sync_disk = disk\<rparr>
      else case manifest of
        Inl e \<Rightarrow> Inl e
      | Inr None \<Rightarrow> Inr \<lparr>sync_persistent = True, sync_roots = Map.empty, sync_disk = disk\<rparr>
      | Inr (Some entries) \<Rightarrow> Inr \<lparr>sync_persistent = True,
          sync_roots = fold (\<lambda>(r, ps) m. m(path_clean r \<mapsto> normalizeDirectorySyncPaths ps)) entries Map.empty,
          sync_disk = disk\<rparr>)"

type_synonym 'd manifest_write = "'d \<Rightarrow> (string \<rightharpoonup> string list) \<Rightarrow> go_error option \<times> 'd"

definition persist :: "'d manifest_write \<Rightarrow> (string \<rightharpoonup> string list) \<Rightarrow> 'd dir_sync \<Rightarrow> go_error option \<times> 'd dir_sync" where
  "persist write roots st = (if \<not> sync_persistent st then (None, st)
     else case write (sync_disk st) roots of (e, d) \<Rightarrow> (e, st\<lparr>sync_disk := d\<rparr>))"

definition sync_with ::
  "'d manifest_write \<Rightarrow> (string \<rightharpoonup> string list) \<Rightarrow> ('s \<Rightarrow> go_error option \<times> 's)
   \<Rightarrow> 'd dir_sync \<times> 's \<Rightarrow> go_error option \<times> 'd dir_sync \<times> 's" where
  "sync_with write nextRoots apply_change = (\<lambda>(st, s). case apply_change s of
     (Some e, s') \<Rightarrow> (Some e, st, s')
   | (None, s') \<Rightarrow> (case persist write nextRoots st of
        (Some e, st') \<Rightarrow> (Some e, st', s')
      | (None, st') \<Rightarrow> (None, st'\<lparr>sync_roots := nextRoots\<rparr>, s')))"

definition ds_Sync ::
  "'d manifest_write \<Rightarrow> string \<Rightarrow> string list \<Rightarrow> (string list \<Rightarrow> 's \<Rightarrow> go_error option \<times> 's)
   \<Rightarrow> 'd dir_sync \<times> 's \<Rightarrow> go_error option \<times> 'd dir_sync \<times> 's" where
  "ds_Sync write rootDir currentPaths apply_stale = (\<lambda>(st, s).
     (let rootDir = path_clean rootDir;
          currentPaths = normalizeDirectorySyncPaths currentPaths;
          previousPaths = (case sync_roots st rootDir of None \<Rightarrow> [] | Some ps \<Rightarrow> ps);
          stalePaths = diffDirectorySyncPaths previousPaths currentPaths;
          nextRoots = (sync_roots st)(rootDir := (if currentPaths = [] then None else Some currentPaths))
      in sync_with write nextRoots (apply_stale stalePaths) (st, s)))"

definition ds_Remove ::
  "'d manifest_write \<Rightarrow> string \<Rightarrow> string list \<Rightarrow> (string list \<Rightarrow> 's \<Rightarrow> go_error option \<times> 's)
   \<Rightarrow> 'd dir_sync \<times> 's \<Rightarrow> go_error option \<times> 'd dir_sync \<times> 's" where
  "ds_Remove write rootDir currentPaths apply_paths = (\<lambda>(st, s).
     (let rootDir = path_clean rootDir;
          currentPaths = normalizeDirectorySyncPaths currentPaths;
          sourcePaths = unionDirectorySyncPaths (case sync_roots st rootDir of None \<Rightarrow> [] | Some ps \<Rightarrow> ps) currentPaths
      in sync_with write ((sync_roots st)(rootDir := None)) (apply_paths sourcePaths) (st, s)))"

subsection \<open>Import, removal, rebuild\<close>

record ('s, 'd) knowledge_env =
  kn_files :: file_env
  kn_boundary :: access_boundary
  kn_converters :: "document_converter option list"
  kn_load :: "string \<Rightarrow> string \<Rightarrow> metadata \<Rightarrow> document result"
  kn_chunker :: chunker
  kn_embed :: "string list \<Rightarrow> embedding list result"
  kn_upsert :: "chunk_record list \<Rightarrow> 's \<Rightarrow> go_error option \<times> 's"
  kn_delete :: "string list \<Rightarrow> 's \<Rightarrow> go_error option \<times> 's"
  kn_write :: "'d manifest_write"

definition chunk_to_record :: "string \<Rightarrow> chunk \<times> embedding \<Rightarrow> chunk_record" where
  "chunk_to_record namespace ce = (case ce of (c, e) \<Rightarrow>
     \<lparr>cr_ChunkID = ch_ChunkID c, cr_ParentID = ch_ParentID c, cr_SourcePath = ch_SourcePath c, cr_Title = ch_Title c,
      cr_Text = ch_Text c, cr_StartRune = int (ch_StartRune c), cr_EndRune = int (ch_EndRune c),
      cr_Metadata = applyNamespaceMetadata (ch_Metadata c) namespace, cr_Embedding = e\<rparr>)"

text \<open>One file: boundary, load, split, embed. The outer option is \<open>None\<close> only when the chunker does not
  return, which NewChunker rules out.\<close>

definition file_records :: "('s, 'd) knowledge_env \<Rightarrow> knowledge_file \<Rightarrow> (string \<times> chunk_record list) result option" where
  "file_records env file =
     (case applyToKnowledgeFile (kn_boundary env) file of
        Inl e \<Rightarrow> Some (Inl (wrap_err (''apply access boundary to knowledge file '' @ kf_Path file) e))
      | Inr file \<Rightarrow> (case loadDocumentWithConverters (kn_converters env) (kn_load env) (kf_Path file) (kf_Title file) (kf_Metadata file) of
          Inl e \<Rightarrow> Some (Inl (wrap_err (''load knowledge file '' @ kf_Path file) e))
        | Inr doc \<Rightarrow> Option.bind (chunker_split (kn_chunker env) doc) (\<lambda>chunks.
            if chunks = [] then Some (Inr (kf_Path file, []))
            else (case kn_embed env (map ch_Text chunks) of
                Inl e \<Rightarrow> Some (Inl (wrap_err (''embed knowledge chunks for '' @ kf_Path file) e))
              | Inr embeddings \<Rightarrow>
                  (if length embeddings \<noteq> length chunks
                   then Some (Inl (errorf (''embedding count does not match chunk count for '' @ kf_Path file) []))
                   else Some (Inr (kf_Path file,
                     map (chunk_to_record (ab_Namespace (kn_boundary env))) (zip chunks embeddings))))))))"

fun all_records :: "('s, 'd) knowledge_env \<Rightarrow> knowledge_file list \<Rightarrow> (string list \<times> chunk_record list) result option" where
  "all_records env [] = Some (Inr ([], []))"
| "all_records env (f # fs) = Option.bind (file_records env f) (\<lambda>r. case r of
     Inl e \<Rightarrow> Some (Inl e)
   | Inr (p, rs) \<Rightarrow> Option.bind (all_records env fs) (\<lambda>r. case r of
        Inl e \<Rightarrow> Some (Inl e) | Inr (ps, rss) \<Rightarrow> Some (Inr (p # ps, rs @ rss))))"

definition upsert_records :: "('s, 'd) knowledge_env \<Rightarrow> chunk_record list \<Rightarrow> 's \<Rightarrow> go_error option \<times> 's" where
  "upsert_records env records s = (if records = [] then (None, s)
     else case kn_upsert env records s of (e, s') \<Rightarrow> (map_option (wrap_err ''upsert knowledge chunks'') e, s'))"

definition apply_sync :: "('s, 'd) knowledge_env \<Rightarrow> chunk_record list \<Rightarrow> string list \<Rightarrow> 's \<Rightarrow> go_error option \<times> 's" where
  "apply_sync env records stalePaths s = (case upsert_records env records s of
     (Some e, s') \<Rightarrow> (Some e, s')
   | (None, s') \<Rightarrow> (if stalePaths = [] then (None, s')
       else case kn_delete env stalePaths s' of (e, s'') \<Rightarrow> (map_option (wrap_err ''delete stale knowledge source paths'') e, s'')))"

definition store_import ::
  "('s, 'd) knowledge_env \<Rightarrow> knowledge_source \<Rightarrow> 'd dir_sync \<times> 's \<Rightarrow> (string list \<times> chunk_record list) result
   \<Rightarrow> go_error option \<times> 'd dir_sync \<times> 's" where
  "store_import env src st r = (case r of Inl e \<Rightarrow> (Some e, st) | Inr (paths, records) \<Rightarrow>
     (case knowledgeDirectoryRoot src of
        Some rootDir \<Rightarrow> ds_Sync (kn_write env) rootDir paths (apply_sync env records) st
      | None \<Rightarrow> (case upsert_records env records (snd st) of (e, s) \<Rightarrow> (e, fst st, s))))"

text \<open>\<open>op_err\<close> is the refusal of \<^verbatim>\<open>beginOperation\<close>, \<open>src = None\<close> the nil source.\<close>

definition addKnowledge ::
  "('s, 'd) knowledge_env \<Rightarrow> go_error option \<Rightarrow> go_error option \<Rightarrow> knowledge_source option
   \<Rightarrow> 'd dir_sync \<times> 's \<Rightarrow> (go_error option \<times> 'd dir_sync \<times> 's) option" where
  "addKnowledge env op_err ctx_err src st =
     (case op_err of Some e \<Rightarrow> Some (Some e, st) | None \<Rightarrow>
     (case ctx_err of Some e \<Rightarrow> Some (Some e, st) | None \<Rightarrow>
     (case src of None \<Rightarrow> Some (Some (unsupported ''knowledge source is nil''), st) | Some src \<Rightarrow>
     (case source_Resolve (kn_files env) None src of Inl e \<Rightarrow> Some (Some e, st) | Inr files \<Rightarrow>
       map_option (store_import env src st) (all_records env files)))))"

definition resolveKnowledgeSourcePaths :: "file_env \<Rightarrow> knowledge_source \<Rightarrow> string list result" where
  "resolveKnowledgeSourcePaths env src = (case src of
     FileSource p _ \<Rightarrow> Inr [path_clean p]
   | _ \<Rightarrow> map_sum id (\<lambda>fs. normalizeDirectorySyncPaths (map (\<lambda>f. path_clean (kf_Path f)) fs)) (source_Resolve env None src))"

definition deleteKnowledgeSourcePaths :: "('s, 'd) knowledge_env \<Rightarrow> string list \<Rightarrow> 's \<Rightarrow> go_error option \<times> 's" where
  "deleteKnowledgeSourcePaths env paths s = (if paths = [] then (None, s)
     else case kn_delete env paths s of (e, s') \<Rightarrow> (map_option (wrap_err ''delete knowledge source paths'') e, s'))"

text \<open>\<open>not_exist\<close> is \<^verbatim>\<open>os.IsNotExist\<close>. A directory that is gone has no current paths.\<close>

definition removeKnowledge ::
  "('s, 'd) knowledge_env \<Rightarrow> (go_error \<Rightarrow> bool) \<Rightarrow> go_error option \<Rightarrow> go_error option \<Rightarrow> knowledge_source option
   \<Rightarrow> 'd dir_sync \<times> 's \<Rightarrow> go_error option \<times> 'd dir_sync \<times> 's" where
  "removeKnowledge env not_exist op_err ctx_err src st =
     (case op_err of Some e \<Rightarrow> (Some e, st) | None \<Rightarrow>
     (case ctx_err of Some e \<Rightarrow> (Some e, st) | None \<Rightarrow>
     (case src of None \<Rightarrow> (Some (unsupported ''knowledge source is nil''), st) | Some src \<Rightarrow>
     (case knowledgeDirectoryRoot src of
        Some rootDir \<Rightarrow> (case resolveKnowledgeSourcePaths (kn_files env) src of
            Inl e \<Rightarrow> if not_exist e then ds_Remove (kn_write env) rootDir [] (deleteKnowledgeSourcePaths env) st else (Some e, st)
          | Inr paths \<Rightarrow> ds_Remove (kn_write env) rootDir paths (deleteKnowledgeSourcePaths env) st)
      | None \<Rightarrow> (case resolveKnowledgeSourcePaths (kn_files env) src of
            Inl e \<Rightarrow> (Some e, st)
          | Inr paths \<Rightarrow> (case deleteKnowledgeSourcePaths env paths (snd st) of (e, s) \<Rightarrow> (e, fst st, s)))))))"

definition rebuildKnowledge ::
  "('s, 'd) knowledge_env \<Rightarrow> (go_error \<Rightarrow> bool) \<Rightarrow> go_error option \<Rightarrow> go_error option \<Rightarrow> knowledge_source option
   \<Rightarrow> 'd dir_sync \<times> 's \<Rightarrow> (go_error option \<times> 'd dir_sync \<times> 's) option" where
  "rebuildKnowledge env not_exist op_err ctx_err src st = (case removeKnowledge env not_exist op_err ctx_err src st of
     (Some e, st') \<Rightarrow> Some (Some e, st') | (None, st') \<Rightarrow> addKnowledge env op_err ctx_err src st')"

subsection \<open>What the pipeline relies on in the store\<close>

text \<open>\<open>contents\<close> are the stored items, \<open>item\<close> the item a record becomes and \<open>source_of\<close> its source path.\<close>

locale knowledge_store =
  fixes upsert :: "chunk_record list \<Rightarrow> 's \<Rightarrow> go_error option \<times> 's"
    and remove :: "string list \<Rightarrow> 's \<Rightarrow> go_error option \<times> 's"
    and contents :: "'s \<Rightarrow> 'x set"
    and item :: "chunk_record \<Rightarrow> 'x"
    and source_of :: "'x \<Rightarrow> string option"
  assumes upsert_stores: "upsert rs s = (None, s') \<Longrightarrow> r \<in> set rs \<Longrightarrow> item r \<in> contents s'"
    and upsert_only: "upsert rs s = (None, s') \<Longrightarrow> contents s' \<subseteq> contents s \<union> item ` set rs"
    and remove_exact: "remove ps s = (None, s') \<Longrightarrow> contents s' = {x \<in> contents s. source_of x \<notin> Some ` set ps}"
    and source_item: "source_of (item r) = Some (cr_SourcePath r)"
begin

lemma apply_sync_result:
  assumes env: "kn_upsert env = upsert" "kn_delete env = remove"
    and run: "apply_sync env records stale s = (None, s')"
  shows "contents s' \<subseteq> contents s \<union> item ` set records"
    and "x \<in> contents s' \<Longrightarrow> source_of x \<notin> Some ` set stale"
    and "r \<in> set records \<Longrightarrow> cr_SourcePath r \<notin> set stale \<Longrightarrow> item r \<in> contents s'"
proof -
  obtain s1 where s1: "upsert_records env records s = (None, s1)"
    and s': "stale = [] \<and> s' = s1 \<or> stale \<noteq> [] \<and> remove stale s1 = (None, s')"
    using run env by (auto simp: apply_sync_def split: prod.splits option.splits if_splits)
  have up: "contents s1 \<subseteq> contents s \<union> item ` set records" "\<forall>r \<in> set records. item r \<in> contents s1"
    using s1 env upsert_only [of records s s1] upsert_stores [of records s s1]
    by (auto simp: upsert_records_def split: prod.splits if_splits)
  have c: "contents s' = {x \<in> contents s1. source_of x \<notin> Some ` set stale}"
    using s' remove_exact by auto
  show "contents s' \<subseteq> contents s \<union> item ` set records" using up c by auto
  show "x \<in> contents s' \<Longrightarrow> source_of x \<notin> Some ` set stale" using c by simp
  show "r \<in> set records \<Longrightarrow> cr_SourcePath r \<notin> set stale \<Longrightarrow> item r \<in> contents s'" using up c source_item by auto
qed

lemma delete_paths_result:
  assumes env: "kn_delete env = remove" and run: "deleteKnowledgeSourcePaths env ps s = (None, s')"
  shows "contents s' = {x \<in> contents s. source_of x \<notin> Some ` set ps}"
  using run env remove_exact [of ps s s'] by (auto simp: deleteKnowledgeSourcePaths_def split: prod.splits if_splits)

end

subsection \<open>Lemmas of the pipeline\<close>

lemma sync_with_ok:
  assumes "sync_with write next change (st, s) = (None, st', s')"
  shows "change s = (None, s')" "sync_roots st' = next"
  using assms by (auto simp: sync_with_def persist_def split: prod.splits option.splits if_splits)

lemma sync_with_failed:
  "sync_with write next change (st, s) = (Some e, st', s') \<Longrightarrow> sync_roots st' = sync_roots st"
  by (auto simp: sync_with_def persist_def split: prod.splits option.splits if_splits)

definition known_paths :: "'d dir_sync \<Rightarrow> string \<Rightarrow> string list" where
  "known_paths st rootDir = (case sync_roots st (path_clean rootDir) of None \<Rightarrow> [] | Some ps \<Rightarrow> ps)"

lemma ds_Sync_ok:
  assumes "ds_Sync write rootDir paths change (st, s) = (None, st', s')"
  shows "change (diffDirectorySyncPaths (known_paths st rootDir) (normalizeDirectorySyncPaths paths)) s = (None, s')"
    and "known_paths st' rootDir = normalizeDirectorySyncPaths paths"
    and "r \<noteq> path_clean rootDir \<Longrightarrow> sync_roots st' r = sync_roots st r"
  using sync_with_ok [OF assms [unfolded ds_Sync_def Let_def prod.case]] by (auto simp: known_paths_def)

lemma ds_failed:
  "ds_Sync write rootDir paths change (st, s) = (Some e, st', s') \<Longrightarrow> sync_roots st' = sync_roots st"
  "ds_Remove write rootDir paths change' (st, s) = (Some e, st', s') \<Longrightarrow> sync_roots st' = sync_roots st"
  by (auto simp: ds_Sync_def ds_Remove_def Let_def dest: sync_with_failed)

lemma ds_Remove_ok:
  assumes "ds_Remove write rootDir paths change (st, s) = (None, st', s')"
  shows "change (unionDirectorySyncPaths (known_paths st rootDir) (normalizeDirectorySyncPaths paths)) s = (None, s')"
    and "known_paths st' rootDir = []"
  using sync_with_ok [OF assms [unfolded ds_Remove_def Let_def prod.case]] by (auto simp: known_paths_def)

lemma file_records_ok:
  assumes "file_records env f = Some (Inr (p, rs))"
  obtains f' doc chunks es where "applyToKnowledgeFile (kn_boundary env) f = Inr f'" "p = kf_Path f'"
    and "loadDocumentWithConverters (kn_converters env) (kn_load env) (kf_Path f') (kf_Title f') (kf_Metadata f') = Inr doc"
    and "chunker_split (kn_chunker env) doc = Some chunks" "length es = length chunks"
    and "rs = map (chunk_to_record (ab_Namespace (kn_boundary env))) (zip chunks es)"
proof -
  obtain f' where f': "applyToKnowledgeFile (kn_boundary env) f = Inr f'"
    using assms by (cases "applyToKnowledgeFile (kn_boundary env) f") (auto simp: file_records_def)
  let ?load = "loadDocumentWithConverters (kn_converters env) (kn_load env) (kf_Path f') (kf_Title f') (kf_Metadata f')"
  obtain doc where doc: "?load = Inr doc"
    using assms f' by (cases ?load) (auto simp: file_records_def)
  obtain chunks where c: "chunker_split (kn_chunker env) doc = Some chunks"
    using assms f' doc by (cases "chunker_split (kn_chunker env) doc") (auto simp: file_records_def)
  note f = f' doc c
  show thesis
  proof (cases "chunks = []")
    case True
    then show thesis using assms f that [of f' doc "[]" "[]"] by (simp add: file_records_def)
  next
    case False
    then show thesis using assms f that [of f' doc chunks]
      by (auto simp: file_records_def split: sum.split_asm if_split_asm)
  qed
qed

lemma file_records_namespace:
  assumes "file_records env f = Some (Inr (p, rs))" "r \<in> set rs" "\<not> blank (ab_Namespace (kn_boundary env))"
  shows "cr_Metadata r namespaceKey = Some (ab_Namespace (kn_boundary env))"
  using assms by (elim file_records_ok) (auto simp: chunk_to_record_def applyNamespaceMetadata_def)

lemma all_records_Cons:
  assumes "all_records env (f # fs) = Some (Inr (ps, rs))"
  obtains p rs1 ps2 rs2 where "file_records env f = Some (Inr (p, rs1))" "all_records env fs = Some (Inr (ps2, rs2))"
    "ps = p # ps2" "rs = rs1 @ rs2"
proof -
  obtain r where r: "file_records env f = Some r" using assms by (cases "file_records env f") auto
  obtain p rs1 where pr: "r = Inr (p, rs1)" using assms r by (cases r) auto
  obtain r2 where r2: "all_records env fs = Some r2" using assms r pr by (cases "all_records env fs") auto
  obtain ps2 rs2 where "r2 = Inr (ps2, rs2)" using assms r pr r2 by (cases r2) auto
  with r pr r2 assms show thesis by (intro that [of p rs1 ps2 rs2]) auto
qed

lemma all_records_from:
  assumes "all_records env fs = Some (Inr (ps, rs))"
  shows "r \<in> set rs \<Longrightarrow> \<exists>f \<in> set fs. \<exists>p rs'. file_records env f = Some (Inr (p, rs')) \<and> r \<in> set rs'"
  using assms
proof (induction fs arbitrary: ps rs)
  case (Cons f fs)
  obtain p rs1 ps2 rs2 where s: "file_records env f = Some (Inr (p, rs1))" "all_records env fs = Some (Inr (ps2, rs2))"
    "rs = rs1 @ rs2" using Cons.prems(2) by (rule all_records_Cons)
  then show ?case using Cons.prems(1) Cons.IH [OF _ s(2)] by auto
qed simp

lemma all_records_return:
  assumes "chunker_ok (kn_chunker env)"
  shows "\<exists>r. all_records env fs = Some r"
proof -
  have one: "\<exists>r. file_records env f = Some r" for f
  proof -
    have split: "\<exists>cs. chunker_split (kn_chunker env) doc = Some cs" for doc
      using chunker_split_spec [OF assms, of doc] by blast
    show ?thesis
    proof (cases "applyToKnowledgeFile (kn_boundary env) f")
      case (Inr f')
      let ?load = "loadDocumentWithConverters (kn_converters env) (kn_load env) (kf_Path f') (kf_Title f') (kf_Metadata f')"
      show ?thesis
      proof (cases ?load)
        case r: (Inr doc)
        obtain cs where "chunker_split (kn_chunker env) doc = Some cs" using split by blast
        with Inr r show ?thesis by (simp add: file_records_def split: sum.split)
      qed (simp add: file_records_def Inr)
    qed (simp add: file_records_def)
  qed
  show ?thesis
  proof (induction fs)
    case (Cons f fs)
    obtain r rr where "file_records env f = Some r" "all_records env fs = Some rr" using one Cons by blast
    then show ?case by (cases r; cases rr) auto
  qed simp
qed

text \<open>Unfolded once: what a successful import has done.\<close>

lemma addKnowledge_ok:
  assumes "addKnowledge env op_err ctx_err (Some src) (st, s) = Some (None, st', s')"
  obtains files paths records where "source_Resolve (kn_files env) None src = Inr files"
    and "all_records env files = Some (Inr (paths, records))"
    and "store_import env src (st, s) (Inr (paths, records)) = (None, st', s')"
proof -
  obtain files where f: "source_Resolve (kn_files env) None src = Inr files" "op_err = None" "ctx_err = None"
    using assms by (auto simp: addKnowledge_def split: option.split_asm sum.split_asm)
  obtain r' where r': "all_records env files = Some r'"
    using assms f by (cases "all_records env files") (auto simp: addKnowledge_def)
  then obtain paths records where r: "all_records env files = Some (Inr (paths, records))"
    using assms f by (cases r') (auto simp: addKnowledge_def store_import_def)
  show thesis
    by (rule that [OF f(1) r]) (use assms f r in \<open>simp add: addKnowledge_def\<close>)
qed

subsection \<open>The chromem store as a knowledge store\<close>

lemma chromem_knowledge_store:
  assumes ok: "chromem_ok col docs sim"
  shows "knowledge_store (chromem_Upsert col e1 e2) (chromem_Delete col e1 e2) (\<lambda>c. ran (docs c)) chunkToDoc chromem_source"
proof
  fix rs s s' r ps
  show "chromem_source (chunkToDoc r) = Some (cr_SourcePath r)"
    by (simp add: chromem_source_def chunkToDoc_def chunkToMetadata_own)
  show "chromem_Delete col e1 e2 ps s = (None, s') \<Longrightarrow>
      ran (docs s') = {x \<in> ran (docs s). chromem_source x \<notin> Some ` set ps}"
    by (rule chromem_Delete_docs [OF ok])
  assume run: "chromem_Upsert col e1 e2 rs s = (None, s')"
  show "r \<in> set rs \<Longrightarrow> chunkToDoc r \<in> ran (docs s')"
    using upsert_docs [OF ok run, of "cr_ChunkID r" "chunkToDoc r" "cr_ParentID r"] by (auto simp: ran_def)
  show "ran (docs s') \<subseteq> ran (docs s) \<union> chunkToDoc ` set rs"
    using chromem_Upsert_only [OF ok run] by blast
qed

interpretation chromem_knowledge: knowledge_store "chromem_Upsert (list_collection sim) e1 e2"
  "chromem_Delete (list_collection sim) e1 e2" "\<lambda>c. ran (ldocs c)" chunkToDoc chromem_source for sim e1 e2
  by (rule chromem_knowledge_store) (rule list_collection_ok)

lemma removeKnowledge_dir:
  assumes "removeKnowledge env not_exist op_err ctx_err (Some (DirSource rootDir)) st = (None, st')"
  obtains paths where "ds_Remove (kn_write env) rootDir paths (deleteKnowledgeSourcePaths env) st = (None, st')"
  using assms by (auto simp: removeKnowledge_def knowledgeDirectoryRoot_def split: option.split_asm sum.split_asm if_split_asm)

text \<open>\<^verbatim>\<open>os.IsNotExist\<close> does not look through an error that \<^verbatim>\<open>fmt.Errorf\<close> wrapped, and Resolve wraps
  the error of Lstat: a directory that is gone cannot be removed from the knowledge base.\<close>

lemma vanished_directory_cannot_be_removed:
  assumes "\<And>t e. \<not> not_exist (wrap_err t e)" and "fe_lstat (kn_files env) rootDir = Inl e"
  shows "removeKnowledge env not_exist None None (Some (DirSource rootDir)) st = (Some (wrap_err (''stat source dir '' @ rootDir) e), st)"
  using assms by (simp add: removeKnowledge_def knowledgeDirectoryRoot_def resolveKnowledgeSourcePaths_def source_Resolve_def dirSource_Resolve_def)

text \<open>The chunks of a file are stored under the path as it was given, and removed under its cleaned form.\<close>

lemma unclean_file_survives_removal:
  assumes "chromem_ok col docs sim" and "kn_delete env = chromem_Delete col e1 e2"
    and "removeKnowledge env not_exist None None (Some (FileSource p allow)) (st, s) = (None, st', s')"
    and "d \<in> ran (docs s)" "chromem_source d = Some p" "path_clean p \<noteq> p"
  shows "d \<in> ran (docs s')"
proof -
  have "deleteKnowledgeSourcePaths env [path_clean p] s = (None, s')"
    using assms(3) by (auto simp: removeKnowledge_def knowledgeDirectoryRoot_def resolveKnowledgeSourcePaths_def split: prod.splits)
  from knowledge_store.delete_paths_result [OF chromem_knowledge_store [OF assms(1)] assms(2) this] assms(4-6)
  show ?thesis by auto
qed

subsection \<open>Properties\<close>

text \<open>C18: A successful import of a directory is exact: no chunk is left of a file that the last import of
  the directory had and this one has not, the files of this import are remembered for the next
  one, other directories' memory is untouched, and every new chunk carries the namespace.\<close>

theorem directory_import_is_exact:
  assumes ok: "chromem_ok col docs sim" and env: "kn_upsert env = chromem_Upsert col e1 e2" "kn_delete env = chromem_Delete col e1 e2"
    and run: "addKnowledge env op_err ctx_err (Some (DirSource rootDir)) (st, s) = Some (None, st', s')"
  shows "(\<forall>d \<in> ran (docs s'). chromem_source d \<notin> Some ` (set (known_paths st rootDir) - set (known_paths st' rootDir)))
    \<and> (\<exists>files. source_Resolve (kn_files env) None (DirSource rootDir) = Inr files
         \<and> (\<exists>records. all_records env files = Some (Inr records) \<and> known_paths st' rootDir = normalizeDirectorySyncPaths (fst records)))
    \<and> (\<forall>r. r \<noteq> path_clean rootDir \<longrightarrow> sync_roots st' r = sync_roots st r)
    \<and> (\<forall>d \<in> ran (docs s') - ran (docs s). blank (ab_Namespace (kn_boundary env))
         \<or> cr_Metadata (resultToChunk d) namespaceKey = Some (ab_Namespace (kn_boundary env)))"
proof -
  obtain files paths records where r: "source_Resolve (kn_files env) None (DirSource rootDir) = Inr files"
    "all_records env files = Some (Inr (paths, records))"
    and "store_import env (DirSource rootDir) (st, s) (Inr (paths, records)) = (None, st', s')"
    using run by (rule addKnowledge_ok)
  then have sync: "ds_Sync (kn_write env) rootDir paths (apply_sync env records) (st, s) = (None, st', s')"
    by (simp add: knowledgeDirectoryRoot_def store_import_def)
  note d = ds_Sync_ok [OF sync]
  note store = knowledge_store.apply_sync_result [OF chromem_knowledge_store [OF ok] env d(1)]
  have new: "cr_Metadata (resultToChunk (chunkToDoc x)) namespaceKey = Some (ab_Namespace (kn_boundary env))"
    if "x \<in> set records" "\<not> blank (ab_Namespace (kn_boundary env))" for x
    using all_records_from [OF r(2) that(1)] file_records_namespace that(2)
    by (fastforce simp: resultToChunk_def chunkToDoc_def chunkToMetadata_user)
  show ?thesis
    using store(1,2) d(2,3) new r by (auto simp: diffDirectorySyncPaths_def)
qed

definition demo_files :: "(string \<times> file_kind) list \<Rightarrow> file_env" where
  "demo_files entries = \<lparr>fe_lstat = (\<lambda>_. Inr Directory), fe_walk = (\<lambda>_. (entries, None)), fe_readFile = (\<lambda>_. Inr None),
     fe_json = (\<lambda>_. Inr []), fe_yaml = (\<lambda>_. Inr [])\<rparr>"

definition demo_knowledge :: "(cdoc list, nat) knowledge_env" where
  "demo_knowledge = \<lparr>kn_files = demo_files [], kn_boundary = demo_boundary, kn_converters = [],
     kn_load = (\<lambda>_ _ _. Inl (errorf ''no file'' [])), kn_chunker = \<lparr>chk_size = 4, chk_overlap = 1\<rparr>,
     kn_embed = (\<lambda>ts. Inr (map (\<lambda>_. [1]) ts)), kn_upsert = chromem_Upsert (list_collection (\<lambda>_ _. 1)) None None,
     kn_delete = chromem_Delete (list_collection (\<lambda>_ _. 1)) None None, kn_write = (\<lambda>d _. (None, Suc d))\<rparr>"

definition demo_sync :: "nat dir_sync" where
  "demo_sync = \<lparr>sync_persistent = True, sync_roots = [''/kb'' \<mapsto> [''/kb/p'']], sync_disk = 0\<rparr>"

lemma kb_clean: "path_clean ''/kb'' = ''/kb''"
  by (simp add: path_clean_def components_def is_abs_def has_prefix_def render_def)

lemma demo_import:
  "\<exists>st' s'. addKnowledge demo_knowledge None None (Some (DirSource ''/kb''))
     (demo_sync, [chunkToDoc (demo_record ''p:0'' ''p'' ''/kb/p'')]) = Some (None, st', s')"
  by (simp add: addKnowledge_def store_import_def source_Resolve_def dirSource_Resolve_def demo_knowledge_def demo_files_def
      knowledgeDirectoryRoot_def ds_Sync_def Let_def demo_sync_def normalizeDirectorySyncPaths_def kb_clean
      diffDirectorySyncPaths_def sync_with_def apply_sync_def upsert_records_def chromem_Delete_def sort_compact_def
      list_collection_simps persist_def)

theorem directory_import_is_exact_witness:
  "\<exists>st' s'. addKnowledge demo_knowledge None None (Some (DirSource ''/kb''))
     (demo_sync, [chunkToDoc (demo_record ''p:0'' ''p'' ''/kb/p'')]) = Some (None, st', s')
     \<and> (\<forall>d \<in> ran (ldocs s'). chromem_source d \<noteq> Some ''/kb/p'' \<or> ''/kb/p'' \<in> set (known_paths st' ''/kb''))"
proof -
  obtain st' s' where run: "addKnowledge demo_knowledge None None (Some (DirSource ''/kb''))
     (demo_sync, [chunkToDoc (demo_record ''p:0'' ''p'' ''/kb/p'')]) = Some (None, st', s')"
    using demo_import by blast
  have "kn_upsert demo_knowledge = chromem_Upsert (list_collection (\<lambda>_ _. 1)) None None"
    "kn_delete demo_knowledge = chromem_Delete (list_collection (\<lambda>_ _. 1)) None None"
    by (simp_all add: demo_knowledge_def)
  note exact = directory_import_is_exact [OF list_collection_ok this run]
  have "known_paths demo_sync ''/kb'' = [''/kb/p'']" by (simp add: known_paths_def demo_sync_def kb_clean)
  with exact run show ?thesis by auto
qed

text \<open>Removing a directory deletes every chunk of the files that the last import or the directory
  itself has, forgets the directory, and leaves the chunks of all other files.\<close>

theorem directory_removal_is_exact:
  assumes ok: "chromem_ok col docs sim" and env: "kn_delete env = chromem_Delete col e1 e2"
    and run: "removeKnowledge env not_exist op_err ctx_err (Some (DirSource rootDir)) (st, s) = (None, st', s')"
  shows "(\<exists>paths. ran (docs s') = {d \<in> ran (docs s). chromem_source d
         \<notin> Some ` set (unionDirectorySyncPaths (known_paths st rootDir) paths)})
    \<and> known_paths st' rootDir = []"
proof -
  obtain paths where "ds_Remove (kn_write env) rootDir paths (deleteKnowledgeSourcePaths env) (st, s) = (None, st', s')"
    using run by (rule removeKnowledge_dir)
  note d = ds_Remove_ok [OF this]
  from knowledge_store.delete_paths_result [OF chromem_knowledge_store [OF ok] env d(1)] d(2) show ?thesis by blast
qed

theorem directory_removal_is_exact_witness:
  "\<exists>st' s'. removeKnowledge demo_knowledge (\<lambda>_. False) None None (Some (DirSource ''/kb'')) (demo_sync, []) = (None, st', s')
     \<and> known_paths st' ''/kb'' = []"
proof -
  obtain st' s' where run: "removeKnowledge demo_knowledge (\<lambda>_. False) None None (Some (DirSource ''/kb'')) (demo_sync, []) = (None, st', s')"
    by (cases "removeKnowledge demo_knowledge (\<lambda>_. False) None None (Some (DirSource ''/kb'')) (demo_sync, [])")
       (simp add: removeKnowledge_def knowledgeDirectoryRoot_def resolveKnowledgeSourcePaths_def source_Resolve_def
        dirSource_Resolve_def demo_knowledge_def demo_files_def ds_Remove_def demo_sync_def kb_clean sync_with_def
        normalizeDirectorySyncPaths_def unionDirectorySyncPaths_def Let_def deleteKnowledgeSourcePaths_def
        chromem_Delete_def list_collection_simps persist_def sort_compact_def split: if_splits prod.splits)
  have "kn_delete demo_knowledge = chromem_Delete (list_collection (\<lambda>_ _. 1)) None None" by (simp add: demo_knowledge_def)
  from directory_removal_is_exact [OF list_collection_ok this run] run show ?thesis by blast
qed

text \<open>A change that fails, at whatever point, leaves the remembered directories as they were, so that
  the next import computes the same stale files again.\<close>

theorem failed_change_keeps_manifest:
  assumes "addKnowledge env op_err ctx_err src (st, s) = Some (Some e, st1, s1)
    \<or> removeKnowledge env not_exist op_err ctx_err src (st, s) = (Some e, st1, s1)"
  shows "sync_roots st1 = sync_roots st"
  using assms(1)
proof
  assume "addKnowledge env op_err ctx_err src (st, s) = Some (Some e, st1, s1)"
  moreover have "store_import env src (st, s) r = (Some e, st1, s1) \<Longrightarrow> sync_roots st1 = sync_roots st" for src r
    by (auto simp: store_import_def dest: ds_failed split: option.split_asm sum.split_asm prod.split_asm)
  ultimately show ?thesis
    by (auto simp: addKnowledge_def split: option.split_asm sum.split_asm)
next
  assume "removeKnowledge env not_exist op_err ctx_err src (st, s) = (Some e, st1, s1)"
  then show ?thesis
    by (auto simp: removeKnowledge_def dest: ds_failed split: option.split_asm sum.split_asm prod.splits if_split_asm)
qed

theorem failed_change_keeps_manifest_witness:
  "sync_roots (fst (snd (removeKnowledge demo_knowledge (\<lambda>_. False) (Some (errorf ''closed'' [])) None None (demo_sync, []))))
     = sync_roots demo_sync"
proof -
  have "removeKnowledge demo_knowledge (\<lambda>_. False) (Some (errorf ''closed'' [])) None None (demo_sync, [])
      = (Some (errorf ''closed'' []), demo_sync, [])" by (simp add: removeKnowledge_def)
  from failed_change_keeps_manifest [OF disjI2 [OF this]] this show ?thesis by simp
qed

text \<open>With a chunker that NewChunker made, every import returns, whatever the files hold.\<close>

theorem import_returns:
  assumes "newChunker sz overlap = Inr (kn_chunker env)"
  shows "\<exists>r. addKnowledge env op_err ctx_err src st = Some r"
proof -
  have "chunker_ok (kn_chunker env)" using newChunker_ok [OF assms] by simp
  then have "all_records env fs \<noteq> None" for fs using all_records_return by fastforce
  then have "addKnowledge env op_err ctx_err src st \<noteq> None"
    by (simp add: addKnowledge_def del: not_None_eq split: sum.split option.split)
  then show ?thesis by (simp only: not_None_eq)
qed

theorem import_returns_witness: "\<exists>r. addKnowledge demo_knowledge None None (Some (DirSource ''/kb'')) (demo_sync, []) = Some r"
  using import_returns [of 4 1 demo_knowledge] by (simp add: newChunker_def demo_knowledge_def)

end
