(* ===== verification/Actions.thy ===== *)
theory Actions
  imports Domain
begin

section \<open>Actions: Go functions with effects and an error result\<close>

text \<open>
  A Go function that returns a value or an error and acts on a state is an action; sequencing
  stops at the first error, which is the early return \<^verbatim>\<open>if err != nil { return err }\<close>. A function
  that only returns an error is an effect. \<open>keeps\<close> says that an action preserves a predicate on
  the state, whatever it returns.
\<close>

named_theorems keeps_rules \<open>introduction rules for \<open>keeps\<close>\<close>

type_synonym 'w effect = "'w \<Rightarrow> go_error option \<times> 'w"
type_synonym ('a, 'w) action = "'w \<Rightarrow> 'a result \<times> 'w"

definition give :: "'a \<Rightarrow> ('a, 'w) action" where
  "give x w = (Inr x, w)"

definition refuse :: "go_error \<Rightarrow> ('a, 'w) action" where
  "refuse e w = (Inl e, w)"

definition andThen :: "('a, 'w) action \<Rightarrow> ('a \<Rightarrow> ('b, 'w) action) \<Rightarrow> ('b, 'w) action" where
  "andThen m k w = (case m w of (Inl e, w') \<Rightarrow> (Inl e, w') | (Inr x, w') \<Rightarrow> k x w')"

definition perform :: "'w effect \<Rightarrow> (unit, 'w) action" where
  "perform f w = (case f w of (Some e, w') \<Rightarrow> (Inl e, w') | (None, w') \<Rightarrow> (Inr (), w'))"

definition change :: "('w \<Rightarrow> 'w) \<Rightarrow> (unit, 'w) action" where
  "change f w = (Inr (), f w)"

text \<open>Effects one after the other, up to the first error.\<close>

definition no_effect :: "'w effect" where
  "no_effect w = (None, w)"

definition silently :: "('w \<Rightarrow> 'w) \<Rightarrow> 'w effect" where
  "silently f w = (None, f w)"

definition effThen :: "'w effect \<Rightarrow> 'w effect \<Rightarrow> 'w effect" where
  "effThen f g w = (case f w of (Some e, w') \<Rightarrow> (Some e, w') | (None, w') \<Rightarrow> g w')"

text \<open>The result of an action as a value, for code that goes on after an error.\<close>

definition attempt :: "('a, 'w) action \<Rightarrow> ('a result, 'w) action" where
  "attempt m w = (case m w of (r, w') \<Rightarrow> (Inr r, w'))"

lemma andThen_Inr:
  "andThen m k w = (Inr y, w2) \<longleftrightarrow> (\<exists>x w1. m w = (Inr x, w1) \<and> k x w1 = (Inr y, w2))"
  by (auto simp: andThen_def split: prod.split sum.split)

lemma andThen_Inl:
  "andThen m k w = (Inl e, w2) \<longleftrightarrow> m w = (Inl e, w2) \<or> (\<exists>x w1. m w = (Inr x, w1) \<and> k x w1 = (Inl e, w2))"
  by (auto simp: andThen_def split: prod.split sum.split)

lemma action_simps:
  "give x w = (r, w') \<longleftrightarrow> r = Inr x \<and> w' = w" "refuse e w = (r', w') \<longleftrightarrow> r' = Inl e \<and> w' = w"
  "change f w = (r'', w') \<longleftrightarrow> r'' = Inr () \<and> w' = f w"
  "perform g w = (Inr u, w') \<longleftrightarrow> g w = (None, w')" "perform g w = (Inl e, w') \<longleftrightarrow> g w = (Some e, w')"
  "attempt m w = (Inr s, w') \<longleftrightarrow> m w = (s, w')" "attempt m w \<noteq> (Inl e, w')"
  by (auto simp: give_def refuse_def change_def perform_def attempt_def split: prod.split option.split)

definition keeps :: "('w \<Rightarrow> bool) \<Rightarrow> ('w \<Rightarrow> 'x \<times> 'w) \<Rightarrow> bool" where
  "keeps P m \<longleftrightarrow> (\<forall>w. P w \<longrightarrow> P (snd (m w)))"

lemma keepsI: "(\<And>w r w'. P w \<Longrightarrow> m w = (r, w') \<Longrightarrow> P w') \<Longrightarrow> keeps P m"
  by (auto simp: keeps_def) (metis prod.collapse)

lemma keepsD: "keeps P m \<Longrightarrow> m w = (r, w') \<Longrightarrow> P w \<Longrightarrow> P w'"
  by (auto simp: keeps_def dest: spec [of _ w])

lemma keeps_give [keeps_rules]: "keeps P (give x)"
  by (simp add: keeps_def give_def)

lemma keeps_refuse [keeps_rules]: "keeps P (refuse e)"
  by (simp add: keeps_def refuse_def)

lemma keeps_andThen [keeps_rules]: "keeps P m \<Longrightarrow> (\<And>x. keeps P (k x)) \<Longrightarrow> keeps P (andThen m k)"
  by (rule keepsI) (auto simp: andThen_def dest: keepsD split: prod.split_asm sum.split_asm)

lemma keeps_perform [keeps_rules]: "keeps P f \<Longrightarrow> keeps P (perform f)"
  by (rule keepsI) (auto simp: perform_def dest: keepsD split: prod.split_asm option.split_asm)

lemma keeps_change [keeps_rules]: "(\<And>w. P w \<Longrightarrow> P (f w)) \<Longrightarrow> keeps P (change f)"
  by (simp add: keeps_def change_def)

lemma keeps_attempt [keeps_rules]: "keeps P m \<Longrightarrow> keeps P (attempt m)"
  by (rule keepsI) (auto simp: attempt_def dest: keepsD split: prod.split_asm)

lemma keeps_no_effect [keeps_rules]: "keeps P no_effect"
  by (simp add: keeps_def no_effect_def)

lemma keeps_silently [keeps_rules]: "(\<And>w. P w \<Longrightarrow> P (f w)) \<Longrightarrow> keeps P (silently f)"
  by (simp add: keeps_def silently_def)

lemma keeps_effThen [keeps_rules]: "keeps P f \<Longrightarrow> keeps P g \<Longrightarrow> keeps P (effThen f g)"
  by (rule keepsI) (auto simp: effThen_def dest: keepsD split: prod.split_asm option.split_asm)

lemma effThen_silently [simp]: "effThen (silently f) g w = g (f w)"
  by (simp add: effThen_def silently_def)

lemma effThen_None: "effThen f g w = (None, w2) \<longleftrightarrow> (\<exists>w1. f w = (None, w1) \<and> g w1 = (None, w2))"
  by (auto simp: effThen_def split: prod.split option.split)

lemma keeps_if [keeps_rules]: "(b \<Longrightarrow> keeps P m) \<Longrightarrow> (\<not> b \<Longrightarrow> keeps P n) \<Longrightarrow> keeps P (if b then m else n)"
  by simp

lemma keeps_option [keeps_rules]:
  "(x = None \<Longrightarrow> keeps P m) \<Longrightarrow> (\<And>y. x = Some y \<Longrightarrow> keeps P (n y)) \<Longrightarrow> keeps P (case x of None \<Rightarrow> m | Some y \<Rightarrow> n y)"
  by (cases x) simp_all

lemma keeps_sum [keeps_rules]:
  "(\<And>y. x = Inl y \<Longrightarrow> keeps P (m y)) \<Longrightarrow> (\<And>y. x = Inr y \<Longrightarrow> keeps P (n y)) \<Longrightarrow> keeps P (case x of Inl y \<Rightarrow> m y | Inr y \<Rightarrow> n y)"
  by (cases x) simp_all

lemma keeps_prod [keeps_rules]: "(\<And>y z. x = (y, z) \<Longrightarrow> keeps P (m y z)) \<Longrightarrow> keeps P (case x of (y, z) \<Rightarrow> m y z)"
  by (cases x) simp

end
