(* ===== verification/Tools.thy ===== *)
theory Tools
  imports Domain
begin

section \<open>Tools: registry, schemas and the two built-in tools\<close>

text \<open>
  \<^verbatim>\<open>tool_registry.go\<close>, \<^verbatim>\<open>structured_tool.go\<close> and \<^verbatim>\<open>internal/tools\<close>. A Go map is listed in the order
  of one iteration over it (its keys are distinct); a nil tool, map or registry is the value
  nothing. Encoding and decoding of JSON and the formatting of floats are the operations of a
  codec. A tool acts on the world and returns a text and perhaps an error.
\<close>

subsection \<open>Values, schemas and tools\<close>

text \<open>A decoded value. \<open>ANumber None\<close> is a number that is not finite, or a \<^verbatim>\<open>json.Number\<close> that has no
  float value; \<open>AOther\<close> is any Go value that decoding never makes.\<close>

datatype json_value =
    ANil | ABool bool | AString string | ANumber "real option" | AArray "json_value list"
  | AObject "(string \<times> json_value) list" | AOther

type_synonym arguments = "(string \<times> json_value) list"

record json_codec =
  jc_Decode :: "string \<Rightarrow> arguments option result"
  jc_Encode :: "json_value \<Rightarrow> string result"
  jc_Float :: "real \<Rightarrow> string"

datatype parameter_type =
    ParameterUnset | ToolParameterString | ToolParameterNumber | ToolParameterBoolean | ToolParameterObject
  | ToolParameterArray | ParameterOther string

record tool_parameter =
  tp_Type :: parameter_type
  tp_Description :: string
  tp_Enum :: "string list"
  tp_MinLength :: int
  tp_MaxLength :: int
  tp_Minimum :: "real option"
  tp_Maximum :: "real option"

record tool_schema =
  sc_Description :: string
  sc_Properties :: "(string \<times> tool_parameter) list"
  sc_Required :: "string list"

record tool_definition =
  td_Name :: string
  td_Description :: string
  td_Parameters :: tool_schema

text \<open>\<open>tl_Structured\<close> is the schema of the structured tool behind a tool, if it is one or adapts one.\<close>

record 'w tool =
  tl_Name :: string
  tl_Description :: string
  tl_Structured :: "tool_schema option"
  tl_Run :: "string \<Rightarrow> 'w \<Rightarrow> (string \<times> go_error option) \<times> 'w"

record tool_result =
  tr_Text :: string
  tr_JSON :: json_value

record 'w structured_tool =
  sto_Name :: string
  sto_Description :: string
  sto_Schema :: tool_schema
  sto_RunStructured :: "arguments \<Rightarrow> 'w \<Rightarrow> (tool_result \<times> go_error option) \<times> 'w"

subsection \<open>Errors with a sentinel\<close>

text \<open>\<^verbatim>\<open>fmt.Errorf("%w: ...")\<close> with a sentinel in front.\<close>

definition sentinel_first :: "string \<Rightarrow> sentinel \<Rightarrow> string \<Rightarrow> go_error" where
  "sentinel_first name s t = errorf (name @ '': '' @ t) [sentinel_error name s]"

lemma err_is_sentinel_first [simp]: "err_is (sentinel_first name s t) s' \<longleftrightarrow> s' = s"
  by (auto simp: sentinel_first_def)

definition argument_invalid :: "string \<Rightarrow> go_error" where
  "argument_invalid = sentinel_first ''ragagent: tool argument invalid'' ErrToolArgumentInvalid"

definition argument_error :: "string \<Rightarrow> string \<Rightarrow> go_error" where
  "argument_error name what = argument_invalid (''argument '' @ quoted name @ '' '' @ what)"

lemma err_is_argument_error [simp]: "err_is (argument_invalid t) s \<longleftrightarrow> s = ErrToolArgumentInvalid"
  "err_is (argument_error name what) s \<longleftrightarrow> s = ErrToolArgumentInvalid"
  by (simp_all add: argument_error_def argument_invalid_def)

subsection \<open>Validation of arguments\<close>

definition type_text :: "parameter_type \<Rightarrow> string" where
  "type_text t = (case t of ParameterUnset \<Rightarrow> '''' | ToolParameterString \<Rightarrow> ''string'' | ToolParameterNumber \<Rightarrow> ''number''
     | ToolParameterBoolean \<Rightarrow> ''boolean'' | ToolParameterObject \<Rightarrow> ''object'' | ToolParameterArray \<Rightarrow> ''array''
     | ParameterOther s \<Rightarrow> s)"

definition validate_string :: "string \<Rightarrow> tool_parameter \<Rightarrow> json_value \<Rightarrow> go_error option" where
  "validate_string name p v = (case v of
     AString t \<Rightarrow>
       (if tp_MinLength p > 0 \<and> int (length t) < tp_MinLength p
        then Some (argument_error name (''length must be >= '' @ itoa (tp_MinLength p)))
        else if tp_MaxLength p > 0 \<and> int (length t) > tp_MaxLength p
        then Some (argument_error name (''length must be <= '' @ itoa (tp_MaxLength p)))
        else if tp_Enum p \<noteq> [] \<and> t \<notin> set (tp_Enum p)
        then Some (argument_error name (''must be one of '' @ join_with '','' (tp_Enum p)))
        else None)
   | _ \<Rightarrow> Some (argument_error name ''must be string''))"

definition validate_number :: "json_codec \<Rightarrow> string \<Rightarrow> tool_parameter \<Rightarrow> json_value \<Rightarrow> go_error option" where
  "validate_number js name p v = (case v of
     ANumber (Some n) \<Rightarrow>
       (case tp_Minimum p of Some m \<Rightarrow> if n < m then Some (argument_error name (''must be >= '' @ jc_Float js m)) else
          (case tp_Maximum p of Some m \<Rightarrow> if n > m then Some (argument_error name (''must be <= '' @ jc_Float js m)) else None | None \<Rightarrow> None)
        | None \<Rightarrow>
          (case tp_Maximum p of Some m \<Rightarrow> if n > m then Some (argument_error name (''must be <= '' @ jc_Float js m)) else None | None \<Rightarrow> None))
   | _ \<Rightarrow> Some (argument_error name ''must be number''))"

definition validateToolArgument :: "json_codec \<Rightarrow> string \<Rightarrow> tool_parameter \<Rightarrow> json_value \<Rightarrow> go_error option" where
  "validateToolArgument js name p v = (case tp_Type p of
     ParameterUnset \<Rightarrow> validate_string name p v
   | ToolParameterString \<Rightarrow> validate_string name p v
   | ToolParameterNumber \<Rightarrow> validate_number js name p v
   | ToolParameterBoolean \<Rightarrow> (case v of ABool _ \<Rightarrow> None | _ \<Rightarrow> Some (argument_error name ''must be boolean''))
   | ToolParameterObject \<Rightarrow> (case v of AObject _ \<Rightarrow> None | _ \<Rightarrow> Some (argument_error name ''must be object''))
   | ToolParameterArray \<Rightarrow> (case v of AArray _ \<Rightarrow> None | _ \<Rightarrow> Some (argument_error name ''must be array''))
   | ParameterOther s \<Rightarrow> Some (argument_error name (''has unsupported schema type '' @ quoted s)))"

fun missing_required :: "string list \<Rightarrow> arguments \<Rightarrow> string option" where
  "missing_required [] args = None"
| "missing_required (f # fs) args = (if map_of args f = None then Some f else missing_required fs args)"

fun validate_properties :: "json_codec \<Rightarrow> (string \<times> tool_parameter) list \<Rightarrow> arguments \<Rightarrow> go_error option" where
  "validate_properties js [] args = None"
| "validate_properties js ((name, p) # ps) args = (case map_of args name of
     None \<Rightarrow> validate_properties js ps args
   | Some v \<Rightarrow> if v = ANil then validate_properties js ps args
       else (case validateToolArgument js name p v of
          Some e \<Rightarrow> Some e | None \<Rightarrow> validate_properties js ps args))"

definition validateToolArguments :: "json_codec \<Rightarrow> tool_schema \<Rightarrow> arguments \<Rightarrow> go_error option" where
  "validateToolArguments js s args = (case missing_required (sc_Required s) args of
     Some f \<Rightarrow> Some (argument_invalid (''required argument '' @ quoted f @ '' is missing''))
   | None \<Rightarrow> validate_properties js (sc_Properties s) args)"

subsection \<open>The adapter of a structured tool\<close>

definition formatToolResult :: "json_codec \<Rightarrow> tool_result \<Rightarrow> string" where
  "formatToolResult js r = join_with NL
     ((if blank (tr_Text r) then [] else [trim_space (tr_Text r)])
      @ (if tr_JSON r = ANil then []
         else (case jc_Encode js (tr_JSON r) of Inr d \<Rightarrow> if d \<noteq> '''' then [d] else [] | Inl _ \<Rightarrow> [])))"

text \<open>A nil argument map behaves as an empty one.\<close>

definition adapter_Run :: "json_codec \<Rightarrow> 'w structured_tool \<Rightarrow> string \<Rightarrow> 'w \<Rightarrow> (string \<times> go_error option) \<times> 'w" where
  "adapter_Run js t input w =
     (case (if blank input then Inr [] else map_sum id (\<lambda>a. case a of None \<Rightarrow> [] | Some args \<Rightarrow> args) (jc_Decode js input)) of
        Inl e \<Rightarrow> (('''', Some (argument_invalid (''decode arguments for tool '' @ quoted (sto_Name t) @ '': '' @ err_text e))), w)
      | Inr args \<Rightarrow> (case validateToolArguments js (sto_Schema t) args of
          Some e \<Rightarrow> (('''', Some e), w)
        | None \<Rightarrow> (case sto_RunStructured t args w of
            ((r, Some e), w) \<Rightarrow> (('''', Some (wrap_err (''run structured tool '' @ quoted (sto_Name t)) e)), w)
          | ((r, None), w) \<Rightarrow> ((formatToolResult js r, None), w))))"

definition newStructuredToolAdapter :: "json_codec \<Rightarrow> 'w structured_tool option \<Rightarrow> 'w tool" where
  "newStructuredToolAdapter js st = (case st of
     None \<Rightarrow> \<lparr>tl_Name = '''', tl_Description = '''', tl_Structured = None,
       tl_Run = (\<lambda>_ w. (('''', Some (invalid_config ''structured tool is required: ragagent: invalid config'')), w))\<rparr>
   | Some t \<Rightarrow> \<lparr>tl_Name = sto_Name t, tl_Description = sto_Description t, tl_Structured = Some (sto_Schema t),
       tl_Run = adapter_Run js t\<rparr>)"

subsection \<open>The registry\<close>

record 'w tool_registry =
  reg_tools :: "string \<rightharpoonup> 'w tool"
  reg_order :: "string list"

definition check_tool :: "'w tool option \<Rightarrow> 'w tool result" where
  "check_tool t = (case t of
     None \<Rightarrow> Inl (invalid_config ''tool is nil: ragagent: invalid config'')
   | Some t \<Rightarrow> if tl_Name t = '''' then Inl (invalid_config ''tool name is required: ragagent: invalid config'') else Inr t)"

definition register :: "'w tool option \<Rightarrow> 'w tool_registry \<Rightarrow> go_error option \<times> 'w tool_registry" where
  "register t r = (case check_tool t of Inl e \<Rightarrow> (Some e, r) | Inr t \<Rightarrow>
     (if reg_tools r (tl_Name t) \<noteq> None
      then (Some (invalid_config (''tool '' @ quoted (tl_Name t) @ '' is already registered: ragagent: invalid config'')), r)
      else (None, \<lparr>reg_tools = (reg_tools r)(tl_Name t \<mapsto> t), reg_order = reg_order r @ [tl_Name t]\<rparr>)))"

definition registerOrReplace :: "'w tool option \<Rightarrow> 'w tool_registry \<Rightarrow> go_error option \<times> 'w tool_registry" where
  "registerOrReplace t r = (case check_tool t of Inl e \<Rightarrow> (Some e, r) | Inr t \<Rightarrow>
     (None, \<lparr>reg_tools = (reg_tools r)(tl_Name t \<mapsto> t),
             reg_order = (if reg_tools r (tl_Name t) = None then reg_order r @ [tl_Name t] else reg_order r)\<rparr>))"

definition newToolRegistry :: "'w tool option list \<Rightarrow> 'w tool_registry" where
  "newToolRegistry ts = fold (\<lambda>t r. if t = None then r else snd (register t r)) ts \<lparr>reg_tools = Map.empty, reg_order = []\<rparr>"

definition lookup_tool :: "'w tool_registry option \<Rightarrow> string \<Rightarrow> 'w tool option" where
  "lookup_tool r name = (case r of None \<Rightarrow> None | Some r \<Rightarrow> reg_tools r name)"

definition registry_tools :: "'w tool_registry option \<Rightarrow> 'w tool list" where
  "registry_tools r = (case r of None \<Rightarrow> [] | Some r \<Rightarrow> map (\<lambda>n. the (reg_tools r n)) (reg_order r))"

definition registry_clone :: "'w tool_registry option \<Rightarrow> 'w tool_registry" where
  "registry_clone r = (case r of None \<Rightarrow> newToolRegistry [] | Some r \<Rightarrow> r)"

text \<open>How \<^verbatim>\<open>New\<close> completes the configured registry: the built-in tools only where the configuration
  has none of that name.\<close>

definition agent_tools :: "'w tool_registry option \<Rightarrow> 'w tool \<Rightarrow> 'w tool option \<Rightarrow> 'w tool_registry" where
  "agent_tools cfg retrieval web = (let r = registry_clone cfg;
     r = (if reg_tools r ''retrieve_context'' = None then snd (registerOrReplace (Some retrieval) r) else r)
     in case web of None \<Rightarrow> r
        | Some t \<Rightarrow> if reg_tools r ''search_web'' = None then snd (registerOrReplace (Some t) r) else r)"

subsection \<open>The built-in tools\<close>

definition retrieval_Run ::
  "(string \<Rightarrow> 'w \<Rightarrow> search_hit list result \<times> 'w) option \<Rightarrow> string \<Rightarrow> 'w \<Rightarrow> (string \<times> go_error option) \<times> 'w" where
  "retrieval_Run retriever input w = (case retriever of None \<Rightarrow> (('''', Some (errorf ''retriever is required'' [])), w)
   | Some search \<Rightarrow>
      (if blank input then (('''', Some (errorf ''query is required'' [])), w)
       else (case search (trim_space input) w of
          (Inl e, w) \<Rightarrow> (('''', Some (wrap_err ''search retrieval hits'' e)), w)
        | (Inr hits, w) \<Rightarrow> ((join_with NL (map (\<lambda>h. ''['' @ cr_SourcePath (hit_Chunk h) @ ''] '' @ trim_space (cr_Text (hit_Chunk h))) hits), None), w))))"

definition newRetrievalTool :: "(string \<Rightarrow> 'w \<Rightarrow> search_hit list result \<times> 'w) option \<Rightarrow> 'w tool" where
  "newRetrievalTool retriever = \<lparr>tl_Name = ''retrieve_context'',
     tl_Description = ''Retrieve relevant evidence chunks from local knowledge.'', tl_Structured = None,
     tl_Run = retrieval_Run retriever\<rparr>"

subsection \<open>Lemmas: the registry\<close>

text \<open>The order lists every key once, and every tool is under its own, nonempty name.\<close>

definition reg_ok :: "'w tool_registry \<Rightarrow> bool" where
  "reg_ok r \<longleftrightarrow> distinct (reg_order r) \<and> set (reg_order r) = dom (reg_tools r)
     \<and> (\<forall>n t. reg_tools r n = Some t \<longrightarrow> tl_Name t = n \<and> n \<noteq> '''')"

lemma reg_ok_empty [simp]: "reg_ok \<lparr>reg_tools = Map.empty, reg_order = []\<rparr>"
  by (simp add: reg_ok_def)

lemma check_tool_Inr: "check_tool t = Inr u \<longleftrightarrow> t = Some u \<and> tl_Name u \<noteq> ''''"
  by (auto simp: check_tool_def split: option.split)

lemma reg_ok_register: "reg_ok r \<Longrightarrow> reg_ok (snd (register t r))"
  by (auto simp: register_def reg_ok_def check_tool_Inr split: sum.split)

lemma reg_ok_replace: "reg_ok r \<Longrightarrow> reg_ok (snd (registerOrReplace t r))"
  by (auto simp: registerOrReplace_def reg_ok_def check_tool_Inr split: sum.split)

lemma reg_ok_new: "reg_ok (newToolRegistry ts)"
proof -
  have "reg_ok r \<Longrightarrow> reg_ok (fold (\<lambda>t r. if t = None then r else snd (register t r)) ts r)" for r
    by (induction ts arbitrary: r) (simp_all add: reg_ok_register)
  then show ?thesis by (simp add: newToolRegistry_def)
qed

text \<open>Of the tools offered, the first of every nonempty name.\<close>

fun first_named :: "string list \<Rightarrow> 'w tool option list \<Rightarrow> 'w tool list" where
  "first_named seen [] = []"
| "first_named seen (t # ts) = (case t of None \<Rightarrow> first_named seen ts
     | Some u \<Rightarrow> if tl_Name u = '''' \<or> tl_Name u \<in> set seen then first_named seen ts
                 else u # first_named (tl_Name u # seen) ts)"

lemma first_named_cong: "set seen = set seen' \<Longrightarrow> first_named seen ts = first_named seen' ts"
proof (induction ts arbitrary: seen seen')
  case (Cons t ts)
  have "first_named (n # seen) ts = first_named (n # seen') ts" for n by (rule Cons.IH) (simp add: Cons.prems)
  then show ?case using Cons.prems Cons.IH [OF Cons.prems] by (simp split: option.split)
qed simp

lemma register_tools:
  assumes "reg_ok r"
  shows "registry_tools (Some (snd (register (Some u) r)))
    = (if tl_Name u = '''' \<or> tl_Name u \<in> set (reg_order r) then registry_tools (Some r) else registry_tools (Some r) @ [u])"
    "reg_order (snd (register (Some u) r))
    = (if tl_Name u = '''' \<or> tl_Name u \<in> set (reg_order r) then reg_order r else reg_order r @ [tl_Name u])"
proof -
  have dom: "tl_Name u \<in> set (reg_order r) \<longleftrightarrow> reg_tools r (tl_Name u) \<noteq> None"
    using assms by (simp add: reg_ok_def domIff)
  then have new: "reg_tools r (tl_Name u) = None \<Longrightarrow>
      map (\<lambda>n. the (((reg_tools r)(tl_Name u \<mapsto> u)) n)) (reg_order r) = map (\<lambda>n. the (reg_tools r n)) (reg_order r)"
    by auto
  show "registry_tools (Some (snd (register (Some u) r)))
    = (if tl_Name u = '''' \<or> tl_Name u \<in> set (reg_order r) then registry_tools (Some r) else registry_tools (Some r) @ [u])"
    using new by (simp add: register_def check_tool_def registry_tools_def dom del: fun_upd_apply) simp
  show "reg_order (snd (register (Some u) r))
    = (if tl_Name u = '''' \<or> tl_Name u \<in> set (reg_order r) then reg_order r else reg_order r @ [tl_Name u])"
    by (simp add: register_def check_tool_def dom)
qed

lemma fold_register:
  "reg_ok r \<Longrightarrow> registry_tools (Some (fold (\<lambda>t r. if t = None then r else snd (register t r)) ts r))
     = registry_tools (Some r) @ first_named (reg_order r) ts"
proof (induction ts arbitrary: r)
  case (Cons t ts)
  show ?case
  proof (cases t)
    case (Some u)
    have "first_named (reg_order r @ [tl_Name u]) ts = first_named (tl_Name u # reg_order r) ts"
      by (rule first_named_cong) simp
    then show ?thesis
      using Cons.IH [OF reg_ok_register [OF Cons.prems], of t] register_tools [OF Cons.prems, of u]
      by (auto simp: Some)
  qed (use Cons in simp)
qed simp

lemma find_registered:
  assumes "reg_ok r"
  shows "List.find (\<lambda>t. tl_Name t = n) (registry_tools (Some r)) = reg_tools r n"
proof -
  have "List.find (\<lambda>t. tl_Name t = n) (map (\<lambda>n. the (reg_tools r n)) ns) = (if n \<in> set ns then reg_tools r n else None)"
    if "set ns \<subseteq> dom (reg_tools r)" for ns
    using that assms by (induction ns) (auto simp: reg_ok_def)
  from this [of "reg_order r"] assms show ?thesis by (auto simp: registry_tools_def reg_ok_def domIff)
qed

subsection \<open>Lemmas: validation\<close>

text \<open>What a schema promises of a value.\<close>

definition conforms_string :: "tool_parameter \<Rightarrow> string \<Rightarrow> bool" where
  "conforms_string p t \<longleftrightarrow> (tp_MinLength p \<le> 0 \<or> tp_MinLength p \<le> int (length t))
     \<and> (tp_MaxLength p \<le> 0 \<or> int (length t) \<le> tp_MaxLength p) \<and> (tp_Enum p = [] \<or> t \<in> set (tp_Enum p))"

definition conforms :: "tool_parameter \<Rightarrow> json_value \<Rightarrow> bool" where
  "conforms p v \<longleftrightarrow> (case (tp_Type p, v) of
     (ParameterUnset, AString t) \<Rightarrow> conforms_string p t
   | (ToolParameterString, AString t) \<Rightarrow> conforms_string p t
   | (ToolParameterNumber, ANumber (Some n)) \<Rightarrow>
       (\<forall>m. tp_Minimum p = Some m \<longrightarrow> m \<le> n) \<and> (\<forall>m. tp_Maximum p = Some m \<longrightarrow> n \<le> m)
   | (ToolParameterBoolean, ABool _) \<Rightarrow> True
   | (ToolParameterObject, AObject _) \<Rightarrow> True
   | (ToolParameterArray, AArray _) \<Rightarrow> True
   | _ \<Rightarrow> False)"

lemma validateToolArgument_None: "validateToolArgument js name p v = None \<longleftrightarrow> conforms p v"
proof -
  have s: "validate_string name p v = None \<longleftrightarrow> (\<exists>t. v = AString t \<and> conforms_string p t)"
    by (auto simp: validate_string_def conforms_string_def split: json_value.split)
  have n: "validate_number js name p v = None \<longleftrightarrow> (\<exists>n. v = ANumber (Some n)
      \<and> (\<forall>m. tp_Minimum p = Some m \<longrightarrow> m \<le> n) \<and> (\<forall>m. tp_Maximum p = Some m \<longrightarrow> n \<le> m))"
    by (auto simp: validate_number_def split: json_value.split option.split)
  show ?thesis
    by (cases "tp_Type p") (auto simp: validateToolArgument_def s n conforms_def split: json_value.split option.split)
qed

lemma validate_properties_None:
  "validate_properties js ps args = None \<longleftrightarrow>
     (\<forall>(name, p) \<in> set ps. \<forall>v. map_of args name = Some v \<longrightarrow> v = ANil \<or> conforms p v)"
proof (induction ps)
  case (Cons q ps)
  obtain name p where q: "q = (name, p)" by fastforce
  show ?case
  proof (cases "map_of args name")
    case (Some v)
    show ?thesis
      using Cons validateToolArgument_None [of js name p v]
      by (cases "validateToolArgument js name p v") (simp_all add: q Some)
  qed (simp add: q Cons)
qed simp

lemma missing_required_None: "missing_required fs args = None \<longleftrightarrow> set fs \<subseteq> dom (map_of args)"
  by (induction fs) auto

lemma validate_error: "validateToolArguments js s args = Some e \<Longrightarrow> err_is e ErrToolArgumentInvalid"
proof -
  have v: "validateToolArgument js name p v = Some e \<Longrightarrow> err_is e ErrToolArgumentInvalid" for name p v
    by (auto simp: validateToolArgument_def validate_string_def validate_number_def
        split: parameter_type.split_asm json_value.split_asm option.split_asm if_split_asm)
  have "validate_properties js ps args = Some e \<Longrightarrow> err_is e ErrToolArgumentInvalid" for ps
    by (induction ps) (auto dest: v split: option.split_asm if_split_asm)
  then show "validateToolArguments js s args = Some e \<Longrightarrow> ?thesis"
    by (auto simp: validateToolArguments_def split: option.split_asm)
qed

text \<open>An agent has the configured tools, and the built-in ones only where the configuration has none of
  their names.\<close>

lemma agent_tools_lookup:
  assumes "tl_Name retrieval = ''retrieve_context''" "tl_Name web = ''search_web''"
  shows "reg_tools (agent_tools cfg retrieval (Some web)) n = (case reg_tools (registry_clone cfg) n of
      Some t \<Rightarrow> Some t
    | None \<Rightarrow> if n = ''retrieve_context'' then Some retrieval else if n = ''search_web'' then Some web else None)"
  using assms by (auto simp: agent_tools_def registerOrReplace_def check_tool_def Let_def split: option.split)

subsection \<open>Properties\<close>

text \<open>C28: Validation accepts exactly the arguments that hold every required key and whose declared,
  non-null values conform to their schema, in whatever order the schema is iterated; every
  refusal is an ErrToolArgumentInvalid.\<close>

theorem validation_is_conformance:
  "(validateToolArguments js s args = None \<longleftrightarrow> set (sc_Required s) \<subseteq> dom (map_of args)
      \<and> (\<forall>(name, p) \<in> set (sc_Properties s). \<forall>v. map_of args name = Some v \<longrightarrow> v = ANil \<or> conforms p v))
   \<and> (\<forall>e. validateToolArguments js s args = Some e \<longrightarrow> err_is e ErrToolArgumentInvalid)"
  using validate_error [of js s args]
  by (auto simp: validateToolArguments_def missing_required_None validate_properties_None split: option.split)
    (metis missing_required_None option.distinct(1) subsetD domIff)+

definition demo_schema :: tool_schema where
  "demo_schema = \<lparr>sc_Description = '''', sc_Properties = [(''n'', \<lparr>tp_Type = ToolParameterNumber, tp_Description = '''', tp_Enum = [],
     tp_MinLength = 0, tp_MaxLength = 0, tp_Minimum = Some 0, tp_Maximum = Some 3\<rparr>)], sc_Required = [''n'']\<rparr>"

theorem validation_is_conformance_witness:
  "(\<forall>js. validateToolArguments js demo_schema [(''n'', ANumber (Some 2))] = None)
   \<and> (\<forall>js. validateToolArguments js demo_schema [(''n'', ANumber (Some 4))] \<noteq> None)"
  using validation_is_conformance [of _ demo_schema "[(''n'', ANumber (Some 2))]"]
    validation_is_conformance [of _ demo_schema "[(''n'', ANumber (Some 4))]"]
  by (simp add: demo_schema_def conforms_def)

text \<open>A new registry lists the first tool of every nonempty name in the order given, and a lookup finds
  the listed tool of that name.\<close>

theorem registry_lists_first_of_each_name:
  "registry_tools (Some (newToolRegistry ts)) = first_named [] ts
   \<and> lookup_tool (Some (newToolRegistry ts)) n = List.find (\<lambda>t. tl_Name t = n) (first_named [] ts)"
  using fold_register [OF reg_ok_empty, of ts] find_registered [OF reg_ok_new, of n ts]
  by (simp add: newToolRegistry_def lookup_tool_def registry_tools_def)

end
