(* ===== verification/Structured.thy ===== *)
theory Structured
  imports Tools
begin

section \<open>Structured output\<close>

text \<open>
  \<^verbatim>\<open>structured_output.go\<close>: the instruction and the JSON schema made from the type of the target, and
  the extraction of the JSON text from an answer. A Go type is what reflection shows of it: a
  named struct is looked up in the list of declarations, every other type is written out, so
  only structs refer back to themselves. \<^verbatim>\<open>json.Valid\<close> is a parameter.
\<close>

subsection \<open>Types and fields\<close>

datatype go_type =
    TNamed string | TStruct "go_field list" | TPointer go_type | TSlice go_type | TArray go_type
  | TMap go_type go_type | TString | TBool | TUint8 | TInteger | TFloat | TTime | TOther
and go_field = Field (field_name: string) (field_exported: bool) (field_tag: "string option") (field_type: go_type)

type_synonym declarations = "(string \<times> go_field list) list"

fun strip_pointers :: "go_type \<Rightarrow> go_type" where
  "strip_pointers (TPointer t) = strip_pointers t"
| "strip_pointers t = t"

definition split_comma :: "string \<Rightarrow> string list" where
  "split_comma s = split_by (\<lambda>c. c = CHR '','') s"

text \<open>The JSON key of a field, or nothing when the field is left out; a tag may rename it.\<close>

definition json_key :: "go_field \<Rightarrow> string option" where
  "json_key f = (if \<not> field_exported f then None
     else case field_tag f of None \<Rightarrow> Some (field_name f)
     | Some tag \<Rightarrow> (let name = hd (split_comma tag) in
         if name = ''-'' then None else if name = '''' then Some (field_name f) else Some name))"

fun is_pointer :: "go_type \<Rightarrow> bool" where
  "is_pointer (TPointer t) = True"
| "is_pointer t = False"

definition field_optional :: "go_field \<Rightarrow> bool" where
  "field_optional f \<longleftrightarrow> is_pointer (field_type f)
     \<or> (case field_tag f of None \<Rightarrow> False | Some tag \<Rightarrow> ''omitempty'' \<in> set (tl (split_comma tag)))"

subsection \<open>The instruction\<close>

text \<open>The description of a type. The recursion does not stop on a struct that contains itself, so it runs on
  fuel and nothing stands for running out of it.\<close>

fun all_some :: "'a option list \<Rightarrow> 'a list option" where
  "all_some [] = Some []"
| "all_some (x # xs) = (case x of None \<Rightarrow> None | Some y \<Rightarrow> map_option (\<lambda>ys. y # ys) (all_some xs))"

fun describeStructuredType :: "declarations \<Rightarrow> nat \<Rightarrow> go_type \<Rightarrow> string option" where
  "describeStructuredType ds 0 t = None"
| "describeStructuredType ds (Suc n) t =
     (let fields = (\<lambda>fs. map_option (\<lambda>parts. ''{'' @ NL @ join_with ('','' @ NL) parts @ NL @ ''}'')
        (all_some (List.map_filter (\<lambda>f. case json_key f of None \<Rightarrow> None
           | Some key \<Rightarrow> Some (map_option (\<lambda>d. ''  '' @ quoted key @ '': '' @ d) (describeStructuredType ds n (field_type f)))) fs)))
      in case strip_pointers t of
        TNamed name \<Rightarrow> fields (case map_of ds name of None \<Rightarrow> [] | Some fs \<Rightarrow> fs)
      | TStruct fs \<Rightarrow> fields fs
      | TTime \<Rightarrow> Some (''{'' @ NL @ NL @ ''}'')
      | TSlice e \<Rightarrow> map_option (\<lambda>d. ''['' @ d @ '']'') (describeStructuredType ds n e)
      | TArray e \<Rightarrow> map_option (\<lambda>d. ''['' @ d @ '']'') (describeStructuredType ds n e)
      | TMap k e \<Rightarrow> (if k = TString then map_option (\<lambda>d. ''{string: '' @ d @ ''}'') (describeStructuredType ds n e) else Some ''object'')
      | TString \<Rightarrow> Some ''string''
      | TBool \<Rightarrow> Some ''boolean''
      | TUint8 \<Rightarrow> Some ''integer''
      | TInteger \<Rightarrow> Some ''integer''
      | TFloat \<Rightarrow> Some ''number''
      | _ \<Rightarrow> Some ''value'')"

text \<open>What reflection shows of a target: nothing for nil, else whether it is a pointer that is not nil, and
  the name and the type it points to.\<close>

record target_view =
  tv_pointer :: bool
  tv_name :: string
  tv_type :: go_type

definition validateStructuredTarget :: "target_view option \<Rightarrow> go_error option" where
  "validateStructuredTarget v = (case v of
     None \<Rightarrow> Some (errorf ''structured target is nil: ragagent: structured output target is invalid''
        [sentinel_error ''ragagent: structured output target is invalid'' ErrStructuredOutputTarget])
   | Some v \<Rightarrow> if tv_pointer v then None
       else Some (errorf ''structured target must be a non-nil pointer: ragagent: structured output target is invalid''
        [sentinel_error ''ragagent: structured output target is invalid'' ErrStructuredOutputTarget]))"

definition buildStructuredInstruction :: "declarations \<Rightarrow> nat \<Rightarrow> target_view option \<Rightarrow> string result option" where
  "buildStructuredInstruction ds fuel v = (case validateStructuredTarget v of
     Some e \<Rightarrow> Some (Inl e)
   | None \<Rightarrow> map_option (\<lambda>d. Inr (''Return only valid JSON. Do not wrap the response in markdown fences or add commentary.'' @ NL
        @ ''Expected JSON shape:'' @ NL @ d)) (describeStructuredType ds fuel (tv_type (the v))))"

subsection \<open>The schema\<close>

text \<open>\<open>visiting\<close> holds the named structs being expanded; the second time one is met it is any object. The
  properties of a struct are a Go map: a later field of the same key replaces an earlier one.\<close>

definition unvisited :: "declarations \<Rightarrow> string list \<Rightarrow> nat" where
  "unvisited ds visiting = card (fst ` set ds - set visiting)"

lemma unvisited_less:
  "map_of ds name = Some fs \<Longrightarrow> name \<notin> set visiting \<Longrightarrow> unvisited ds (name # visiting) < unvisited ds visiting"
  unfolding unvisited_def by (rule psubset_card_mono) (force dest: map_of_SomeD)+

fun put_property :: "string \<Rightarrow> 'a \<Rightarrow> (string \<times> 'a) list \<Rightarrow> (string \<times> 'a) list" where
  "put_property k v [] = [(k, v)]"
| "put_property k v ((k', v') # ps) = (if k = k' then (k, v) # ps else (k', v') # put_property k v ps)"

definition schema_type :: "string \<Rightarrow> json_value" where
  "schema_type t = AObject [(''type'', AString t)]"

definition struct_schema :: "(string \<times> json_value) list \<Rightarrow> string list \<Rightarrow> json_value" where
  "struct_schema properties required = AObject ([(''type'', AString ''object''), (''properties'', AObject properties),
     (''additionalProperties'', ABool False)] @ (if required = [] then [] else [(''required'', AArray (map AString required))]))"

function jsonSchemaForType :: "declarations \<Rightarrow> string list \<Rightarrow> go_type \<Rightarrow> json_value"
  and fieldSchemas :: "declarations \<Rightarrow> string list \<Rightarrow> go_field list \<Rightarrow> (string \<times> json_value) list \<Rightarrow> string list \<Rightarrow> json_value" where
  "jsonSchemaForType ds visiting (TPointer t) = jsonSchemaForType ds visiting t"
| "jsonSchemaForType ds visiting (TNamed name) =
     (if name \<in> set visiting then schema_type ''object''
      else case map_of ds name of
        None \<Rightarrow> struct_schema [] []
      | Some fs \<Rightarrow> fieldSchemas ds (name # visiting) fs [] [])"
| "jsonSchemaForType ds visiting (TStruct fs) = fieldSchemas ds visiting fs [] []"
| "jsonSchemaForType ds visiting TTime = AObject [(''type'', AString ''string''), (''format'', AString ''date-time'')]"
| "jsonSchemaForType ds visiting (TSlice e) =
     (if e = TUint8 then schema_type ''string''
      else AObject [(''type'', AString ''array''), (''items'', jsonSchemaForType ds visiting e)])"
| "jsonSchemaForType ds visiting (TArray e) = AObject [(''type'', AString ''array''), (''items'', jsonSchemaForType ds visiting e)]"
| "jsonSchemaForType ds visiting (TMap k e) =
     (if k = TString then AObject [(''type'', AString ''object''), (''additionalProperties'', jsonSchemaForType ds visiting e)]
      else schema_type ''object'')"
| "jsonSchemaForType ds visiting TString = schema_type ''string''"
| "jsonSchemaForType ds visiting TBool = schema_type ''boolean''"
| "jsonSchemaForType ds visiting TUint8 = schema_type ''integer''"
| "jsonSchemaForType ds visiting TInteger = schema_type ''integer''"
| "jsonSchemaForType ds visiting TFloat = schema_type ''number''"
| "jsonSchemaForType ds visiting TOther = AObject []"
| "fieldSchemas ds visiting [] properties required = struct_schema properties required"
| "fieldSchemas ds visiting (Field name exported tag t # fs) properties required =
     (case json_key (Field name exported tag t) of
        None \<Rightarrow> fieldSchemas ds visiting fs properties required
      | Some key \<Rightarrow> fieldSchemas ds visiting fs (put_property key (jsonSchemaForType ds visiting t) properties)
          (if field_optional (Field name exported tag t) then required else required @ [key]))"
  by pat_completeness auto
termination
  by (relation "inv_image (less_than <*lex*> less_than)
      (\<lambda>x. case x of Inl (ds, vs, t) \<Rightarrow> (unvisited ds vs, size t) | Inr (ds, vs, fs, ps, rs) \<Rightarrow> (unvisited ds vs, size_list size fs))")
    (auto simp: unvisited_less)

datatype output_format = StructuredOutputJSONObject | StructuredOutputJSONSchema | StructuredOutputPrompt | FormatOther string

datatype response_format_type = ResponseFormatJSONObject | ResponseFormatJSONSchema | ResponseFormatOther string

record response_format =
  rf_Type :: response_format_type
  rf_Name :: string
  rf_Schema :: "json_value option"

definition structuredResponseFormat :: "declarations \<Rightarrow> output_format \<Rightarrow> target_view \<Rightarrow> response_format option" where
  "structuredResponseFormat ds fmt v = (case fmt of
     StructuredOutputJSONSchema \<Rightarrow> Some \<lparr>rf_Type = ResponseFormatJSONSchema,
       rf_Name = (if tv_name v = '''' then ''response'' else tv_name v), rf_Schema = Some (jsonSchemaForType ds [] (tv_type v))\<rparr>
   | StructuredOutputPrompt \<Rightarrow> None
   | _ \<Rightarrow> Some \<lparr>rf_Type = ResponseFormatJSONObject, rf_Name = '''', rf_Schema = None\<rparr>)"

subsection \<open>Extraction of the JSON text\<close>

abbreviation fence :: string where "fence \<equiv> replicate 3 (char_of (96 :: nat))"

fun last_index :: "string \<Rightarrow> string \<Rightarrow> nat option" where
  "last_index [] p = (if p = [] then Some 0 else None)"
| "last_index (c # s) p = (case last_index s p of Some i \<Rightarrow> Some (Suc i) | None \<Rightarrow> if has_prefix (c # s) p then Some 0 else None)"

definition extractFencedJSON :: "string \<Rightarrow> string option" where
  "extractFencedJSON input = (if \<not> has_prefix input fence then None
     else case index_of input NL of None \<Rightarrow> None
     | Some firstNewline \<Rightarrow> (case last_index input fence of None \<Rightarrow> None
       | Some lastFence \<Rightarrow> (if lastFence \<le> firstNewline then None
           else let content = trim_space (take (lastFence - firstNewline) (drop firstNewline input))
                in if content = '''' then None else Some content)))"

text \<open>The scan of \<^verbatim>\<open>extractBalancedJSON\<close> from the opening bracket on: depth, inside a string, after a
  backslash; the result is the number of characters up to the closing bracket.\<close>

fun scan_balanced :: "char \<Rightarrow> char \<Rightarrow> string \<Rightarrow> int \<Rightarrow> bool \<Rightarrow> bool \<Rightarrow> nat \<Rightarrow> nat option" where
  "scan_balanced op cl [] depth inString escaped n = None"
| "scan_balanced op cl (ch # s) depth inString escaped n =
     (if inString then
        (if escaped then scan_balanced op cl s depth True False (Suc n)
         else if ch = char_of (92 :: nat) then scan_balanced op cl s depth True True (Suc n)
         else if ch = char_of (34 :: nat) then scan_balanced op cl s depth False False (Suc n)
         else scan_balanced op cl s depth True False (Suc n))
      else if ch = char_of (34 :: nat) then scan_balanced op cl s depth True escaped (Suc n)
      else if ch = op then scan_balanced op cl s (depth + 1) False escaped (Suc n)
      else if ch = cl then (if depth - 1 = 0 then Some (Suc n) else scan_balanced op cl s (depth - 1) False escaped (Suc n))
      else scan_balanced op cl s depth False escaped (Suc n))"

definition extractBalancedJSON :: "string \<Rightarrow> string option" where
  "extractBalancedJSON input = (let rest = dropWhile (\<lambda>c. c \<noteq> CHR ''{'' \<and> c \<noteq> CHR ''['') input in
     case rest of [] \<Rightarrow> None
     | op # _ \<Rightarrow> map_option (\<lambda>n. trim_space (take n rest))
         (scan_balanced op (if op = CHR ''['' then CHR '']'' else CHR ''}'') rest 0 False False 0))"

definition output_invalid :: "string \<Rightarrow> go_error" where
  "output_invalid t = errorf (t @ '': ragagent: structured output is invalid'')
     [sentinel_error ''ragagent: structured output is invalid'' ErrStructuredOutputInvalid]"

definition extractStructuredJSON :: "(string \<Rightarrow> bool) \<Rightarrow> string \<Rightarrow> string result" where
  "extractStructuredJSON valid input = (let trimmed = trim_space input in
     if trimmed = '''' then Inl (output_invalid ''structured output is empty'')
     else if valid trimmed then Inr trimmed
     else case extractFencedJSON trimmed of
       Some fenced \<Rightarrow> if valid fenced then Inr fenced
         else (case extractBalancedJSON trimmed of
           Some b \<Rightarrow> if valid b then Inr b else Inl (output_invalid ''structured output does not contain valid JSON'')
         | None \<Rightarrow> Inl (output_invalid ''structured output does not contain valid JSON''))
     | None \<Rightarrow> (case extractBalancedJSON trimmed of
           Some b \<Rightarrow> if valid b then Inr b else Inl (output_invalid ''structured output does not contain valid JSON'')
         | None \<Rightarrow> Inl (output_invalid ''structured output does not contain valid JSON'')))"

subsection \<open>Lemmas: the description\<close>

lemma all_some_None: "all_some xs = None \<longleftrightarrow> None \<in> set xs"
  by (induction xs) (auto split: option.split)

text \<open>The named structs that a type mentions.\<close>

fun mentions :: "go_type \<Rightarrow> string set" and field_mentions :: "go_field \<Rightarrow> string set" where
  "mentions (TNamed name) = {name}"
| "mentions (TStruct fs) = \<Union> (set (map field_mentions fs))"
| "mentions (TPointer t) = mentions t"
| "mentions (TSlice t) = mentions t"
| "mentions (TArray t) = mentions t"
| "mentions (TMap k t) = mentions t"
| "mentions _ = {}"
| "field_mentions (Field name exported tag t) = mentions t"

lemma field_mentions [simp]: "field_mentions f = mentions (field_type f)"
  by (cases f) simp

lemma mentions_strip: "mentions (strip_pointers t) = mentions t"
  by (induction t rule: strip_pointers.induct) simp_all

lemma finite_mentions: "finite (mentions t)" "finite (field_mentions f)"
  by (induction t and f rule: mentions_field_mentions.induct) simp_all

definition acyclic_declarations :: "declarations \<Rightarrow> (string \<Rightarrow> nat) \<Rightarrow> bool" where
  "acyclic_declarations ds rank \<longleftrightarrow> (\<forall>name fs. map_of ds name = Some fs \<longrightarrow>
     (\<forall>f \<in> set fs. \<forall>m \<in> mentions (field_type f). rank m < rank name))"

definition described :: "declarations \<Rightarrow> nat \<Rightarrow> go_type \<Rightarrow> bool" where
  "described ds n t \<longleftrightarrow> describeStructuredType ds n t \<noteq> None"

definition fields_described :: "declarations \<Rightarrow> nat \<Rightarrow> go_field list \<Rightarrow> bool" where
  "fields_described ds n fs \<longleftrightarrow> (\<forall>f \<in> set fs. json_key f \<noteq> None \<longrightarrow> described ds n (field_type f))"

lemma described_Suc:
  "described ds (Suc n) t \<longleftrightarrow> (case strip_pointers t of
     TNamed name \<Rightarrow> fields_described ds n (case map_of ds name of None \<Rightarrow> [] | Some fs \<Rightarrow> fs)
   | TStruct fs \<Rightarrow> fields_described ds n fs
   | TSlice e \<Rightarrow> described ds n e
   | TArray e \<Rightarrow> described ds n e
   | TMap k e \<Rightarrow> k = TString \<longrightarrow> described ds n e
   | _ \<Rightarrow> True)"
proof -
  let ?parts = "\<lambda>fs. List.map_filter (\<lambda>f. case json_key f of None \<Rightarrow> None
       | Some key \<Rightarrow> Some (map_option (\<lambda>d. ''  '' @ quoted key @ '': '' @ d) (describeStructuredType ds n (field_type f)))) fs"
  have "None \<notin> set (?parts fs) \<longleftrightarrow> fields_described ds n fs" for fs
    by (induction fs) (auto simp: List.map_filter_def fields_described_def described_def split: option.split_asm)
  then have "all_some (?parts fs) \<noteq> None \<longleftrightarrow> fields_described ds n fs" for fs by (simp add: all_some_None)
  then have fl: "(\<exists>ys. all_some (?parts fs) = Some ys) \<longleftrightarrow> fields_described ds n fs" for fs by simp
  have e: "(\<exists>d. describeStructuredType ds n e = Some d) \<longleftrightarrow> described ds n e" for e by (simp add: described_def)
  show ?thesis
    unfolding described_def [of ds "Suc n" t] by (cases "strip_pointers t") (simp_all add: fl e Let_def)
qed

lemma described_mono: "described ds n t \<Longrightarrow> described ds (Suc n) t"
proof (induction n arbitrary: t)
  case 0
  then show ?case by (simp add: described_def)
next
  case (Suc n)
  have "fields_described ds n fs \<Longrightarrow> fields_described ds (Suc n) fs" for fs
    using Suc.IH by (simp add: fields_described_def)
  with Suc show ?case unfolding described_Suc by (auto split: go_type.split_asm)
qed

lemma described_le: "described ds n t \<Longrightarrow> n \<le> m \<Longrightarrow> described ds m t"
  by (induction m rule: nat_induct) (auto simp: described_mono le_Suc_eq)

lemma described_fields:
  "(\<And>f. f \<in> set fs \<Longrightarrow> \<exists>n. described ds n (field_type f)) \<Longrightarrow> \<exists>n. fields_described ds n fs"
proof (induction fs)
  case (Cons f fs)
  then obtain n m where "fields_described ds n fs" "described ds m (field_type f)" by (meson list.set_intros)
  have "described ds n u \<Longrightarrow> described ds (max n m) u" "described ds m u \<Longrightarrow> described ds (max n m) u" for u
    by (auto intro: described_le)
  with \<open>fields_described ds n fs\<close> \<open>described ds m (field_type f)\<close> have "fields_described ds (max n m) (f # fs)"
    by (auto simp: fields_described_def)
  then show ?case ..
qed (simp add: fields_described_def)

lemma described_acyclic:
  assumes "acyclic_declarations ds rank"
  shows "(\<And>m. m \<in> mentions t \<Longrightarrow> rank m < k) \<Longrightarrow> \<exists>n. described ds n t"
proof (induction k arbitrary: t rule: less_induct)
  case (less k)
  have named: "\<exists>n. described ds n (TNamed name)" if "rank name < k" for name
  proof (cases "map_of ds name")
    case None
    then have "described ds (Suc 0) (TNamed name)" by (simp add: described_Suc fields_described_def)
    then show ?thesis ..
  next
    case (Some fs)
    have "\<exists>n. described ds n (field_type f)" if "f \<in> set fs" for f
      using less.IH [OF \<open>rank name < k\<close>, of "field_type f"] assms Some that by (auto simp: acyclic_declarations_def)
    then obtain n where "fields_described ds n fs" using described_fields by blast
    then have "described ds (Suc n) (TNamed name)" by (simp add: described_Suc Some)
    then show ?thesis ..
  qed
  show ?case using less.prems
  proof (induction t rule: measure_induct_rule [of size])
    case (less t)
    note IH = less.IH and prems = less.prems
    show ?case
    proof (cases t)
    case (TNamed name)
    then show ?thesis using named prems by simp
  next
    case (TStruct fs)
    have "\<exists>n. described ds n (field_type f)" if f: "f \<in> set fs" for f
    proof (rule IH)
      show "size (field_type f) < size t"
        using size_list_estimation' [OF f, of "size f" size] by (cases f) (simp add: TStruct)
      show "m \<in> mentions (field_type f) \<Longrightarrow> rank m < k" for m using prems f by (auto simp: TStruct)
    qed
    then obtain n where "fields_described ds n fs" using described_fields by blast
    then have "described ds (Suc n) t" by (simp add: described_Suc TStruct)
    then show ?thesis ..
  next
    case (TPointer u)
    then obtain n where "described ds n u" using IH [of u] prems by auto
    then have "described ds (Suc n) t" using described_mono by (simp add: described_Suc TPointer)
    then show ?thesis ..
  next
    case (TSlice u)
    then obtain n where "described ds n u" using IH [of u] prems by auto
    then have "described ds (Suc n) t" by (simp add: described_Suc TSlice)
    then show ?thesis ..
  next
    case (TArray u)
    then obtain n where "described ds n u" using IH [of u] prems by auto
    then have "described ds (Suc n) t" by (simp add: described_Suc TArray)
    then show ?thesis ..
  next
    case (TMap k u)
    then obtain n where "described ds n u" using IH [of u] prems by auto
    then have "described ds (Suc n) t" by (simp add: described_Suc TMap)
    then show ?thesis ..
    qed (simp_all add: exI [of _ "Suc 0"] described_Suc)
  qed
qed

subsection \<open>Lemmas: the extraction\<close>

definition part_of :: "string \<Rightarrow> string \<Rightarrow> bool" where
  "part_of j s \<longleftrightarrow> (\<exists>a b. s = a @ j @ b)"

lemma part_of_trans: "part_of i j \<Longrightarrow> part_of j s \<Longrightarrow> part_of i s"
  unfolding part_of_def by (metis append.assoc)

lemma part_of_trim: "part_of (trim_space s) s"
  unfolding part_of_def using trim_space_split by blast

lemma part_of_slice: "part_of (take n (drop m s)) s"
  unfolding part_of_def by (metis append_take_drop_id)

lemma part_of_refl [simp]: "part_of s s"
  unfolding part_of_def by (metis append_Nil append_Nil2)

lemma fenced_part: "extractFencedJSON s = Some c \<Longrightarrow> part_of c s \<and> trim_space c = c"
  by (auto simp: extractFencedJSON_def Let_def split: if_split_asm option.split_asm
      intro: part_of_trans [OF part_of_trim part_of_slice])

lemma balanced_part: "extractBalancedJSON s = Some b \<Longrightarrow> part_of b s \<and> trim_space b = b"
proof -
  assume "extractBalancedJSON s = Some b"
  then obtain n where "b = trim_space (take n (dropWhile (\<lambda>c. c \<noteq> CHR ''{'' \<and> c \<noteq> CHR ''['') s))"
    by (auto simp: extractBalancedJSON_def Let_def split: list.split_asm)
  then show ?thesis
    using part_of_trans [OF part_of_trim part_of_slice, of n "length (takeWhile (\<lambda>c. c \<noteq> CHR ''{'' \<and> c \<noteq> CHR ''['') s)" s]
    by (simp add: dropWhile_eq_drop)
qed

lemma scan_shift: "scan_balanced op cl s d i e n = Some m \<Longrightarrow> \<exists>k. m = n + Suc k \<and> k < length s \<and> s ! k = cl"
proof (induction s arbitrary: d i e n)
  case (Cons ch s)
  have step: ?case if r: "scan_balanced op cl s d' i' e' (Suc n) = Some m" for d' i' e'
  proof -
    obtain k where "m = Suc n + Suc k" "k < length s" "s ! k = cl" using Cons.IH [OF r] by blast
    then show ?thesis by (intro exI [of _ "Suc k"]) simp
  qed
  show ?case
  proof (cases "\<not> i \<and> ch \<noteq> char_of (34 :: nat) \<and> ch \<noteq> op \<and> ch = cl \<and> d - 1 = 0")
    case True
    then have "m = Suc n" using Cons.prems by (auto split: if_split_asm)
    then show ?thesis using True by (intro exI [of _ 0]) simp
  next
    case False
    then have "\<exists>d' i' e'. scan_balanced op cl s d' i' e' (Suc n) = Some m"
      using Cons.prems by (auto split: if_split_asm)
    then show ?thesis using step by blast
  qed
qed simp

lemma scan_append: "scan_balanced op cl s d i e n = Some m \<Longrightarrow> scan_balanced op cl (s @ t) d i e n = Some m"
  by (induction op cl s d i e n rule: scan_balanced.induct) (auto split: if_split_asm)

text \<open>What stands between two brackets: characters that are neither bracket nor quote, strings with
  escapes, and the same brackets nested. A balanced text is such a body in its brackets.\<close>

abbreviation quote_mark :: char where "quote_mark \<equiv> char_of (34 :: nat)"
abbreviation backslash :: char where "backslash \<equiv> char_of (92 :: nat)"

lemma marks [simp]: "CHR ''{'' \<noteq> quote_mark" "CHR ''}'' \<noteq> quote_mark" "CHR ''['' \<noteq> quote_mark" "CHR '']'' \<noteq> quote_mark"
  "CHR ''x'' \<noteq> quote_mark" "quote_mark \<noteq> CHR ''{''" "quote_mark \<noteq> CHR ''}''" "quote_mark \<noteq> CHR ''[''" "quote_mark \<noteq> CHR '']''"
  "quote_mark \<noteq> backslash" "backslash \<noteq> quote_mark"
  by code_simp+

inductive string_body :: "string \<Rightarrow> bool" where
  string_end: "string_body []"
| string_char: "c \<noteq> quote_mark \<Longrightarrow> c \<noteq> backslash \<Longrightarrow> string_body s \<Longrightarrow> string_body (c # s)"
| string_escape: "string_body s \<Longrightarrow> string_body (backslash # c # s)"

inductive bracket_body :: "char \<Rightarrow> char \<Rightarrow> string \<Rightarrow> bool" for op cl where
  body_end: "bracket_body op cl []"
| body_char: "c \<notin> {op, cl, quote_mark} \<Longrightarrow> bracket_body op cl s \<Longrightarrow> bracket_body op cl (c # s)"
| body_string: "string_body l \<Longrightarrow> bracket_body op cl s \<Longrightarrow> bracket_body op cl (quote_mark # l @ quote_mark # s)"
| body_nested: "bracket_body op cl r \<Longrightarrow> bracket_body op cl s \<Longrightarrow> bracket_body op cl (op # r @ cl # s)"

definition balanced_text :: "string \<Rightarrow> bool" where
  "balanced_text b \<longleftrightarrow> (\<exists>op cl r. (op, cl) \<in> {(CHR ''{'', CHR ''}''), (CHR ''['', CHR '']'')}
     \<and> bracket_body op cl r \<and> b = op # r @ [cl])"

lemma scan_string: "string_body l \<Longrightarrow>
  scan_balanced op cl (l @ quote_mark # s) d True False n = scan_balanced op cl s d False False (n + length l + 1)"
  by (induction l arbitrary: n rule: string_body.induct) simp_all

lemma scan_body:
  assumes "bracket_body op cl r" "op \<noteq> cl" "op \<noteq> quote_mark" "cl \<noteq> quote_mark" "d \<ge> 1"
  shows "scan_balanced op cl (r @ s) d False False n = scan_balanced op cl s d False False (n + length r)"
  using assms by (induction r arbitrary: d s n rule: bracket_body.induct) (auto simp: scan_string algebra_simps)

lemma bracket_no_space: "\<not> is_space CHR ''{''" "\<not> is_space CHR ''[''" "\<not> is_space CHR ''}''" "\<not> is_space CHR '']''"
  by (simp_all add: is_space_def code_of_def)

lemma balanced_text_ends:
  assumes "balanced_text b"
  obtains op r c where "b = op # r" "op = CHR ''{'' \<or> op = CHR ''[''" "c = (if op = CHR ''['' then CHR '']'' else CHR ''}'')"
    "last b = c" "scan_balanced op c b 0 False False 0 = Some (length b)"
proof -
  from assms obtain op cl r where b: "b = op # r @ [cl]" and o: "(op, cl) \<in> {(CHR ''{'', CHR ''}''), (CHR ''['', CHR '']'')}"
    and r: "bracket_body op cl r"
    by (auto simp only: balanced_text_def)
  then have "scan_balanced op cl b 0 False False 0 = Some (length b)"
    using scan_body [OF r, of 1 "[cl]" 1] by auto
  with o show ?thesis by (intro that [of op "r @ [cl]" cl]) (auto simp: b)
qed

lemma trim_around:
  assumes "b \<noteq> []" "\<not> is_space (hd b)" "\<not> is_space (last b)"
  shows "trim_space (p @ b @ q) = trim_left p @ b @ rev (trim_left (rev q))"
proof -
  have l: "trim_left (x @ b @ y) = trim_left x @ b @ y" if "b \<noteq> []" "\<not> is_space (hd b)" for x b y
    using that by (cases b) (induction x; simp add: trim_left_def)+
  have "rev b \<noteq> []" "\<not> is_space (hd (rev b))" using assms by (simp_all add: hd_rev)
  from l [OF this, of "rev q" "rev (trim_left p)"] have "trim_left (rev (trim_left p @ b @ q)) = trim_left (rev q) @ rev b @ rev (trim_left p)"
    by simp
  then show ?thesis using l [OF assms(1,2), of p q] by (simp add: trim_space_def)
qed

lemma trim_balanced: "balanced_text b \<Longrightarrow> trim_space b = b"
  using trim_around [of b "[]" "[]"] bracket_no_space
  by (elim balanced_text_ends) (auto simp: trim_left_def split: if_split_asm)

lemma balanced_found:
  assumes b: "balanced_text b" and p: "\<forall>c \<in> set p. c \<noteq> CHR ''{'' \<and> c \<noteq> CHR ''[''"
  shows "extractBalancedJSON (p @ b @ q) = Some b"
proof -
  obtain op r c where o: "b = op # r" "op = CHR ''{'' \<or> op = CHR ''[''" "c = (if op = CHR ''['' then CHR '']'' else CHR ''}'')"
    "scan_balanced op c b 0 False False 0 = Some (length b)" using b by (rule balanced_text_ends)
  have "dropWhile (\<lambda>c. c \<noteq> CHR ''{'' \<and> c \<noteq> CHR ''['') (p @ b @ q) = b @ q"
    using p o by (subst dropWhile_append2) auto
  moreover have "scan_balanced op c (b @ q) 0 False False 0 = Some (length b)" by (rule scan_append [OF o(4)])
  ultimately show ?thesis using trim_balanced [OF b] o by (simp add: extractBalancedJSON_def Let_def)
qed

subsection \<open>Properties\<close>

text \<open>C29: A JSON text extracted from an answer is valid, trimmed and stands in the answer as it is; every
  failure is an ErrStructuredOutputInvalid, and an answer that is JSON but for white space is
  never refused.\<close>

theorem extraction_returns_valid_json:
  "(\<forall>j. extractStructuredJSON valid input = Inr j \<longrightarrow> valid j \<and> trim_space j = j \<and> part_of j input)
   \<and> (\<forall>e. extractStructuredJSON valid input = Inl e \<longrightarrow>
        err_is e ErrStructuredOutputInvalid \<and> (blank input \<or> \<not> valid (trim_space input)))"
proof -
  have t: "part_of c (trim_space input) \<Longrightarrow> part_of c input" for c using part_of_trans part_of_trim by blast
  show ?thesis
    by (auto simp: extractStructuredJSON_def output_invalid_def Let_def part_of_trim t dest!: fenced_part balanced_part
        split: if_split_asm option.split_asm)
qed

theorem extraction_returns_valid_json_witness:
  "extractStructuredJSON (\<lambda>s. s = ''{x}'') '' {x} '' = Inr ''{x}'' \<and> part_of ''{x}'' '' {x} ''
   \<and> (\<exists>e. extractStructuredJSON (\<lambda>s. s = ''{x}'') ''{y'' = Inl e \<and> err_is e ErrStructuredOutputInvalid)"
proof -
  have a: "extractStructuredJSON (\<lambda>s. s = ''{x}'') '' {x} '' = Inr ''{x}''" and
    "isl (extractStructuredJSON (\<lambda>s. s = ''{x}'') ''{y'')"
    by code_simp+
  then obtain e where "extractStructuredJSON (\<lambda>s. s = ''{x}'') ''{y'' = Inl e" by (auto simp: isl_def)
  with a show ?thesis
    using extraction_returns_valid_json [of "\<lambda>s. s = ''{x}''" "'' {x} ''"]
      extraction_returns_valid_json [of "\<lambda>s. s = ''{x}''" "''{y''"] by blast
qed





subsection \<open>Findings\<close>

text \<open>The description recurses without end into a struct that contains itself, while the schema of the same
  type stops there: a structured question with such a target never returns.\<close>

lemma self_reference_is_never_described:
  assumes "map_of ds name = Some fs" "f \<in> set fs" "json_key f \<noteq> None" "strip_pointers (field_type f) = TNamed name"
  shows "describeStructuredType ds n (TNamed name) = None"
proof (induction n)
  case (Suc n)
  have "described ds n (field_type f) \<longleftrightarrow> described ds n (TNamed name)"
    by (cases n) (simp add: described_def, simp add: described_Suc assms(4))
  moreover have "\<not> described ds n (TNamed name)" using Suc by (simp add: described_def)
  ultimately have "\<not> fields_described ds n fs" using assms(2,3) by (auto simp: fields_described_def)
  then have "\<not> described ds (Suc n) (TNamed name)" by (simp add: described_Suc assms(1))
  then show ?case by (simp add: described_def del: describeStructuredType.simps)
qed simp

lemma recursive_target_has_schema_only:
  "buildStructuredInstruction [(''Node'', [Field ''Next'' True None (TPointer (TNamed ''Node''))])] n
     (Some \<lparr>tv_pointer = True, tv_name = ''Node'', tv_type = TNamed ''Node''\<rparr>) = None"
  "jsonSchemaForType [(''Node'', [Field ''Next'' True None (TPointer (TNamed ''Node''))])] [] (TNamed ''Node'')
     = struct_schema [(''Next'', schema_type ''object'')] []"
  using self_reference_is_never_described [of "[(''Node'', [Field ''Next'' True None (TPointer (TNamed ''Node''))])]" "''Node''" _ _ n]
  by (simp_all add: buildStructuredInstruction_def validateStructuredTarget_def json_key_def field_optional_def)

end
