(* ===== verification/Memory.thy ===== *)
theory Memory
  imports Store AccessBoundary "HOL-Library.Product_Lexorder"
begin

section \<open>Memory: long-term memories and memory providers\<close>

text \<open>
  \<^verbatim>\<open>long_term_memory.go\<close>, \<^verbatim>\<open>memory_provider.go\<close>, \<^verbatim>\<open>query_options.go\<close> and the memory functions of
  \<^verbatim>\<open>agent.go\<close>. The zero time is \<open>None\<close>; the RFC 3339 text of a time, the hash of a memory's ID and
  the embedder are parameters. The two stores of the source are modelled, the in-memory one on
  its slice of records and the adapter over a vector store; the locale \<open>memory_search\<close> is what
  the agent relies on in either.
\<close>

subsection \<open>Records\<close>

record ltm_record =
  ltm_ID :: string
  ltm_SessionID :: string
  ltm_UserID :: string
  ltm_Tenant :: string
  ltm_User :: string
  ltm_Assistant :: string
  ltm_Embedding :: embedding
  ltm_CreatedAt :: "gotime option"
  ltm_ExpiresAt :: "gotime option"

record ltm_hit =
  lh_Memory :: ltm_record
  lh_Score :: real

definition ms_normalized :: "memory_scope \<Rightarrow> string \<Rightarrow> memory_scope" where
  "ms_normalized s defaultTenant =
     (let s = s\<lparr>ms_UserID := trim_space (ms_UserID s), ms_Tenant := trim_space (ms_Tenant s)\<rparr>
      in if ms_Tenant s = '''' then s\<lparr>ms_Tenant := trim_space defaultTenant\<rparr> else s)"

definition isLongTermMemoryExpired :: "ltm_record \<Rightarrow> gotime \<Rightarrow> bool" where
  "isLongTermMemoryExpired r now = (case ltm_ExpiresAt r of None \<Rightarrow> False | Some t \<Rightarrow> t \<le> now)"

definition trimRunes :: "string \<Rightarrow> int \<Rightarrow> string" where
  "trimRunes input maxRunes = (if maxRunes \<le> 0 then ''''
     else if int (length input) \<le> maxRunes then input
     else if maxRunes \<le> 3 then take (nat maxRunes) input
     else take (nat (maxRunes - 3)) input @ ''...'')"

definition compressLongTermMemoryTurn :: "string \<Rightarrow> string \<Rightarrow> int \<Rightarrow> string \<times> string" where
  "compressLongTermMemoryTurn user assistant maxRunes =
     (let user = squeeze (trim_space user); assistant = squeeze (trim_space assistant) in
      if maxRunes \<le> 0 then (user, assistant)
      else if int (length user) + int (length assistant) \<le> maxRunes then (user, assistant)
      else let budgetUser = maxRunes div 2
           in (trimRunes user budgetUser, trimRunes assistant (maxRunes - budgetUser)))"

text \<open>\<open>hash\<close> is the hexadecimal text of the first sixteen bytes of the SHA-256.\<close>

definition buildLongTermMemoryID :: "(string \<Rightarrow> string) \<Rightarrow> string \<Rightarrow> memory_scope \<Rightarrow> string \<Rightarrow> string \<Rightarrow> string" where
  "buildLongTermMemoryID hash sessionID scope user assistant = ''mem_'' @ hash (join_with NL
     [trim_space (ms_Tenant scope), trim_space (ms_UserID scope), trim_space sessionID,
      squeeze (trim_space user), squeeze (trim_space assistant)])"

definition dot_product :: "embedding \<Rightarrow> embedding \<Rightarrow> real" where
  "dot_product a b = sum_list (map2 (*) a b)"

definition cosineSimilarity :: "embedding \<Rightarrow> embedding \<Rightarrow> real option" where
  "cosineSimilarity a b = (if a = [] \<or> length a \<noteq> length b then None
     else if dot_product a a = 0 \<or> dot_product b b = 0 then None
     else Some (dot_product a b / (sqrt (dot_product a a) * sqrt (dot_product b b))))"

subsection \<open>The in-memory store\<close>

definition check_memory :: "ltm_record \<Rightarrow> go_error option" where
  "check_memory r = (if ltm_ID r = '''' then Some (errorf ''memory id is required'' [])
     else if ltm_SessionID r = '''' then Some (errorf ''memory session id is required'' [])
     else if ltm_Embedding r = [] then Some (errorf ''memory embedding is required'' []) else None)"

fun put_memory :: "ltm_record \<Rightarrow> ltm_record list \<Rightarrow> ltm_record list" where
  "put_memory r [] = [r]"
| "put_memory r (x # xs) = (if ltm_ID x = ltm_ID r then r # xs else x # put_memory r xs)"

text \<open>A record that is refused ends the loop; the ones before it stay stored.\<close>

fun store_loop :: "ltm_record list \<Rightarrow> ltm_record list \<Rightarrow> go_error option \<times> ltm_record list" where
  "store_loop [] s = (None, s)"
| "store_loop (r # rs) s = (case check_memory r of Some e \<Rightarrow> (Some e, s) | None \<Rightarrow> store_loop rs (put_memory r s))"

definition im_Store :: "go_error option \<Rightarrow> ltm_record list \<Rightarrow> ltm_record list \<Rightarrow> go_error option \<times> ltm_record list" where
  "im_Store ctx_err records s = (case ctx_err of Some e \<Rightarrow> (Some e, s) | None \<Rightarrow> store_loop records s)"

definition memory_hit :: "gotime \<Rightarrow> string \<Rightarrow> embedding \<Rightarrow> real \<Rightarrow> ltm_record \<Rightarrow> ltm_hit option" where
  "memory_hit now sessionID q threshold r =
     (if ltm_SessionID r \<noteq> sessionID \<or> isLongTermMemoryExpired r now then None
      else case cosineSimilarity q (ltm_Embedding r) of
        None \<Rightarrow> None
      | Some score \<Rightarrow> if score < threshold then None else Some \<lparr>lh_Memory = r, lh_Score = score\<rparr>)"

definition memory_hits :: "gotime \<Rightarrow> string \<Rightarrow> embedding \<Rightarrow> real \<Rightarrow> ltm_record list \<Rightarrow> ltm_hit list" where
  "memory_hits now sessionID q threshold s = List.map_filter (memory_hit now sessionID q threshold) s"

definition im_Search ::
  "gotime \<Rightarrow> go_error option \<Rightarrow> string \<Rightarrow> embedding \<Rightarrow> int \<Rightarrow> real \<Rightarrow> ltm_record list
   \<Rightarrow> ltm_hit list result \<times> ltm_record list" where
  "im_Search now ctx_err sessionID q topK threshold s = (case ctx_err of Some e \<Rightarrow> (Inl e, s) | None \<Rightarrow>
     (if topK \<le> 0 \<or> q = [] then (Inr [], s)
      else (Inr (take (nat topK) (sort_key (\<lambda>h. (- lh_Score h, ltm_ID (lh_Memory h)))
              (memory_hits now sessionID q threshold s))), s)))"

definition im_ClearSession :: "go_error option \<Rightarrow> string \<Rightarrow> ltm_record list \<Rightarrow> go_error option \<times> ltm_record list" where
  "im_ClearSession ctx_err sessionID s = (case ctx_err of Some e \<Rightarrow> (Some e, s)
     | None \<Rightarrow> (None, filter (\<lambda>r. ltm_SessionID r \<noteq> sessionID) s))"

definition im_Close :: "ltm_record list \<Rightarrow> ltm_record list" where
  "im_Close s = []"

definition im_PruneExpired :: "go_error option \<Rightarrow> gotime \<Rightarrow> ltm_record list \<Rightarrow> nat result \<times> ltm_record list" where
  "im_PruneExpired ctx_err now s = (case ctx_err of Some e \<Rightarrow> (Inl e, s)
     | None \<Rightarrow> (Inr (length (filter (\<lambda>r. isLongTermMemoryExpired r now) s)),
                filter (\<lambda>r. \<not> isLongTermMemoryExpired r now) s))"

subsection \<open>The store over a vector store\<close>

abbreviation mkey_user_id :: string where "mkey_user_id \<equiv> ''rag_memory_user_id''"
abbreviation mkey_tenant :: string where "mkey_tenant \<equiv> ''rag_memory_tenant''"
abbreviation mkey_user :: string where "mkey_user \<equiv> ''rag_memory_user''"
abbreviation mkey_reply :: string where "mkey_reply \<equiv> ''rag_memory_assistant''"
abbreviation mkey_time :: string where "mkey_time \<equiv> ''rag_memory_created_at''"
abbreviation mkey_expire :: string where "mkey_expire \<equiv> ''rag_memory_expires_at''"

text \<open>\<open>tc_format\<close> of \<open>None\<close> is the text of the zero time.\<close>

record time_codec =
  tc_format :: "gotime option \<Rightarrow> string"
  tc_parse :: "string \<Rightarrow> gotime option option"

definition longTermMemorySourcePath :: "string \<Rightarrow> string" where
  "longTermMemorySourcePath sessionID = ''/ragagent/memory/'' @ trim_space sessionID"

definition formatLongTermMemoryTimestamp :: "time_codec \<Rightarrow> gotime option \<Rightarrow> string" where
  "formatLongTermMemoryTimestamp tc t = (case t of None \<Rightarrow> '''' | Some _ \<Rightarrow> tc_format tc t)"

definition memory_chunk :: "time_codec \<Rightarrow> ltm_record \<Rightarrow> chunk_record" where
  "memory_chunk tc r = (let body = trim_space (ltm_User r) @ NL @ trim_space (ltm_Assistant r) in
     \<lparr>cr_ChunkID = ltm_ID r, cr_ParentID = ltm_ID r, cr_SourcePath = longTermMemorySourcePath (ltm_SessionID r),
      cr_Title = ''long_term_memory'', cr_Text = body, cr_StartRune = 0, cr_EndRune = int (length body),
      cr_Metadata = [mkey_user_id \<mapsto> ltm_UserID r, mkey_tenant \<mapsto> ltm_Tenant r, mkey_user \<mapsto> ltm_User r,
        mkey_reply \<mapsto> ltm_Assistant r, mkey_time \<mapsto> tc_format tc (ltm_CreatedAt r),
        mkey_expire \<mapsto> formatLongTermMemoryTimestamp tc (ltm_ExpiresAt r)],
      cr_Embedding = ltm_Embedding r\<rparr>)"

fun first_error :: "ltm_record list \<Rightarrow> go_error option" where
  "first_error [] = None"
| "first_error (r # rs) = (case check_memory r of Some e \<Rightarrow> Some e | None \<Rightarrow> first_error rs)"

definition vm_Store ::
  "time_codec \<Rightarrow> (chunk_record list \<Rightarrow> 's \<Rightarrow> go_error option \<times> 's) \<Rightarrow> go_error option \<Rightarrow> ltm_record list
   \<Rightarrow> 's \<Rightarrow> go_error option \<times> 's" where
  "vm_Store tc upsert ctx_err records s = (case ctx_err of Some e \<Rightarrow> (Some e, s) | None \<Rightarrow>
     (if records = [] then (None, s)
      else (case first_error records of Some e \<Rightarrow> (Some e, s) | None \<Rightarrow> upsert (map (memory_chunk tc) records) s)))"

definition read_time :: "time_codec \<Rightarrow> metadata \<Rightarrow> string \<Rightarrow> gotime option" where
  "read_time tc m k = (let ts = lookup0 m k in if ts = '''' then None
     else case tc_parse tc ts of None \<Rightarrow> None | Some t \<Rightarrow> t)"

definition chunk_memory :: "time_codec \<Rightarrow> string \<Rightarrow> chunk_record \<Rightarrow> ltm_record" where
  "chunk_memory tc sessionID c = \<lparr>ltm_ID = cr_ChunkID c, ltm_SessionID = sessionID,
     ltm_UserID = lookup0 (cr_Metadata c) mkey_user_id, ltm_Tenant = lookup0 (cr_Metadata c) mkey_tenant,
     ltm_User = lookup0 (cr_Metadata c) mkey_user, ltm_Assistant = lookup0 (cr_Metadata c) mkey_reply,
     ltm_Embedding = cr_Embedding c, ltm_CreatedAt = read_time tc (cr_Metadata c) mkey_time,
     ltm_ExpiresAt = read_time tc (cr_Metadata c) mkey_expire\<rparr>"

definition vm_Search ::
  "time_codec \<Rightarrow> (embedding \<Rightarrow> int \<Rightarrow> real \<Rightarrow> search_filter \<Rightarrow> 's \<Rightarrow> search_hit list result) \<Rightarrow> gotime
   \<Rightarrow> go_error option \<Rightarrow> string \<Rightarrow> embedding \<Rightarrow> int \<Rightarrow> real \<Rightarrow> 's \<Rightarrow> ltm_hit list result \<times> 's" where
  "vm_Search tc search now ctx_err sessionID q topK threshold s = (case ctx_err of Some e \<Rightarrow> (Inl e, s) | None \<Rightarrow>
     (if topK \<le> 0 \<or> q = [] \<or> blank sessionID then (Inr [], s)
      else (case search q topK threshold (empty_filter\<lparr>sf_SourcePaths := [longTermMemorySourcePath sessionID]\<rparr>) s of
          Inl e \<Rightarrow> (Inl e, s)
        | Inr hits \<Rightarrow> (Inr (filter (\<lambda>h. \<not> isLongTermMemoryExpired (lh_Memory h) now)
            (map (\<lambda>h. \<lparr>lh_Memory = chunk_memory tc sessionID (hit_Chunk h), lh_Score = hit_Score h\<rparr>) hits)), s))))"

definition vm_ClearSession ::
  "(string list \<Rightarrow> 's \<Rightarrow> go_error option \<times> 's) \<Rightarrow> go_error option \<Rightarrow> string \<Rightarrow> 's \<Rightarrow> go_error option \<times> 's" where
  "vm_ClearSession remove ctx_err sessionID s = (case ctx_err of Some e \<Rightarrow> (Some e, s) | None \<Rightarrow>
     (if blank sessionID then (None, s) else remove [longTermMemorySourcePath sessionID] s))"

subsection \<open>The agent's memory\<close>

text \<open>A long-term memory and the embedder, on a world of their own.\<close>

record 'w memory_ops =
  mo_Embed :: "string list \<Rightarrow> 'w \<Rightarrow> embedding list result \<times> 'w"
  mo_Store :: "ltm_record list \<Rightarrow> 'w \<Rightarrow> go_error option \<times> 'w"
  mo_Search :: "gotime \<Rightarrow> string \<Rightarrow> embedding \<Rightarrow> int \<Rightarrow> real \<Rightarrow> 'w \<Rightarrow> ltm_hit list result \<times> 'w"

record memory_config =
  mc_TopK :: int
  mc_Threshold :: real
  mc_TTL :: duration
  mc_MaxStoredRunes :: int
  mc_Namespace :: string

definition in_scope :: "memory_scope \<Rightarrow> gotime \<Rightarrow> ltm_record \<Rightarrow> bool" where
  "in_scope scope now r \<longleftrightarrow> \<not> (isLongTermMemoryExpired r now
     \<or> ms_UserID scope \<noteq> '''' \<and> ltm_UserID r \<noteq> ms_UserID scope
     \<or> ms_Tenant scope \<noteq> '''' \<and> ltm_Tenant r \<noteq> ms_Tenant scope
     \<or> ms_UserID scope = '''' \<and> ltm_UserID r \<noteq> ''''
     \<or> ms_Tenant scope = '''' \<and> ltm_Tenant r \<noteq> '''')"

definition filterLongTermMemoryHits :: "ltm_hit list \<Rightarrow> memory_scope \<Rightarrow> gotime \<Rightarrow> ltm_hit list" where
  "filterLongTermMemoryHits hits scope now = filter (\<lambda>h. in_scope scope now (lh_Memory h)) hits"

definition render_memory :: "ltm_record \<Rightarrow> string" where
  "render_memory r = ''- User: '' @ trim_space (ltm_User r) @ NL @ ''  Assistant: '' @ trim_space (ltm_Assistant r)"

definition render_memories :: "ltm_hit list \<Rightarrow> string" where
  "render_memories hits = join_with (NL @ NL) (map (\<lambda>h. render_memory (lh_Memory h)) hits)"

text \<open>One text embedded: exactly one row, which is not empty.\<close>

definition embed_one :: "'w memory_ops \<Rightarrow> string \<Rightarrow> string \<Rightarrow> string \<Rightarrow> 'w \<Rightarrow> embedding result \<times> 'w" where
  "embed_one ops failed missing t w = (case mo_Embed ops [t] w of
     (Inl e, w) \<Rightarrow> (Inl (wrap_err failed e), w)
   | (Inr rows, w) \<Rightarrow> (case rows of
        [row] \<Rightarrow> if row = [] then (Inl (errorf missing []), w) else (Inr row, w)
      | _ \<Rightarrow> (Inl (errorf missing []), w)))"

text \<open>Search, scope filter and text, shared by the agent and the provider adapter.\<close>

definition search_memories ::
  "'w memory_ops \<Rightarrow> string \<Rightarrow> int \<Rightarrow> real \<Rightarrow> gotime \<Rightarrow> string \<Rightarrow> memory_scope \<Rightarrow> embedding \<Rightarrow> 'w \<Rightarrow> string result \<times> 'w" where
  "search_memories ops failed topK threshold now sessionID scope row w = (case mo_Search ops now sessionID row topK threshold w of
     (Inl e, w) \<Rightarrow> (Inl (wrap_err failed e), w)
   | (Inr hits, w) \<Rightarrow> (Inr (render_memories (filterLongTermMemoryHits hits scope now)), w))"

definition retrieveLongTermMemory ::
  "'w memory_ops option \<Rightarrow> memory_config \<Rightarrow> gotime \<Rightarrow> string \<Rightarrow> string \<Rightarrow> memory_scope \<Rightarrow> 'w \<Rightarrow> string result \<times> 'w" where
  "retrieveLongTermMemory ops cfg now sessionID query scope w = (case ops of None \<Rightarrow> (Inr '''', w) | Some ops \<Rightarrow>
     (if mc_TopK cfg = 0 then (Inr '''', w)
      else (case embed_one ops ''embed long-term memory query'' ''long-term memory query embedding is empty'' query w of
          (Inl e, w) \<Rightarrow> (Inl e, w)
        | (Inr row, w) \<Rightarrow> search_memories ops ''search long-term memory'' (mc_TopK cfg) (mc_Threshold cfg) now sessionID
            (ms_normalized scope (mc_Namespace cfg)) row w)))"

definition memory_record ::
  "(string \<Rightarrow> string) \<Rightarrow> duration \<Rightarrow> gotime \<Rightarrow> string \<Rightarrow> memory_scope \<Rightarrow> string \<times> string \<Rightarrow> embedding \<Rightarrow> ltm_record" where
  "memory_record hash ttl now sessionID scope turn row =
     \<lparr>ltm_ID = buildLongTermMemoryID hash sessionID scope (fst turn) (snd turn), ltm_SessionID = sessionID,
      ltm_UserID = ms_UserID scope, ltm_Tenant = ms_Tenant scope, ltm_User = fst turn, ltm_Assistant = snd turn,
      ltm_Embedding = row, ltm_CreatedAt = Some now, ltm_ExpiresAt = (if ttl > 0 then Some (now + ttl) else None)\<rparr>"

definition storeLongTermMemory ::
  "(string \<Rightarrow> string) \<Rightarrow> 'w memory_ops option \<Rightarrow> memory_config \<Rightarrow> gotime \<Rightarrow> string \<Rightarrow> string \<Rightarrow> string \<Rightarrow> memory_scope
   \<Rightarrow> 'w \<Rightarrow> go_error option \<times> 'w" where
  "storeLongTermMemory hash ops cfg now sessionID query answer scope w = (case ops of None \<Rightarrow> (None, w) | Some ops \<Rightarrow>
     (let turn = compressLongTermMemoryTurn query answer (mc_MaxStoredRunes cfg) in
      case embed_one ops ''embed long-term memory record'' ''long-term memory record embedding is empty''
             (trim_space (fst turn) @ NL @ trim_space (snd turn)) w of
        (Inl e, w) \<Rightarrow> (Some e, w)
      | (Inr row, w) \<Rightarrow> mo_Store ops
          [memory_record hash (mc_TTL cfg) now sessionID (ms_normalized scope (mc_Namespace cfg)) turn row] w))"

subsection \<open>Memory providers\<close>

record memory_request =
  mr_SessionID :: string
  mr_Query :: string
  mr_Scope :: memory_scope
  mr_History :: "message list"

record memory_result =
  mres_MemoryText :: string
  mres_Messages :: "message list"

record 'w memory_provider =
  mp_Retrieve :: "gotime \<Rightarrow> memory_request \<Rightarrow> 'w \<Rightarrow> memory_result result \<times> 'w"
  mp_Memorize :: "gotime \<Rightarrow> string \<Rightarrow> memory_scope \<Rightarrow> string \<Rightarrow> string \<Rightarrow> 'w \<Rightarrow> go_error option \<times> 'w"

record ltm_provider_config =
  lp_TopK :: int
  lp_Threshold :: real
  lp_TTL :: duration
  lp_MaxRunes :: int

definition newLongTermMemoryProvider :: "ltm_provider_config \<Rightarrow> ltm_provider_config" where
  "newLongTermMemoryProvider cfg =
     (let cfg = (if lp_TopK cfg = 0 then cfg\<lparr>lp_TopK := 3\<rparr> else cfg)
      in if lp_MaxRunes cfg = 0 then cfg\<lparr>lp_MaxRunes := 512\<rparr> else cfg)"

definition memory_text :: "string \<Rightarrow> memory_result" where
  "memory_text t = \<lparr>mres_MemoryText = t, mres_Messages = []\<rparr>"

definition provider_Retrieve ::
  "'w memory_ops option \<Rightarrow> ltm_provider_config \<Rightarrow> gotime \<Rightarrow> memory_request \<Rightarrow> 'w \<Rightarrow> memory_result result \<times> 'w" where
  "provider_Retrieve ops cfg now req w = (case ops of None \<Rightarrow> (Inr (memory_text ''''), w) | Some ops \<Rightarrow>
     (let query = trim_space (mr_Query req) in
      if lp_TopK cfg \<le> 0 \<or> query = '''' then (Inr (memory_text ''''), w)
      else (case embed_one ops ''embed memory query'' ''memory query embedding is empty'' query w of
          (Inl e, w) \<Rightarrow> (Inl e, w)
        | (Inr row, w) \<Rightarrow>
            (case search_memories ops ''search memory'' (lp_TopK cfg) (lp_Threshold cfg) now (mr_SessionID req) (mr_Scope req) row w of
               (Inl e, w) \<Rightarrow> (Inl e, w)
             | (Inr t, w) \<Rightarrow> (Inr (memory_text t), w)))))"

definition provider_Memorize ::
  "(string \<Rightarrow> string) \<Rightarrow> 'w memory_ops option \<Rightarrow> ltm_provider_config \<Rightarrow> gotime \<Rightarrow> string \<Rightarrow> memory_scope
   \<Rightarrow> string \<Rightarrow> string \<Rightarrow> 'w \<Rightarrow> go_error option \<times> 'w" where
  "provider_Memorize hash ops cfg now sessionID scope user assistant w = (case ops of None \<Rightarrow> (None, w) | Some ops \<Rightarrow>
     (let turn = compressLongTermMemoryTurn user assistant (lp_MaxRunes cfg) in
      case embed_one ops ''embed memory record'' ''memory record embedding is empty''
             (trim_space (fst turn) @ NL @ trim_space (snd turn)) w of
        (Inl e, w) \<Rightarrow> (Some e, w)
      | (Inr row, w) \<Rightarrow> mo_Store ops [memory_record hash (lp_TTL cfg) now sessionID scope turn row] w))"

definition role_str :: "role \<Rightarrow> string" where
  "role_str r = (case r of RoleNone \<Rightarrow> '''' | RoleSystem \<Rightarrow> ''system'' | RoleUser \<Rightarrow> ''user''
     | RoleAssistant \<Rightarrow> ''assistant'' | RoleTool \<Rightarrow> ''tool'')"

definition joinMemoryProviderResult :: "memory_result \<Rightarrow> string" where
  "joinMemoryProviderResult r = join_with (NL @ NL)
     ((if blank (mres_MemoryText r) then [] else [trim_space (mres_MemoryText r)])
      @ map (\<lambda>m. role_str (msg_Role m) @ '': '' @ trim_space (msg_Content m))
          (filter (\<lambda>m. \<not> blank (msg_Content m)) (mres_Messages r)))"

subsection \<open>What the agent relies on in a memory store\<close>

locale memory_search =
  fixes search :: "gotime \<Rightarrow> string \<Rightarrow> embedding \<Rightarrow> int \<Rightarrow> real \<Rightarrow> 's \<Rightarrow> ltm_hit list result \<times> 's"
    and records :: "'s \<Rightarrow> ltm_record set"
  assumes search_hits: "search now sid q k th s = (Inr hits, s') \<Longrightarrow> h \<in> set hits \<Longrightarrow>
      lh_Memory h \<in> records s \<and> ltm_SessionID (lh_Memory h) = sid \<and> \<not> isLongTermMemoryExpired (lh_Memory h) now \<and> th \<le> lh_Score h"
    and search_length: "search now sid q k th s = (Inr hits, s') \<Longrightarrow> int (length hits) \<le> max 0 k"
begin

text \<open>The text that a search contributes to a prompt is made of memories of the session and the scope.\<close>

lemma search_memories_scoped:
  assumes "mo_Search ops = search" "search_memories ops failed k th now sid scope row s = (Inr t, s')"
  shows "\<exists>ms. t = join_with (NL @ NL) (map render_memory ms) \<and> set ms \<subseteq> records s \<and> int (length ms) \<le> max 0 k
    \<and> (\<forall>m \<in> set ms. ltm_SessionID m = sid \<and> ltm_UserID m = ms_UserID scope \<and> ltm_Tenant m = ms_Tenant scope
         \<and> \<not> isLongTermMemoryExpired m now)"
proof -
  obtain hits where s: "search now sid row k th s = (Inr hits, s')"
    "t = render_memories (filterLongTermMemoryHits hits scope now)"
    using assms by (auto simp: search_memories_def split: prod.split_asm sum.split_asm)
  let ?ms = "map lh_Memory (filterLongTermMemoryHits hits scope now)"
  have "t = join_with (NL @ NL) (map render_memory ?ms)" by (simp add: s(2) render_memories_def comp_def)
  moreover have "int (length ?ms) \<le> max 0 k"
    using search_length [OF s(1)] length_filter_le [of "\<lambda>h. in_scope scope now (lh_Memory h)" hits]
    unfolding filterLongTermMemoryHits_def length_map by linarith
  moreover have "set ?ms \<subseteq> records s" "\<forall>m \<in> set ?ms. ltm_SessionID m = sid \<and> ltm_UserID m = ms_UserID scope
      \<and> ltm_Tenant m = ms_Tenant scope \<and> \<not> isLongTermMemoryExpired m now"
    using search_hits [OF s(1)] by (auto simp: filterLongTermMemoryHits_def in_scope_def)
  ultimately show ?thesis by blast
qed

end

lemma set_map_filter: "y \<in> set (List.map_filter f xs) \<longleftrightarrow> (\<exists>x \<in> set xs. f x = Some y)"
  unfolding List.map_filter_def by (simp add: image_iff) (metis option.exhaust_sel option.sel option.discI)

lemma memory_hit_iff: "memory_hit now sid q th r = Some h \<longleftrightarrow> ltm_SessionID r = sid \<and> \<not> isLongTermMemoryExpired r now
    \<and> (\<exists>score. cosineSimilarity q (ltm_Embedding r) = Some score \<and> th \<le> score \<and> h = \<lparr>lh_Memory = r, lh_Score = score\<rparr>)"
  by (auto simp: memory_hit_def split: option.split)

lemma im_Search_hits:
  assumes "im_Search now ctx_err sid q k th s = (Inr hits, s')"
  shows "s' = s" "h \<in> set hits \<Longrightarrow> lh_Memory h \<in> set s \<and> ltm_SessionID (lh_Memory h) = sid
      \<and> \<not> isLongTermMemoryExpired (lh_Memory h) now \<and> th \<le> lh_Score h"
    "int (length hits) \<le> max 0 k"
  using assms by (auto simp: im_Search_def memory_hits_def set_map_filter memory_hit_iff
      split: option.split_asm if_split_asm dest!: in_set_takeD)

interpretation im: memory_search "\<lambda>now. im_Search now ctx_err" set for ctx_err
proof
  fix now sid q k th hits and s s' :: "ltm_record list" and h
  assume run: "im_Search now ctx_err sid q k th s = (Inr hits, s')"
  show "int (length hits) \<le> max 0 k" by (rule im_Search_hits(3) [OF run])
  show "h \<in> set hits \<Longrightarrow> lh_Memory h \<in> set s \<and> ltm_SessionID (lh_Memory h) = sid
      \<and> \<not> isLongTermMemoryExpired (lh_Memory h) now \<and> th \<le> lh_Score h"
    by (rule im_Search_hits(2) [OF run])
qed

text \<open>A memory of the vector store is a chunk filed under the path of the session.\<close>

definition vm_records :: "time_codec \<Rightarrow> ('c \<Rightarrow> string \<rightharpoonup> cdoc) \<Rightarrow> 'c \<Rightarrow> ltm_record set" where
  "vm_records tc docs c = {chunk_memory tc sid (resultToChunk d) | sid d. d \<in> ran (docs c)
     \<and> path_clean (cr_SourcePath (resultToChunk d)) = path_clean (trim_space (longTermMemorySourcePath sid))}"

lemma memory_path_filter:
  "sf_SourcePaths (sf_normalized ks (empty_filter\<lparr>sf_SourcePaths := [longTermMemorySourcePath sid]\<rparr>))
     = [path_clean (trim_space (longTermMemorySourcePath sid))]"
proof -
  have "\<not> blank (longTermMemorySourcePath sid)"
    by (simp add: longTermMemorySourcePath_def blank_iff is_space_def code_of_def)
  then show ?thesis by (simp add: sf_normalized_def normalizeSearchFilterPaths_def sort_compact_def)
qed

lemma chromem_memory_search:
  assumes ok: "chromem_ok col docs sim"
  shows "memory_search (\<lambda>now. vm_Search tc (chromem_SearchWithFilter col ks) now ctx_err) (vm_records tc docs)"
proof
  fix now sid q k th s hits s' h
  let ?f = "empty_filter\<lparr>sf_SourcePaths := [longTermMemorySourcePath sid]\<rparr>"
  let ?m = "\<lambda>h. \<lparr>lh_Memory = chunk_memory tc sid (hit_Chunk h), lh_Score = hit_Score h\<rparr>"
  assume run: "vm_Search tc (chromem_SearchWithFilter col ks) now ctx_err sid q k th s = (Inr hits, s')"
  show "int (length hits) \<le> max 0 k"
  proof (cases "k \<le> 0 \<or> q = [] \<or> blank sid")
    case True
    then show ?thesis using run by (auto simp: vm_Search_def split: option.split_asm)
  next
    case False
    then obtain raw where raw: "chromem_SearchWithFilter col ks q k th ?f s = Inr raw"
      and hits: "hits = filter (\<lambda>h. \<not> isLongTermMemoryExpired (lh_Memory h) now) (map ?m raw)"
      using run by (auto simp: vm_Search_def split: option.split_asm if_split_asm sum.split_asm)
    from search_result(1) [OF ok raw] have "int (length raw) \<le> k" .
    moreover have "length hits \<le> length raw" unfolding hits by (metis length_filter_le length_map)
    ultimately show ?thesis by simp
  qed
  assume h: "h \<in> set hits"
  then obtain raw where raw: "chromem_SearchWithFilter col ks q k th ?f s = Inr raw"
    and hits: "hits = filter (\<lambda>h. \<not> isLongTermMemoryExpired (lh_Memory h) now) (map ?m raw)"
    using run by (auto simp: vm_Search_def split: option.split_asm if_split_asm sum.split_asm)
  then obtain x where x: "x \<in> set raw" "h = ?m x" using h by auto
  from search_result(3) [OF ok raw x(1)] obtain i d where d: "docs s i = Some d" "x = to_hit (d, sim q d)"
    "passes th (sf_normalized ks ?f) (d, sim q d)" by blast
  then have "lh_Memory h \<in> vm_records tc docs s" "th \<le> lh_Score h"
    using memory_path_filter [of ks sid] x(2)
    by (auto simp: vm_records_def passes_def matchesChunk_def to_hit_def ran_def)
  then show "lh_Memory h \<in> vm_records tc docs s \<and> ltm_SessionID (lh_Memory h) = sid
      \<and> \<not> isLongTermMemoryExpired (lh_Memory h) now \<and> th \<le> lh_Score h"
    using h hits x(2) by (simp add: chunk_memory_def)
qed

interpretation vm: memory_search "\<lambda>now. vm_Search tc (chromem_SearchWithFilter (list_collection sim) ks) now ctx_err"
  "vm_records tc ldocs" for tc ks ctx_err sim
  by (rule chromem_memory_search) (rule list_collection_ok)

subsection \<open>Lemmas\<close>

lemma put_memory_set: "r \<in> set (put_memory r s)"
  by (induction s) auto

lemma put_memory_ids: "distinct (map ltm_ID s) \<Longrightarrow> distinct (map ltm_ID (put_memory r s))
    \<and> set (map ltm_ID (put_memory r s)) = insert (ltm_ID r) (set (map ltm_ID s))"
  by (induction s) (auto split: if_splits)

lemma store_loop_ids: "store_loop rs s = (e, s') \<Longrightarrow> distinct (map ltm_ID s) \<Longrightarrow> distinct (map ltm_ID s')"
  by (induction rs arbitrary: s) (auto simp: put_memory_ids split: option.split_asm)

lemma compress_bound:
  assumes "0 < maxRunes" "compressLongTermMemoryTurn user assistant maxRunes = (u, a)"
  shows "int (length u) + int (length a) \<le> maxRunes"
proof -
  have "int (length (trimRunes t n)) \<le> max 0 n" for t n by (auto simp: trimRunes_def)
  then have "int (length (trimRunes t n)) \<le> n" if "0 \<le> n" for t n using that by (metis max.absorb2)
  from this [of "maxRunes div 2" "squeeze (trim_space user)"] this [of "maxRunes - maxRunes div 2" "squeeze (trim_space assistant)"]
  moreover have "maxRunes div 2 \<le> maxRunes" using assms(1) by simp
  ultimately show ?thesis using assms unfolding compressLongTermMemoryTurn_def Let_def by (auto split: if_splits)
qed

lemma im_Search_complete:
  assumes run: "im_Search now None sid q k th s = (Inr hits, s')" and k: "0 < k" "q \<noteq> []"
    and r: "r \<in> set s" "memory_hit now sid q th r = Some h"
  shows "h \<in> set hits \<or> int (length hits) = k \<and> (\<forall>g \<in> set hits. lh_Score h \<le> lh_Score g)"
proof -
  let ?key = "\<lambda>h. (- lh_Score h, ltm_ID (lh_Memory h))" and ?all = "memory_hits now sid q th s"
  have hits: "hits = take (nat k) (sort_key ?key ?all)" using run k by (auto simp: im_Search_def)
  have "h \<in> set (sort_key ?key ?all)" using r by (auto simp: memory_hits_def set_map_filter)
  then consider "h \<in> set hits" | "h \<in> set (drop (nat k) (sort_key ?key ?all))"
    unfolding hits by (metis append_take_drop_id set_append UnE)
  then show ?thesis
  proof cases
    case 2
    have "length (sort_key ?key ?all) > nat k" using 2 by (metis drop_all empty_iff empty_set not_le)
    moreover have "sorted (map ?key (take (nat k) (sort_key ?key ?all) @ drop (nat k) (sort_key ?key ?all)))" by simp
    then have "\<forall>g \<in> set hits. ?key g \<le> ?key h"
      using 2 unfolding map_append sorted_append hits by auto
    ultimately show ?thesis using k by (auto simp: hits)
  qed simp
qed

lemma search_memories_text:
  "search_memories ops failed k th now sid scope row w = (Inr t, w') \<longleftrightarrow> (\<exists>hits.
     mo_Search ops now sid row k th w = (Inr hits, w') \<and> t = render_memories (filterLongTermMemoryHits hits scope now))"
  by (auto simp: search_memories_def split: prod.split sum.split)

subsection \<open>Findings\<close>

text \<open>Different sessions can have the same source path: their memories are found, and cleared, together.\<close>

lemma sessions_share_memories:
  assumes "ltm_SessionID r = ''x/../b''"
  shows "matchesChunk (sf_normalized [] (empty_filter\<lparr>sf_SourcePaths := [longTermMemorySourcePath ''b'']\<rparr>)) (memory_chunk tc r)"
proof -
  have "path_clean (longTermMemorySourcePath ''x/../b'') = path_clean (trim_space (longTermMemorySourcePath ''b''))"
    by code_simp
  then show ?thesis using assms memory_path_filter [of "[]" "''b''"]
    by (simp add: matchesChunk_def memory_chunk_def Let_def)
       (simp add: sf_normalized_def empty_filter_def normalizeSearchFilterPaths_def)
qed

definition demo_memory :: "string \<Rightarrow> string \<Rightarrow> ltm_record" where
  "demo_memory i user = \<lparr>ltm_ID = i, ltm_SessionID = ''s'', ltm_UserID = user, ltm_Tenant = '''', ltm_User = ''hi'',
     ltm_Assistant = ''yo'', ltm_Embedding = [1], ltm_CreatedAt = None, ltm_ExpiresAt = None\<rparr>"

definition demo_memory_ops :: "ltm_record list memory_ops" where
  "demo_memory_ops = \<lparr>mo_Embed = (\<lambda>_ w. (Inr [[1]], w)), mo_Store = im_Store None, mo_Search = (\<lambda>now. im_Search now None)\<rparr>"

definition demo_memory_config :: "memory_config" where
  "demo_memory_config = \<lparr>mc_TopK = 1, mc_Threshold = 0, mc_TTL = 0, mc_MaxStoredRunes = 512, mc_Namespace = ''''\<rparr>"

lemma demo_cosine [simp]: "cosineSimilarity [1] [1] = Some 1"
  by (simp add: cosineSimilarity_def dot_product_def)

lemma demo_memory_hit: "memory_hit now ''s'' [1] 0 (demo_memory i u) = Some \<lparr>lh_Memory = demo_memory i u, lh_Score = 1\<rparr>"
  by (simp add: memory_hit_def demo_memory_def isLongTermMemoryExpired_def)

lemma memory_demo_search:
  "im_Search now None ''s'' [1] 1 0 [demo_memory ''m1'' u, demo_memory ''m2'' v] =
     (Inr [\<lparr>lh_Memory = demo_memory ''m1'' u, lh_Score = 1\<rparr>], [demo_memory ''m1'' u, demo_memory ''m2'' v])"
proof -
  have ids: "ltm_ID (demo_memory i x) = i" for i x by (simp add: demo_memory_def)
  show ?thesis by (simp add: im_Search_def memory_hits_def List.map_filter_def demo_memory_hit ids)
qed

text \<open>The scope is applied after the best TopK were taken, so memories of others crowd one's own out.\<close>

lemma scope_applied_after_top_k:
  "retrieveLongTermMemory (Some demo_memory_ops) demo_memory_config now ''s'' ''hi?'' \<lparr>ms_UserID = ''u2'', ms_Tenant = ''''\<rparr>
     [demo_memory ''m1'' ''u1'', demo_memory ''m2'' ''u2''] = (Inr '''', [demo_memory ''m1'' ''u1'', demo_memory ''m2'' ''u2''])"
proof -
  have "ms_normalized \<lparr>ms_UserID = ''u2'', ms_Tenant = ''''\<rparr> '''' = \<lparr>ms_UserID = ''u2'', ms_Tenant = ''''\<rparr>" by code_simp
  moreover have "\<not> in_scope \<lparr>ms_UserID = ''u2'', ms_Tenant = ''''\<rparr> now (demo_memory ''m1'' ''u1'')"
    by (simp add: in_scope_def demo_memory_def)
  ultimately show ?thesis
    by (simp add: retrieveLongTermMemory_def demo_memory_ops_def demo_memory_config_def embed_one_def search_memories_def
        memory_demo_search filterLongTermMemoryHits_def render_memories_def)
qed

subsection \<open>Properties\<close>



text \<open>What storeLongTermMemory wrote is found again: a later search of the session returns it until it
  expires, unless TopK memories at least as similar are returned instead.\<close>


theorem stored_memory_is_found:
  assumes ops: "mo_Store ops = im_Store None" "mo_Embed ops = (\<lambda>ts w. (emb ts, w))"
    and turn: "compressLongTermMemoryTurn query answer (mc_MaxStoredRunes cfg) = (u, a)"
      "emb [trim_space u @ NL @ trim_space a] = Inr [row]"
    and store: "storeLongTermMemory hash (Some ops) cfg now sessionID query answer scope s = (None, s1)"
    and search: "im_Search later None sessionID q k th s1 = (Inr hits, s2)" "0 < k" "q \<noteq> []"
    and unexpired: "mc_TTL cfg \<le> 0 \<or> later < now + mc_TTL cfg"
    and similar: "cosineSimilarity q row = Some score" "th \<le> score"
  shows "\<exists>r \<in> set s1. ltm_User r = u \<and> ltm_Assistant r = a
     \<and> ltm_UserID r = ms_UserID (ms_normalized scope (mc_Namespace cfg))
     \<and> (\<lparr>lh_Memory = r, lh_Score = score\<rparr> \<in> set hits \<or> int (length hits) = k \<and> (\<forall>g \<in> set hits. score \<le> lh_Score g))"
proof -
  let ?r = "memory_record hash (mc_TTL cfg) now sessionID (ms_normalized scope (mc_Namespace cfg)) (u, a) row"
  have s1: "s1 = put_memory ?r s"
    using store ops turn by (auto simp: storeLongTermMemory_def embed_one_def im_Store_def split: if_split_asm option.split_asm)
  then have r: "?r \<in> set s1" by (simp add: put_memory_set)
  have "memory_hit later sessionID q th ?r = Some \<lparr>lh_Memory = ?r, lh_Score = score\<rparr>"
    using unexpired similar by (auto simp: memory_hit_iff memory_record_def isLongTermMemoryExpired_def)
  from im_Search_complete [OF search r this] have
    "\<lparr>lh_Memory = ?r, lh_Score = score\<rparr> \<in> set hits \<or> int (length hits) = k \<and> (\<forall>g \<in> set hits. score \<le> lh_Score g)" by simp
  moreover have "ltm_User ?r = u" "ltm_Assistant ?r = a" "ltm_UserID ?r = ms_UserID (ms_normalized scope (mc_Namespace cfg))"
    by (simp_all add: memory_record_def)
  ultimately show ?thesis using r by blast
qed

theorem stored_memory_is_found_witness:
  "\<exists>s1 hits. storeLongTermMemory (\<lambda>t. t) (Some demo_memory_ops) demo_memory_config 5 ''s'' ''hi'' ''yo''
       \<lparr>ms_UserID = ''u1'', ms_Tenant = ''''\<rparr> [] = (None, s1)
     \<and> im_Search 9 None ''s'' [1] 1 0 s1 = (Inr hits, s1)
     \<and> (\<exists>r \<in> set s1. ltm_User r = ''hi'' \<and> (\<lparr>lh_Memory = r, lh_Score = 1\<rparr> \<in> set hits \<or> int (length hits) = 1))"
proof -
  have turn: "compressLongTermMemoryTurn ''hi'' ''yo'' (mc_MaxStoredRunes demo_memory_config) = (''hi'', ''yo'')"
    unfolding demo_memory_config_def by code_simp
  obtain s1 where s1: "storeLongTermMemory (\<lambda>t. t) (Some demo_memory_ops) demo_memory_config 5 ''s'' ''hi'' ''yo''
       \<lparr>ms_UserID = ''u1'', ms_Tenant = ''''\<rparr> [] = (None, s1)"
    using turn by (simp add: storeLongTermMemory_def demo_memory_ops_def embed_one_def im_Store_def check_memory_def
        memory_record_def buildLongTermMemoryID_def)
  obtain hits where hits: "im_Search 9 None ''s'' [1] 1 0 s1 = (Inr hits, s1)" by (simp add: im_Search_def)
  have "mc_TTL demo_memory_config \<le> 0" by (simp add: demo_memory_config_def)
  with stored_memory_is_found [OF _ _ turn _ s1 hits, of "\<lambda>_. Inr [[1]]" "[1]" 1] s1 hits show ?thesis
    by (fastforce simp: demo_memory_ops_def)
qed

text \<open>A memory survives the trip through the vector store: reading back the chunk that was written for
  it gives the same memory, when times survive their text form.\<close>

theorem memory_chunk_roundtrip:
  assumes "\<And>t. tc_format tc t \<noteq> '''' \<and> tc_parse tc (tc_format tc t) = Some t"
    and "int64_range (int (length (trim_space (ltm_User r) @ NL @ trim_space (ltm_Assistant r))))"
  shows "chunk_memory tc (ltm_SessionID r) (resultToChunk (chunkToDoc (memory_chunk tc r))) = r"
proof -
  have "storable (memory_chunk tc r)" using assms(2) by (simp add: storable_def memory_chunk_def Let_def int64_range_def)
  then have "resultToChunk (chunkToDoc (memory_chunk tc r)) = memory_chunk tc r" by (rule result_of_doc)
  then show ?thesis
    using assms(1) by (cases "ltm_ExpiresAt r")
      (simp_all add: chunk_memory_def memory_chunk_def Let_def lookup0_def read_time_def formatLongTermMemoryTimestamp_def)
qed

definition demo_codec :: time_codec where
  "demo_codec = \<lparr>tc_format = (\<lambda>t. case t of None \<Rightarrow> ''-'' | Some i \<Rightarrow> CHR ''t'' # (if i < 0 then ''-'' else ''+'') @ nat_str (nat \<bar>i\<bar>)),
     tc_parse = (\<lambda>s. if s = ''-'' then Some None else case s of
         c # g # ds \<Rightarrow> map_option (\<lambda>n. Some (if g = CHR ''-'' then - int n else int n)) (unsigned_val ds) | _ \<Rightarrow> None)\<rparr>"

theorem memory_chunk_roundtrip_witness:
  "chunk_memory demo_codec ''s'' (resultToChunk (chunkToDoc (memory_chunk demo_codec (demo_memory ''m1'' ''u1''))))
     = demo_memory ''m1'' ''u1''"
proof -
  have "tc_format demo_codec t \<noteq> '''' \<and> tc_parse demo_codec (tc_format demo_codec t) = Some t" for t
    by (auto simp: demo_codec_def split: option.split)
  moreover have "length (trim_space ''hi'' @ NL @ trim_space ''yo'') = 5" by code_simp
  then have "int64_range (int (length (trim_space ''hi'' @ NL @ trim_space ''yo'')))" by (simp only:) (simp add: int64_range_def)
  ultimately show ?thesis
    using memory_chunk_roundtrip [of demo_codec "demo_memory ''m1'' ''u1''"] by (simp add: demo_memory_def)
qed

end
