(* ===== verification/Trace.thy ===== *)
theory Trace
  imports Resilience
begin

section \<open>Traces: the record of an execution, its store and its web citations\<close>

text \<open>
  \<^verbatim>\<open>trace.go\<close>, \<^verbatim>\<open>trace_summary.go\<close>, \<^verbatim>\<open>trace_store.go\<close>, \<^verbatim>\<open>trace_recorder.go\<close> (the fan-out) and
  \<^verbatim>\<open>web_citations.go\<close>. Every \<^verbatim>\<open>time.Now\<close> is an argument; the zero time is \<open>None\<close>. The hash of a
  web citation is a parameter.
\<close>

subsection \<open>The execution trace\<close>

datatype refusal_reason = RefusalNone | RefusalNoEvidence | RefusalLowSimilarity | RefusalCitationConflict | RefusalToolFailure

record tool_trace =
  tt_Name :: string
  tt_StartedAt :: gotime
  tt_FinishedAt :: "gotime option"
  tt_Duration :: duration
  tt_Err :: "go_error option"

record memory_trace =
  mt_Operation :: string
  mt_StartedAt :: gotime
  mt_FinishedAt :: gotime
  mt_Duration :: duration
  mt_Success :: bool
  mt_Err :: "go_error option"

record execution_trace =
  et_SessionID :: string
  et_Query :: string
  et_RewrittenQuery :: string
  et_Filter :: search_filter
  et_StartedAt :: gotime
  et_FinishedAt :: "gotime option"
  et_Duration :: duration
  et_Stream :: bool
  et_Success :: bool
  et_Err :: "go_error option"
  et_Retrieval :: retrieval_metrics
  et_Model :: model_metrics
  et_ToolCalls :: "tool_trace list"
  et_ProviderCalls :: "provider_call_trace list"
  et_Memory :: "memory_trace list"
  et_TotalEstimatedCostUSD :: real
  et_PromptCacheHit :: bool
  et_Fallbacks :: "fallback_event list"
  et_Citations :: "citation list"
  et_Refused :: bool
  et_RefusalReason :: refusal_reason

text \<open>\<open>tb_toolIndex\<close> holds, per name, the positions of the calls not yet ended, the latest last.\<close>

record trace_builder =
  tb_trace :: execution_trace
  tb_toolIndex :: "string \<Rightarrow> nat list"

definition zero_retrieval :: retrieval_metrics where
  "zero_retrieval = \<lparr>rm_HybridEnabled = False, rm_RerankEnabled = False, rm_RawCandidateCount = 0, rm_VectorCandidateCount = 0,
     rm_LexicalCandidateCount = 0, rm_FusedCandidateCount = 0, rm_RerankShortlistCount = 0, rm_FinalHitCount = 0\<rparr>"

definition newExecutionTraceBuilder :: "gotime \<Rightarrow> string \<Rightarrow> string \<Rightarrow> string \<Rightarrow> search_filter \<Rightarrow> bool \<Rightarrow> trace_builder" where
  "newExecutionTraceBuilder now sessionID query rewrittenQuery f stream = \<lparr>tb_trace =
     \<lparr>et_SessionID = sessionID, et_Query = query, et_RewrittenQuery = rewrittenQuery, et_Filter = f, et_StartedAt = now,
      et_FinishedAt = None, et_Duration = 0, et_Stream = stream, et_Success = False, et_Err = None, et_Retrieval = zero_retrieval,
      et_Model = \<lparr>mm_Model = '''', mm_Stream = False, mm_OutputChars = 0\<rparr>, et_ToolCalls = [], et_ProviderCalls = [],
      et_Memory = [], et_TotalEstimatedCostUSD = 0, et_PromptCacheHit = False, et_Fallbacks = [], et_Citations = [],
      et_Refused = False, et_RefusalReason = RefusalNone\<rparr>, tb_toolIndex = (\<lambda>_. [])\<rparr>"

definition upd_trace :: "(execution_trace \<Rightarrow> execution_trace) \<Rightarrow> trace_builder \<Rightarrow> trace_builder" where
  "upd_trace f b = b\<lparr>tb_trace := f (tb_trace b)\<rparr>"

definition startTool :: "gotime \<Rightarrow> string \<Rightarrow> trace_builder \<Rightarrow> trace_builder" where
  "startTool now name b = (let calls = et_ToolCalls (tb_trace b) in
     (upd_trace (\<lambda>t. t\<lparr>et_ToolCalls := calls @ [\<lparr>tt_Name = name, tt_StartedAt = now, tt_FinishedAt = None, tt_Duration = 0, tt_Err = None\<rparr>]\<rparr>) b)
       \<lparr>tb_toolIndex := (tb_toolIndex b)(name := tb_toolIndex b name @ [length calls])\<rparr>)"

definition endTool :: "gotime \<Rightarrow> string \<Rightarrow> go_error option \<Rightarrow> trace_builder \<Rightarrow> trace_builder" where
  "endTool now name err b = (let stack = tb_toolIndex b name; calls = et_ToolCalls (tb_trace b) in
     if stack = [] then upd_trace (\<lambda>t. t\<lparr>et_ToolCalls := calls @ [\<lparr>tt_Name = name, tt_StartedAt = now, tt_FinishedAt = Some now, tt_Duration = 0, tt_Err = err\<rparr>]\<rparr>) b
     else let idx = last stack; c = calls ! idx in
       (upd_trace (\<lambda>t. t\<lparr>et_ToolCalls := calls[idx := c\<lparr>tt_FinishedAt := Some now, tt_Duration := now - tt_StartedAt c, tt_Err := err\<rparr>]\<rparr>) b)
         \<lparr>tb_toolIndex := (tb_toolIndex b)(name := butlast stack)\<rparr>)"

definition setRetrieval :: "retrieval_metrics \<Rightarrow> fallback_event list \<Rightarrow> trace_builder \<Rightarrow> trace_builder" where
  "setRetrieval m fbs = upd_trace (\<lambda>t. t\<lparr>et_Retrieval := m, et_Fallbacks := fbs\<rparr>)"

definition setModel :: "model_metrics \<Rightarrow> trace_builder \<Rightarrow> trace_builder" where
  "setModel m = upd_trace (\<lambda>t. t\<lparr>et_Model := m\<rparr>)"

definition setCitations :: "citation list \<Rightarrow> trace_builder \<Rightarrow> trace_builder" where
  "setCitations cs = upd_trace (\<lambda>t. t\<lparr>et_Citations := cs\<rparr>)"

definition addProviderCall :: "provider_call_trace \<Rightarrow> trace_builder \<Rightarrow> trace_builder" where
  "addProviderCall c = upd_trace (\<lambda>t. t\<lparr>et_ProviderCalls := et_ProviderCalls t @ [c],
     et_TotalEstimatedCostUSD := et_TotalEstimatedCostUSD t + pt_EstimatedCostUSD c\<rparr>)"

definition addMemory :: "string \<Rightarrow> gotime \<Rightarrow> gotime \<Rightarrow> go_error option \<Rightarrow> trace_builder \<Rightarrow> trace_builder" where
  "addMemory operation startedAt finishedAt err = upd_trace (\<lambda>t. t\<lparr>et_Memory := et_Memory t @
     [\<lparr>mt_Operation = operation, mt_StartedAt = startedAt, mt_FinishedAt = finishedAt, mt_Duration = finishedAt - startedAt,
       mt_Success = (err = None), mt_Err = err\<rparr>]\<rparr>)"

definition classifyEvidenceRefusal :: "retrieval_metrics \<Rightarrow> refusal_reason" where
  "classifyEvidenceRefusal m = (if rm_RawCandidateCount m > 0 then RefusalLowSimilarity else RefusalNoEvidence)"

definition setRefusal :: "refusal_reason \<Rightarrow> trace_builder \<Rightarrow> trace_builder" where
  "setRefusal r b = (if r = RefusalNone then b else upd_trace (\<lambda>t. t\<lparr>et_Refused := True, et_RefusalReason := r\<rparr>) b)"

definition setPromptCacheHit :: "bool \<Rightarrow> trace_builder \<Rightarrow> trace_builder" where
  "setPromptCacheHit hit = upd_trace (\<lambda>t. t\<lparr>et_PromptCacheHit := et_PromptCacheHit t \<or> hit\<rparr>)"

definition finish_trace :: "gotime \<Rightarrow> go_error option \<Rightarrow> trace_builder \<Rightarrow> trace_builder" where
  "finish_trace now err = upd_trace (\<lambda>t. t\<lparr>et_FinishedAt := Some now, et_Duration := now - et_StartedAt t,
     et_Success := (err = None), et_Err := err\<rparr>)"

subsection \<open>Web citations\<close>

record web_collector =
  wc_results :: "web_result list"
  wc_emitted :: nat

definition collectWebSearchResults :: "web_result list \<Rightarrow> web_collector \<Rightarrow> web_collector" where
  "collectWebSearchResults rs c = (if rs = [] then c else c\<lparr>wc_results := wc_results c @ rs\<rparr>)"

text \<open>\<open>hash\<close> is the hexadecimal text of the first eight bytes of the SHA-256.\<close>

definition webCitationChunkID :: "(string \<Rightarrow> string) \<Rightarrow> web_result \<Rightarrow> nat \<Rightarrow> string" where
  "webCitationChunkID hash r index = ''search_web:'' @ itoa (int index) @ '':'' @ hash (trim_space (wr_URL r) @ NL @ trim_space (wr_Title r))"

fun web_citations_from :: "(string \<Rightarrow> string) \<Rightarrow> nat \<Rightarrow> web_result list \<Rightarrow> citation list" where
  "web_citations_from hash i [] = []"
| "web_citations_from hash i (r # rs) =
     (let source = (if blank (wr_URL r) then trim_space (wr_Title r) else trim_space (wr_URL r)) in
      (if source = '''' then [] else [\<lparr>cit_SourcePath = source, cit_Title = trim_space (wr_Title r),
         cit_ChunkID = webCitationChunkID hash r i, cit_StartRune = 0, cit_EndRune = 0\<rparr>])
      @ web_citations_from hash (Suc i) rs)"

definition citationsFromWebResults :: "(string \<Rightarrow> string) \<Rightarrow> web_result list \<Rightarrow> citation list" where
  "citationsFromWebResults hash rs = web_citations_from hash 0 rs"

definition snapshotCitations :: "(string \<Rightarrow> string) \<Rightarrow> web_collector \<Rightarrow> citation list" where
  "snapshotCitations hash c = citationsFromWebResults hash (wc_results c)"

definition drainNewCitations :: "(string \<Rightarrow> string) \<Rightarrow> web_collector \<Rightarrow> citation list \<times> web_collector" where
  "drainNewCitations hash c = (if wc_emitted c \<ge> length (wc_results c) then ([], c)
     else (citationsFromWebResults hash (drop (wc_emitted c) (wc_results c)), c\<lparr>wc_emitted := length (wc_results c)\<rparr>))"

text \<open>The web search tool; the collector comes with the context of the question.\<close>

definition web_search_Run ::
  "(string \<Rightarrow> 'w \<Rightarrow> (web_result list \<times> go_error option) \<times> 'w) option \<Rightarrow> string
   \<Rightarrow> web_collector \<times> 'w \<Rightarrow> (string \<times> go_error option) \<times> web_collector \<times> 'w" where
  "web_search_Run searcher input s = (case s of (c, w) \<Rightarrow> (case searcher of
     None \<Rightarrow> (('''', Some (errorf ''web searcher is required'' [])), c, w)
   | Some search \<Rightarrow>
      (if blank input then (('''', Some (errorf ''query is required'' [])), c, w)
       else (case search (trim_space input) w of
          ((rs, Some e), w) \<Rightarrow> (('''', Some (wrap_err ''search web'' e)), c, w)
        | ((rs, None), w) \<Rightarrow> ((join_with (NL @ NL) (map (\<lambda>r. wr_Title r @ NL @ ''URL: '' @ wr_URL r @ NL
             @ ''Snippet: '' @ trim_space (wr_Content r)) rs), None), collectWebSearchResults rs c, w)))))"

subsection \<open>Summaries and the trace store\<close>

datatype trace_status = TraceStatusSuccess | TraceStatusFailure | TraceStatusRefused

definition deriveTraceStatus :: "execution_trace \<Rightarrow> trace_status" where
  "deriveTraceStatus t = (if et_Refused t then TraceStatusRefused
     else if \<not> et_Success t then TraceStatusFailure else TraceStatusSuccess)"

definition err_string :: "go_error option \<Rightarrow> string" where
  "err_string e = (case e of None \<Rightarrow> '''' | Some e \<Rightarrow> err_text e)"

record trace_summary =
  ts_SessionID :: string
  ts_Query :: string
  ts_Stream :: bool
  ts_Success :: bool
  ts_Duration :: duration
  ts_RetrievalHitCount :: nat
  ts_ToolCallCount :: nat
  ts_ProviderCallCount :: nat
  ts_MemoryEventCount :: nat
  ts_CitationCount :: nat
  ts_FallbackCount :: nat
  ts_PromptCacheHit :: bool
  ts_TotalEstimatedCostUSD :: real
  ts_Refused :: bool
  ts_RefusalReason :: refusal_reason
  ts_Err :: string

definition summarizeExecutionTrace :: "execution_trace \<Rightarrow> trace_summary" where
  "summarizeExecutionTrace t =
     \<lparr>ts_SessionID = et_SessionID t, ts_Query = et_Query t, ts_Stream = et_Stream t, ts_Success = et_Success t,
      ts_Duration = et_Duration t, ts_RetrievalHitCount = rm_FinalHitCount (et_Retrieval t),
      ts_ToolCallCount = length (et_ToolCalls t), ts_ProviderCallCount = length (et_ProviderCalls t),
      ts_MemoryEventCount = length (et_Memory t), ts_CitationCount = length (et_Citations t),
      ts_FallbackCount = length (et_Fallbacks t), ts_PromptCacheHit = et_PromptCacheHit t,
      ts_TotalEstimatedCostUSD = et_TotalEstimatedCostUSD t, ts_Refused = et_Refused t,
      ts_RefusalReason = et_RefusalReason t, ts_Err = err_string (et_Err t)\<rparr>"

record stored_trace =
  st_SessionID :: string
  st_QuerySummary :: string
  st_Status :: trace_status
  st_Stream :: bool
  st_Refused :: bool
  st_RefusalReason :: refusal_reason
  st_StartedAt :: gotime
  st_FinishedAt :: "gotime option"
  st_Latency :: duration
  st_ToolNames :: "string list"
  st_ProviderCallCount :: nat
  st_InputTokens :: int
  st_OutputTokens :: int
  st_TotalTokens :: int
  st_TotalEstimatedCostUSD :: real
  st_CitationSources :: "string list"
  st_Err :: string

text \<open>The ellipsis the source appends is no Latin-1 character; it is a parameter.\<close>

definition summarizeQuery :: "string \<Rightarrow> string \<Rightarrow> nat \<Rightarrow> string" where
  "summarizeQuery ellipsis query maxRunes = (if length query \<le> maxRunes then query else take maxRunes query @ ellipsis)"

definition newStoredTrace :: "string \<Rightarrow> execution_trace \<Rightarrow> stored_trace" where
  "newStoredTrace ellipsis t =
     \<lparr>st_SessionID = et_SessionID t, st_QuerySummary = summarizeQuery ellipsis (et_Query t) 120, st_Status = deriveTraceStatus t,
      st_Stream = et_Stream t, st_Refused = et_Refused t, st_RefusalReason = et_RefusalReason t, st_StartedAt = et_StartedAt t,
      st_FinishedAt = et_FinishedAt t, st_Latency = et_Duration t, st_ToolNames = map tt_Name (et_ToolCalls t),
      st_ProviderCallCount = length (et_ProviderCalls t), st_InputTokens = sum_list (map pt_InputTokens (et_ProviderCalls t)),
      st_OutputTokens = sum_list (map pt_OutputTokens (et_ProviderCalls t)),
      st_TotalTokens = sum_list (map pt_TotalTokens (et_ProviderCalls t)),
      st_TotalEstimatedCostUSD = et_TotalEstimatedCostUSD t, st_CitationSources = map cit_SourcePath (et_Citations t),
      st_Err = err_string (et_Err t)\<rparr>"

record trace_query =
  tq_SessionID :: string
  tq_Status :: "trace_status option"
  tq_Since :: "gotime option"
  tq_Until :: "gotime option"
  tq_Limit :: int

definition tq_validate :: "trace_query \<Rightarrow> go_error option" where
  "tq_validate q = (if tq_Limit q < 0 then Some (errorf (''trace query: limit '' @ itoa (tq_Limit q) @ '' must not be negative'') [])
     else case (tq_Since q, tq_Until q) of
       (Some s, Some u) \<Rightarrow> if u < s then Some (errorf ''trace query: until is before since'' []) else None
     | _ \<Rightarrow> None)"

definition tq_matches :: "trace_query \<Rightarrow> stored_trace \<Rightarrow> bool" where
  "tq_matches q r \<longleftrightarrow> (tq_SessionID q = '''' \<or> st_SessionID r = tq_SessionID q)
     \<and> (case tq_Status q of None \<Rightarrow> True | Some s \<Rightarrow> st_Status r = s)
     \<and> (case tq_Since q of None \<Rightarrow> True | Some s \<Rightarrow> s \<le> st_StartedAt r)
     \<and> (case tq_Until q of None \<Rightarrow> True | Some u \<Rightarrow> st_StartedAt r \<le> u)"

record trace_store =
  tst_capacity :: int
  tst_records :: "stored_trace list"

definition newInMemoryTraceStore :: "int \<Rightarrow> trace_store" where
  "newInMemoryTraceStore capacity = \<lparr>tst_capacity = (if capacity \<le> 0 then 1024 else capacity), tst_records = []\<rparr>"

definition tst_OnExecutionTrace :: "string \<Rightarrow> execution_trace \<Rightarrow> trace_store \<Rightarrow> trace_store" where
  "tst_OnExecutionTrace ellipsis t s = (let records = tst_records s @ [newStoredTrace ellipsis t] in
     if int (length records) > tst_capacity s
     then s\<lparr>tst_records := drop (nat (int (length records) - tst_capacity s)) records\<rparr>
     else s\<lparr>tst_records := records\<rparr>)"

text \<open>The loop over the records, newest first, with the results so far.\<close>

fun query_loop :: "trace_query \<Rightarrow> stored_trace list \<Rightarrow> stored_trace list \<Rightarrow> stored_trace list" where
  "query_loop q [] out = out"
| "query_loop q (r # rs) out =
     (if \<not> tq_matches q r then query_loop q rs out
      else let out = out @ [r] in
        if tq_Limit q > 0 \<and> int (length out) = tq_Limit q then out else query_loop q rs out)"

definition tst_Query :: "trace_query \<Rightarrow> trace_store \<Rightarrow> stored_trace list result" where
  "tst_Query q s = (case tq_validate q of Some e \<Rightarrow> Inl e | None \<Rightarrow> Inr (query_loop q (rev (tst_records s)) []))"

definition tst_Len :: "trace_store \<Rightarrow> nat" where
  "tst_Len s = length (tst_records s)"

text \<open>\<^verbatim>\<open>multiTraceRecorder\<close>: the outcome of a recorder that panics is dropped, its effect is not.\<close>

definition multi_record :: "(execution_trace \<Rightarrow> 'w \<Rightarrow> unit outcome \<times> 'w) option list \<Rightarrow> execution_trace \<Rightarrow> 'w \<Rightarrow> 'w" where
  "multi_record recorders t w = fold (\<lambda>r w. snd (r t w)) (List.map_filter id recorders) w"

subsection \<open>Well-formed builders\<close>

text \<open>The calls not yet ended are exactly those the index lists, under their own names, in order.\<close>

definition tb_ok :: "trace_builder \<Rightarrow> bool" where
  "tb_ok b \<longleftrightarrow> (\<forall>n. sorted_wrt (<) (tb_toolIndex b n))
     \<and> (\<forall>n i. i \<in> set (tb_toolIndex b n) \<longleftrightarrow> i < length (et_ToolCalls (tb_trace b))
          \<and> tt_Name (et_ToolCalls (tb_trace b) ! i) = n \<and> tt_FinishedAt (et_ToolCalls (tb_trace b) ! i) = None)"

lemma upd_trace_simps [simp]:
  "tb_trace (upd_trace f b) = f (tb_trace b)" "tb_toolIndex (upd_trace f b) = tb_toolIndex b"
  by (simp_all add: upd_trace_def)

lemma tb_ok_new: "tb_ok (newExecutionTraceBuilder now sid q rq f stream)"
  by (simp add: tb_ok_def newExecutionTraceBuilder_def)

lemma tb_ok_cong:
  "tb_toolIndex b' = tb_toolIndex b \<Longrightarrow> et_ToolCalls (tb_trace b') = et_ToolCalls (tb_trace b) \<Longrightarrow> tb_ok b \<Longrightarrow> tb_ok b'"
  by (simp add: tb_ok_def)

lemma tb_ok_startTool:
  assumes "tb_ok b"
  shows "tb_ok (startTool now name b)"
proof -
  let ?calls = "et_ToolCalls (tb_trace b)"
  have "\<And>i. i \<in> set (tb_toolIndex b name) \<Longrightarrow> i < length ?calls" using assms by (auto simp: tb_ok_def)
  then have "sorted_wrt (<) (tb_toolIndex b name @ [length ?calls])"
    using assms by (auto simp: tb_ok_def sorted_wrt_append)
  then show ?thesis using assms by (auto simp: tb_ok_def startTool_def Let_def nth_append)
qed

lemma strict_sorted_last:
  assumes "sorted_wrt (<) (xs :: nat list)" "xs \<noteq> []"
  shows "sorted_wrt (<) (butlast xs)" "set (butlast xs) = set xs - {last xs}"
proof -
  obtain ys y where xs: "xs = ys @ [y]" using assms(2) by (metis append_butlast_last_id)
  with assms(1) show "sorted_wrt (<) (butlast xs)" "set (butlast xs) = set xs - {last xs}"
    by (auto simp: sorted_wrt_append)
qed

lemma tb_ok_endTool:
  assumes "tb_ok b"
  shows "tb_ok (endTool now name err b)"
proof (cases "tb_toolIndex b name = []")
  case True
  then show ?thesis using assms by (auto simp: tb_ok_def endTool_def Let_def nth_append)
next
  case False
  let ?idx = "last (tb_toolIndex b name)"
  have idx: "?idx < length (et_ToolCalls (tb_trace b))" "tt_Name (et_ToolCalls (tb_trace b) ! ?idx) = name"
    using assms last_in_set [OF False] by (auto simp: tb_ok_def)
  have "sorted_wrt (<) (tb_toolIndex b name)" using assms by (simp add: tb_ok_def)
  note l = strict_sorted_last [OF this False]
  show ?thesis
    using assms l idx False unfolding tb_ok_def endTool_def Let_def by (auto simp: nth_list_update)
qed

datatype trace_op =
    OpStartTool gotime string | OpEndTool gotime string "go_error option" | OpSetRetrieval retrieval_metrics "fallback_event list"
  | OpSetModel model_metrics | OpSetCitations "citation list" | OpAddProviderCall provider_call_trace
  | OpAddMemory string gotime gotime "go_error option" | OpSetRefusal refusal_reason | OpSetPromptCacheHit bool
  | OpFinish gotime "go_error option"

fun trace_step :: "trace_op \<Rightarrow> trace_builder \<Rightarrow> trace_builder" where
  "trace_step (OpStartTool t n) b = startTool t n b"
| "trace_step (OpEndTool t n e) b = endTool t n e b"
| "trace_step (OpSetRetrieval m f) b = setRetrieval m f b"
| "trace_step (OpSetModel m) b = setModel m b"
| "trace_step (OpSetCitations cs) b = setCitations cs b"
| "trace_step (OpAddProviderCall c) b = addProviderCall c b"
| "trace_step (OpAddMemory op s f e) b = addMemory op s f e b"
| "trace_step (OpSetRefusal r) b = setRefusal r b"
| "trace_step (OpSetPromptCacheHit h) b = setPromptCacheHit h b"
| "trace_step (OpFinish t e) b = finish_trace t e b"

lemmas trace_setters = setRetrieval_def setModel_def setCitations_def addProviderCall_def addMemory_def setRefusal_def
  setPromptCacheHit_def finish_trace_def

lemma trace_step_ok: "tb_ok b \<Longrightarrow> tb_ok (trace_step op b)"
  by (cases op) (auto simp: tb_ok_startTool tb_ok_endTool trace_setters intro: tb_ok_cong [rotated 2])

lemma cost_step: "et_TotalEstimatedCostUSD (tb_trace b) = sum_list (map pt_EstimatedCostUSD (et_ProviderCalls (tb_trace b))) \<Longrightarrow>
    et_TotalEstimatedCostUSD (tb_trace (trace_step op b)) = sum_list (map pt_EstimatedCostUSD (et_ProviderCalls (tb_trace (trace_step op b))))"
  by (cases op) (auto simp: trace_setters startTool_def endTool_def Let_def)

lemma query_loop_take:
  "tq_Limit q \<le> 0 \<or> int (length out) < tq_Limit q \<Longrightarrow>
     query_loop q rs out = out @ (if tq_Limit q > 0 then take (nat (tq_Limit q) - length out) else id) (filter (tq_matches q) rs)"
proof (induction q rs out rule: query_loop.induct)
  case (2 q r rs out)
  show ?case
  proof (cases "tq_matches q r")
    case True
    show ?thesis
    proof (cases "tq_Limit q > 0 \<and> int (length (out @ [r])) = tq_Limit q")
      case full: True
      then have "nat (tq_Limit q) - length out = 1" by auto
      with full True show ?thesis by simp
    next
      case False
      with "2.prems" have "tq_Limit q \<le> 0 \<or> int (length (out @ [r])) < tq_Limit q" by auto
      moreover from this have "tq_Limit q > 0 \<Longrightarrow> nat (tq_Limit q) - length out = Suc (nat (tq_Limit q) - length (out @ [r]))" by auto
      ultimately show ?thesis using "2.IH"(2) [OF _ refl] True False by auto
    qed
  qed (use "2.IH"(1) "2.prems" in auto)
qed simp

lemma store_keeps_latest:
  assumes "0 < tst_capacity s" "tst_records s = drop (length all - nat (tst_capacity s)) all"
  shows "tst_records (fold (tst_OnExecutionTrace e) ts s)
    = drop (length all + length ts - nat (tst_capacity s)) (all @ map (newStoredTrace e) ts)"
  using assms
proof (induction ts arbitrary: s all)
  case (Cons t ts)
  let ?s = "tst_OnExecutionTrace e t s"
  have "tst_capacity ?s = tst_capacity s" by (simp add: tst_OnExecutionTrace_def Let_def)
  moreover have "tst_records ?s = drop (length (all @ [newStoredTrace e t]) - nat (tst_capacity s)) (all @ [newStoredTrace e t])"
    using Cons.prems by (cases "nat (tst_capacity s) \<le> length all") (auto simp: tst_OnExecutionTrace_def Let_def Suc_diff_le)
  ultimately show ?case using Cons.IH [of ?s "all @ [newStoredTrace e t]"] Cons.prems by simp
qed simp

subsection \<open>Properties\<close>

text \<open>C24: A trace stays well formed, whatever the execution reports to it and in whatever order: the open
  calls are exactly those that were started and not ended, each under its name, ending a call
  never looks outside the list, and the total cost is the sum over the provider calls.\<close>

theorem traces_are_well_formed:
  "tb_ok (fold trace_step ops (newExecutionTraceBuilder now sid q rq f stream))
   \<and> (let t = tb_trace (fold trace_step ops (newExecutionTraceBuilder now sid q rq f stream))
      in et_TotalEstimatedCostUSD t = sum_list (map pt_EstimatedCostUSD (et_ProviderCalls t)))"
proof -
  let ?cost = "\<lambda>b. et_TotalEstimatedCostUSD (tb_trace b) = sum_list (map pt_EstimatedCostUSD (et_ProviderCalls (tb_trace b)))"
  have "tb_ok b \<Longrightarrow> ?cost b \<Longrightarrow> tb_ok (fold trace_step ops b) \<and> ?cost (fold trace_step ops b)" for b
    by (induction ops arbitrary: b) (simp_all add: trace_step_ok cost_step)
  from this [OF tb_ok_new] show ?thesis by (simp add: newExecutionTraceBuilder_def Let_def)
qed

text \<open>C25: A query of the trace store returns, newest first, the matching ones among the last
  \<open>capacity\<close> traces recorded, and with a limit the newest of them.\<close>

theorem trace_query_returns_latest:
  assumes "tst_Query q (fold (tst_OnExecutionTrace ellipsis) ts (newInMemoryTraceStore capacity)) = Inr rs"
  defines "n \<equiv> nat (if capacity \<le> 0 then 1024 else capacity)"
  shows "rs = (if tq_Limit q > 0 then take (nat (tq_Limit q)) else id)
    (filter (tq_matches q) (take n (rev (map (newStoredTrace ellipsis) ts))))"
proof -
  let ?s = "newInMemoryTraceStore capacity"
  have s: "0 < tst_capacity ?s" "nat (tst_capacity ?s) = n" "tst_records ?s = []"
    by (auto simp: newInMemoryTraceStore_def n_def)
  have "0 \<le> tq_Limit q" "rs = query_loop q (rev (tst_records (fold (tst_OnExecutionTrace ellipsis) ts ?s))) []"
    using assms(1) by (auto simp: tst_Query_def tq_validate_def split: option.split_asm if_split_asm)
  moreover have "tst_records (fold (tst_OnExecutionTrace ellipsis) ts ?s) = drop (length ts - n) (map (newStoredTrace ellipsis) ts)"
    using store_keeps_latest [OF s(1), of "[]" ellipsis ts] s(2,3) by simp
  moreover have "rev (drop (length ts - n) (map (newStoredTrace ellipsis) ts)) = take n (rev (map (newStoredTrace ellipsis) ts))"
    by (cases "n \<le> length ts") (simp_all add: rev_drop)
  ultimately show ?thesis using query_loop_take [of q "[]"] by (cases "tq_Limit q = 0") (auto simp: less_le)
qed

definition demo_trace :: "string \<Rightarrow> execution_trace" where
  "demo_trace query = tb_trace (newExecutionTraceBuilder 0 ''s'' query query empty_filter False)"

definition demo_query :: trace_query where
  "demo_query = \<lparr>tq_SessionID = ''s'', tq_Status = Some TraceStatusFailure, tq_Since = None, tq_Until = None, tq_Limit = 1\<rparr>"

theorem trace_query_returns_latest_witness:
  "tst_Query demo_query (fold (tst_OnExecutionTrace '''') [demo_trace ''a'', demo_trace ''b''] (newInMemoryTraceStore 2))
     = Inr [newStoredTrace '''' (demo_trace ''b'')]"
proof -
  obtain rs where rs: "tst_Query demo_query (fold (tst_OnExecutionTrace '''') [demo_trace ''a'', demo_trace ''b''] (newInMemoryTraceStore 2)) = Inr rs"
    by (simp add: tst_Query_def tq_validate_def demo_query_def)
  have "tq_matches demo_query (newStoredTrace '''' (demo_trace q))" for q
    by (simp add: tq_matches_def demo_query_def newStoredTrace_def demo_trace_def newExecutionTraceBuilder_def deriveTraceStatus_def)
  with trace_query_returns_latest [OF rs] rs show ?thesis by (simp add: demo_query_def)
qed

end
