(* ===== verification/Ask.thy ===== *)
theory Ask
  imports Prompt Memory Trace Retriever Session Rag
begin

section \<open>Ask: the question answering pipeline of the agent\<close>

text \<open>
  \<^verbatim>\<open>askWithFormatLocked\<close>, \<^verbatim>\<open>askStreamLocked\<close> and their helpers in \<^verbatim>\<open>agent.go\<close>, with \<^verbatim>\<open>loadHistory\<close> and
  \<^verbatim>\<open>commitHistory\<close> of \<^verbatim>\<open>session.go\<close>. The state of one execution is the trace, the tool budget, the
  web results collected and the world; the world holds everything outside (stores, providers,
  callbacks, clock). A callback that panics is an effect that returns the error
  \<^verbatim>\<open>runTelemetryCallback\<close> makes of it. The calls that the resilient providers report to the trace
  from within the retriever, the embedder or the model are not modelled here.
\<close>

subsection \<open>State and environment\<close>

record 'w ask_state =
  ak_trace :: trace_builder
  ak_used :: int
  ak_collector :: web_collector
  ak_answer :: string
  ak_emitterErr :: "go_error option"
  ak_doneStep :: nat
  ak_world :: 'w

datatype telemetry =
    OnRetrieveStart string | OnRetrieveEnd nat "go_error option" | OnToolStart string | OnToolEnd string "go_error option"
  | OnModelStart string | OnModelEnd string "go_error option" | OnRetrieveMetrics retrieval_metrics
  | OnModelMetrics model_metrics | OnFallback fallback_event | OnExecutionTrace execution_trace
  | LogFallback fallback_event | LogComplete execution_trace

record 'w agent_env =
  ae_now :: "'w \<Rightarrow> gotime"
  ae_ctx_err :: "'w \<Rightarrow> go_error option"
  ae_budget_exceeded :: "'w \<Rightarrow> bool"
  ae_callback :: "telemetry \<Rightarrow> 'w effect"
  ae_has_callbacks :: bool
  ae_has_recorder :: bool
  ae_has_logger :: bool
  ae_hash :: "string \<Rightarrow> string"
  ae_MaxToolCalls :: int
  ae_boundary :: access_boundary
  ae_SearchDetailed :: "string \<Rightarrow> search_filter \<Rightarrow> 'w \<Rightarrow> detailed \<times> 'w"
  ae_EnableWebSearch :: bool
  ae_registry_names :: "string list"
  ae_history_store :: "'w history_store option"
  ae_history_load :: "string \<Rightarrow> 'w \<Rightarrow> turn list result \<times> 'w"
  ae_local_turns :: "'w \<Rightarrow> turn list"
  ae_take_clear :: "'w \<Rightarrow> bool \<times> 'w"
  ae_MaxHistoryRounds :: int
  ae_HistoryFailOpen :: bool
  ae_provider :: "'w memory_provider option"
  ae_ProviderFailOpen :: bool
  ae_ltm :: "'w memory_ops option"
  ae_memory_config :: memory_config
  ae_limits :: prompt_limits
  ae_ReasoningEffort :: string
  ae_PromptCache :: "'w graph_cache option"
  ae_model_name :: string
  ae_Ask :: "'w ask_state request \<Rightarrow> (string, 'w ask_state) action"
  ae_AskStream :: "'w ask_state request \<Rightarrow> (graph_event \<Rightarrow> 'w ask_state effect) \<Rightarrow> 'w ask_state effect"

definition on_world :: "('w \<Rightarrow> 'x \<times> 'w) \<Rightarrow> 'w ask_state \<Rightarrow> 'x \<times> 'w ask_state" where
  "on_world f st = (case f (ak_world st) of (x, w) \<Rightarrow> (x, st\<lparr>ak_world := w\<rparr>))"

definition traced :: "(trace_builder \<Rightarrow> trace_builder) \<Rightarrow> 'w ask_state \<Rightarrow> 'w ask_state" where
  "traced f st = st\<lparr>ak_trace := f (ak_trace st)\<rparr>"

definition traced_now :: "'w agent_env \<Rightarrow> (gotime \<Rightarrow> trace_builder \<Rightarrow> trace_builder) \<Rightarrow> 'w ask_state \<Rightarrow> 'w ask_state" where
  "traced_now env f st = traced (f (ae_now env (ak_world st))) st"

abbreviation retrieveToolName :: string where "retrieveToolName \<equiv> ''retrieve_context''"

subsection \<open>Budget, callbacks and observers\<close>

definition newToolCallBudget :: "int \<Rightarrow> int" where
  "newToolCallBudget limit = (if limit \<le> 0 then 4 else limit)"

definition acquire_tool :: "'w agent_env \<Rightarrow> string \<Rightarrow> 'w ask_state effect" where
  "acquire_tool env tool st = (let limit = newToolCallBudget (ae_MaxToolCalls env) in
     if ak_used st \<ge> limit
     then (Some (errorf (''ragagent: tool call limit exceeded: tool='' @ tool @ '' limit='' @ itoa limit)
             [sentinel_error ''ragagent: tool call limit exceeded'' ErrToolCallLimitExceeded]), st)
     else (None, st\<lparr>ak_used := ak_used st + 1\<rparr>))"

definition callback :: "'w agent_env \<Rightarrow> telemetry \<Rightarrow> 'w ask_state effect" where
  "callback env ev = on_world (ae_callback env ev)"

definition emitMetrics :: "'w agent_env \<Rightarrow> telemetry \<Rightarrow> 'w ask_state effect" where
  "emitMetrics env ev st = (if ae_has_callbacks env then callback env ev st else (None, st))"

fun callbacks_in_order :: "'w agent_env \<Rightarrow> telemetry list \<Rightarrow> 'w ask_state effect" where
  "callbacks_in_order env [] = no_effect"
| "callbacks_in_order env (ev # evs) = effThen (callback env ev) (callbacks_in_order env evs)"

definition recordExecutionTrace :: "'w agent_env \<Rightarrow> execution_trace \<Rightarrow> 'w ask_state effect" where
  "recordExecutionTrace env t = callbacks_in_order env
     ((if ae_has_recorder env then [OnExecutionTrace t] else [])
      @ (if ae_has_logger env then map LogFallback (et_Fallbacks t) @ [LogComplete t] else []))"

text \<open>Stream events; \<open>emit\<close> is the caller's function, or nothing for a synchronous question.\<close>

datatype stream_event =
    EventRetrieveStart string | EventRetrieveEnd "go_error option" | EventToolStart string
  | EventToolEnd string "go_error option" | EventAnswerChunk string nat | EventCitation citation
  | EventError go_error execution_trace | EventDone nat execution_trace

type_synonym 'w emitter = "(stream_event \<Rightarrow> 'w effect) option"

definition emit_to :: "'w emitter \<Rightarrow> stream_event \<Rightarrow> 'w ask_state effect" where
  "emit_to emit ev st = (case emit of None \<Rightarrow> (None, st) | Some f \<Rightarrow> on_world (f ev) st)"

fun emit_all :: "'w emitter \<Rightarrow> stream_event list \<Rightarrow> 'w ask_state effect" where
  "emit_all emit [] = no_effect"
| "emit_all emit (ev # evs) = effThen (emit_to emit ev) (emit_all emit evs)"

definition observer_start :: "'w agent_env \<Rightarrow> 'w emitter \<Rightarrow> string \<Rightarrow> 'w ask_state effect" where
  "observer_start env emit tool =
     effThen (silently (traced_now env (\<lambda>t. startTool t tool)))
     (effThen (if tool \<noteq> retrieveToolName then emit_to emit (EventToolStart tool) else no_effect)
       (callback env (OnToolStart tool)))"

definition drain_citations :: "'w agent_env \<Rightarrow> 'w emitter \<Rightarrow> 'w ask_state effect" where
  "drain_citations env emit st = (case drainNewCitations (ae_hash env) (ak_collector st) of (cs, c) \<Rightarrow>
     emit_all emit (map EventCitation cs) (st\<lparr>ak_collector := c\<rparr>))"

definition observer_end :: "'w agent_env \<Rightarrow> 'w emitter \<Rightarrow> string \<Rightarrow> go_error option \<Rightarrow> 'w ask_state effect" where
  "observer_end env emit tool err =
     effThen (silently (traced_now env (\<lambda>t. endTool t tool err)))
     (effThen (if emit = None \<or> tool = retrieveToolName then no_effect
         else effThen (emit_to emit (EventToolEnd tool err))
           (if tool = ''search_web'' then drain_citations env emit else no_effect))
       (callback env (OnToolEnd tool err)))"

definition newGraphToolObserver :: "'w agent_env \<Rightarrow> 'w emitter \<Rightarrow> 'w ask_state tool_observer" where
  "newGraphToolObserver env emit = \<lparr>to_OnToolStart = observer_start env emit, to_OnToolEnd = observer_end env emit\<rparr>"

definition hasFallbackTools :: "'w agent_env \<Rightarrow> bool" where
  "hasFallbackTools env \<longleftrightarrow> ae_EnableWebSearch env \<or> list_ex (\<lambda>n. n \<noteq> retrieveToolName) (ae_registry_names env)"

definition normalizeExecutionBudgetError :: "'w agent_env \<Rightarrow> 'w ask_state \<Rightarrow> go_error \<Rightarrow> go_error" where
  "normalizeExecutionBudgetError env st e =
     (if err_is e CtxDeadlineExceeded \<and> ae_budget_exceeded env (ak_world st)
      then errorf (''ragagent: execution budget exceeded: '' @ err_text e)
             [sentinel_error ''ragagent: execution budget exceeded'' ErrExecutionBudgetExceeded, e]
      else e)"

definition normalized :: "'w agent_env \<Rightarrow> ('a, 'w ask_state) action \<Rightarrow> ('a, 'w ask_state) action" where
  "normalized env m st = (case m st of (Inl e, st) \<Rightarrow> (Inl (normalizeExecutionBudgetError env st e), st) | (Inr x, st) \<Rightarrow> (Inr x, st))"

subsection \<open>Retrieval\<close>

definition hit_to_chunk :: "search_hit \<Rightarrow> chunk" where
  "hit_to_chunk h = (let c = hit_Chunk h in \<lparr>ch_ChunkID = cr_ChunkID c, ch_ParentID = cr_ParentID c, ch_SourcePath = cr_SourcePath c,
     ch_Title = cr_Title c, ch_Metadata = cr_Metadata c, ch_Text = cr_Text c,
     ch_StartRune = nat (cr_StartRune c), ch_EndRune = nat (cr_EndRune c)\<rparr>)"

definition assemble_evidence :: "search_hit list \<Rightarrow> (search_hit list \<times> string) result" where
  "assemble_evidence hits = (case assembleContext (map hit_to_chunk hits) 4000 of
     Inl e \<Rightarrow> Inl (if err_is e ErrInvalidContextLimit
         then errors_join [sentinel_error ''ragagent: context assembly failed'' ErrContextAssembly, e]
         else if err_is e ErrNoContextAssembled
         then errors_join [sentinel_error ''ragagent: evidence insufficient'' ErrEvidenceInsufficient, e]
         else wrap_err ''assemble evidence context'' e)
   | Inr (kept, evidence) \<Rightarrow> Inr (filter (\<lambda>h. hit_id h \<in> set (map ch_ChunkID kept)) hits, evidence))"

definition first_err :: "go_error option \<Rightarrow> go_error option \<Rightarrow> go_error option" where
  "first_err runErr e = (case runErr of None \<Rightarrow> e | Some _ \<Rightarrow> runErr)"

text \<open>The deferred function of \<^verbatim>\<open>retrieve\<close>. What it makes of \<^verbatim>\<open>runErr\<close> reaches callbacks and trace,
  but not the caller.\<close>

fun run_all :: "'w agent_env \<Rightarrow> telemetry list \<Rightarrow> 'w ask_state \<Rightarrow> 'w ask_state" where
  "run_all env [] st = st"
| "run_all env (ev # evs) st = run_all env evs (snd (emitMetrics env ev st))"

definition end_retrieve ::
  "'w agent_env \<Rightarrow> retrieval_metrics \<Rightarrow> fallback_event list \<Rightarrow> nat \<Rightarrow> go_error option \<Rightarrow> 'w ask_state \<Rightarrow> 'w ask_state" where
  "end_retrieve env metrics fallbacks kept runErr st =
     (case callback env (OnRetrieveEnd kept runErr) st of (e, st) \<Rightarrow>
      let runErr = first_err runErr e in
      case callback env (OnToolEnd retrieveToolName runErr) st of (e, st) \<Rightarrow>
      let runErr = first_err runErr e;
          st = traced_now env (\<lambda>t. endTool t retrieveToolName runErr) st;
          metrics = metrics\<lparr>rm_FinalHitCount := kept\<rparr>;
          st = traced (setRetrieval metrics fallbacks) st
      in run_all env (OnRetrieveMetrics metrics # map OnFallback fallbacks) st)"

definition retrieve_body :: "'w agent_env \<Rightarrow> string \<Rightarrow> search_filter \<Rightarrow> (search_hit list \<times> string, 'w ask_state) action" where
  "retrieve_body env query f st =
     (case on_world (ae_SearchDetailed env query f) st of ((rootHits, metrics, fallbacks, runErr), st) \<Rightarrow>
      let outcome = (case runErr of Some e \<Rightarrow> Inl (wrap_err ''retrieve hits'' e) | None \<Rightarrow> assemble_evidence rootHits)
      in (outcome, case outcome of
            Inl e \<Rightarrow> end_retrieve env metrics fallbacks 0 (Some e) st
          | Inr (kept, _) \<Rightarrow> end_retrieve env metrics fallbacks (length kept) None st))"

definition retrieve :: "'w agent_env \<Rightarrow> string \<Rightarrow> search_filter \<Rightarrow> (search_hit list \<times> string, 'w ask_state) action" where
  "retrieve env query f =
     andThen (perform (acquire_tool env retrieveToolName)) (\<lambda>_.
     andThen (perform (callback env (OnRetrieveStart query))) (\<lambda>_.
     andThen (perform (callback env (OnToolStart retrieveToolName))) (\<lambda>_.
     andThen (change (traced_now env (\<lambda>t. startTool t retrieveToolName))) (\<lambda>_.
     retrieve_body env query f))))"

definition accessBoundaryFilter :: "'w agent_env \<Rightarrow> string \<Rightarrow> string \<Rightarrow> query_options \<Rightarrow> (search_filter, 'w ask_state) action" where
  "accessBoundaryFilter env sessionID query opts st =
     (map_sum (wrap_err ''apply access boundary'') id (applyToRetrieval (ae_boundary env)
        \<lparr>ar_SessionID = sessionID, ar_Query = query, ar_Filter = qo_Filter opts, ar_MemoryScope = qo_MemoryScope opts\<rparr>), st)"

subsection \<open>History and memory\<close>

text \<open>The memory trace of an operation that ran from the state \<open>st0\<close> to \<open>st\<close>.\<close>

definition note_memory :: "'w agent_env \<Rightarrow> string \<Rightarrow> 'w ask_state \<Rightarrow> go_error option \<Rightarrow> 'w ask_state \<Rightarrow> 'w ask_state" where
  "note_memory env operation st0 err st =
     traced (addMemory operation (ae_now env (ak_world st0)) (ae_now env (ak_world st)) err) st"

definition err_of :: "'a result \<Rightarrow> go_error option" where
  "err_of r = (case r of Inl e \<Rightarrow> Some e | Inr _ \<Rightarrow> None)"

definition last_rounds :: "int \<Rightarrow> turn list \<Rightarrow> turn list" where
  "last_rounds limit ts = (if limit > 0 \<and> int (length ts) > limit then drop (length ts - nat limit) ts else ts)"

definition loadHistory :: "'w agent_env \<Rightarrow> string \<Rightarrow> (turn list, 'w ask_state) action" where
  "loadHistory env sessionID st =
     (if ae_history_store env = None then (Inr (ae_local_turns env (ak_world st)), st)
      else (case on_world (ae_history_load env sessionID) st of (r, st1) \<Rightarrow>
        let st2 = note_memory env ''history_load'' st (err_of r) st1 in
        case r of
          Inl e \<Rightarrow> (if ae_HistoryFailOpen env then Inr [] else Inl (wrap_err ''load session history'' e), st2)
        | Inr stored \<Rightarrow> (Inr (last_rounds (ae_MaxHistoryRounds env) stored), st2)))"

definition commitHistory :: "'w agent_env \<Rightarrow> string \<Rightarrow> string \<Rightarrow> string \<Rightarrow> 'w ask_state effect" where
  "commitHistory env sessionID query answer st = (case ae_history_store env of None \<Rightarrow> (None, st) | Some store \<Rightarrow>
     (case on_world (ae_take_clear env) st of (clear, st1) \<Rightarrow>
      let operation = (if clear then ''history_clear'' else ''history_append'') in
      case on_world (commit_store store clear sessionID \<lparr>tn_User = query, tn_Assistant = answer\<rparr>) st1 of (err, st2) \<Rightarrow>
        (if ae_HistoryFailOpen env then None else map_option (wrap_err operation) err,
         note_memory env operation st1 err st2)))"

definition retrieveMemoryText ::
  "'w agent_env \<Rightarrow> string \<Rightarrow> string \<Rightarrow> turn list \<Rightarrow> query_options \<Rightarrow> (string, 'w ask_state) action" where
  "retrieveMemoryText env sessionID query history opts st = (case ae_provider env of
     None \<Rightarrow> on_world (\<lambda>w. retrieveLongTermMemory (ae_ltm env) (ae_memory_config env) (ae_now env w) sessionID query (qo_MemoryScope opts) w) st
   | Some p \<Rightarrow> (case on_world (\<lambda>w. mp_Retrieve p (ae_now env w) \<lparr>mr_SessionID = sessionID, mr_Query = query,
         mr_Scope = ms_normalized (qo_MemoryScope opts) (mc_Namespace (ae_memory_config env)),
         mr_History = turnsToMessages history\<rparr> w) st of (r, st1) \<Rightarrow>
       (case r of
          Inl e \<Rightarrow> if ae_ProviderFailOpen env then Inr '''' else Inl (wrap_err ''retrieve memory provider'' e)
        | Inr res \<Rightarrow> Inr (trim_space (joinMemoryProviderResult res)),
        note_memory env ''retrieve'' st (err_of r) st1)))"

definition storeMemory :: "'w agent_env \<Rightarrow> string \<Rightarrow> string \<Rightarrow> string \<Rightarrow> query_options \<Rightarrow> 'w ask_state effect" where
  "storeMemory env sessionID query answer opts st = (case ae_provider env of
     None \<Rightarrow> on_world (\<lambda>w. storeLongTermMemory (ae_hash env) (ae_ltm env) (ae_memory_config env) (ae_now env w) sessionID query answer
        (qo_MemoryScope opts) w) st
   | Some p \<Rightarrow> (case on_world (\<lambda>w. mp_Memorize p (ae_now env w) sessionID
         (ms_normalized (qo_MemoryScope opts) (mc_Namespace (ae_memory_config env))) query answer w) st of (err, st1) \<Rightarrow>
       (map_option (wrap_err ''memorize memory provider'') err, note_memory env ''memorize'' st err st1)))"

subsection \<open>A synchronous question\<close>

record answer =
  an_Text :: string
  an_Citations :: "citation list"
  an_Trace :: "execution_trace option"

text \<open>\<^verbatim>\<open>len\<close> counts bytes; a Latin-1 rune takes one or two in UTF-8.\<close>

definition byte_len :: "string \<Rightarrow> nat" where
  "byte_len s = sum_list (map (\<lambda>c. if code_of c < 128 then 1 else 2) s)"

definition ask_cache :: "'w agent_env \<Rightarrow> 'w ask_state graph_cache" where
  "ask_cache env = (case ae_PromptCache env of
     None \<Rightarrow> \<lparr>gc_Get = (\<lambda>_ st. (None, st)), gc_Set = (\<lambda>_ _ st. st)\<rparr>
   | Some c \<Rightarrow> \<lparr>gc_Get = (\<lambda>k. on_world (gc_Get c k)), gc_Set = (\<lambda>k m st. st\<lparr>ak_world := gc_Set c k m (ak_world st)\<rparr>)\<rparr>)"

definition ask_request ::
  "'w agent_env \<Rightarrow> 'w emitter \<Rightarrow> string \<Rightarrow> turn list \<Rightarrow> string \<Rightarrow> string \<Rightarrow> string \<Rightarrow> response_format option \<Rightarrow> 'w ask_state request" where
  "ask_request env emit query history evidenceText memoryText instruction format = \<lparr>rq_Query = query, rq_History = history,
     rq_EvidenceText = evidenceText, rq_LongTermMemoryText = memoryText, rq_ConversationSummary = '''',
     rq_ResponseFormatInstruction = instruction, rq_ResponseFormat = format, rq_ReasoningEffort = ae_ReasoningEffort env,
     rq_limits = ae_limits env, rq_PromptCache = Some (ask_cache env),
     rq_PromptCacheObserver = Some (\<lambda>hit. traced (setPromptCacheHit hit)),
     rq_ToolObserver = Some (newGraphToolObserver env emit), rq_ToolCallLimiter = Some (acquire_tool env)\<rparr>"

text \<open>Without evidence the tools may still find some; otherwise the trace records the refusal.\<close>

definition retrieve_or_fall_back :: "'w agent_env \<Rightarrow> string \<Rightarrow> search_filter \<Rightarrow> (search_hit list \<times> string, 'w ask_state) action" where
  "retrieve_or_fall_back env query f st = (case normalized env (retrieve env query f) st of
     (Inr x, st) \<Rightarrow> (Inr x, st)
   | (Inl e, st) \<Rightarrow>
       (if hasFallbackTools env \<and> err_is e ErrEvidenceInsufficient then (Inr ([], ''''), st)
        else (Inl e, if err_is e ErrEvidenceInsufficient
                     then traced (setRefusal (classifyEvidenceRefusal (et_Retrieval (tb_trace (ak_trace st))))) st else st)))"

text \<open>The model call between its two callbacks; a failed callback counts only when the call succeeded.\<close>

definition run_model ::
  "'w agent_env \<Rightarrow> bool \<Rightarrow> ('a result \<Rightarrow> 'w ask_state \<Rightarrow> nat) \<Rightarrow> ('a, 'w ask_state) action \<Rightarrow> ('a, 'w ask_state) action" where
  "run_model env stream outputLen m st =
     (case normalized env m st of (r, st) \<Rightarrow>
      case callback env (OnModelEnd (ae_model_name env) (err_of r)) st of (e1, st) \<Rightarrow>
      let metrics = \<lparr>mm_Model = ae_model_name env, mm_Stream = stream, mm_OutputChars = outputLen r st\<rparr>
      in case emitMetrics env (OnModelMetrics metrics) (traced (setModel metrics) st) of (e2, st) \<Rightarrow>
        (case first_err (first_err (err_of r) e1) e2 of Some e \<Rightarrow> Inl e | None \<Rightarrow> r, st))"

definition note_tool_limit :: "go_error \<Rightarrow> 'w ask_state \<Rightarrow> 'w ask_state" where
  "note_tool_limit e st = (if err_is e ErrToolCallLimitExceeded then traced (setRefusal RefusalToolFailure) st else st)"

definition generate_answer :: "'w agent_env \<Rightarrow> 'w ask_state request \<Rightarrow> (string, 'w ask_state) action" where
  "generate_answer env req = andThen (perform (callback env (OnModelStart (ae_model_name env)))) (\<lambda>_ st.
     case run_model env False (\<lambda>r _. case r of Inl _ \<Rightarrow> 0 | Inr t \<Rightarrow> byte_len t) (ae_Ask env req) st of
       (Inr t, st) \<Rightarrow> (Inr t, st)
     | (Inl e, st) \<Rightarrow> (Inl (wrap_err ''run answer generation'' e), note_tool_limit e st))"

definition answer_citations :: "'w agent_env \<Rightarrow> search_hit list \<Rightarrow> (citation list, 'w ask_state) action" where
  "answer_citations env hits st = (let cs = citationsFromHits hits @ snapshotCitations (ae_hash env) (ak_collector st)
     in (Inr cs, traced (setCitations cs) st))"

definition ask_body ::
  "'w agent_env \<Rightarrow> string \<Rightarrow> string \<Rightarrow> query_options \<Rightarrow> string \<Rightarrow> response_format option \<Rightarrow> (answer, 'w ask_state) action" where
  "ask_body env sessionID query opts instruction format =
     andThen (loadHistory env sessionID) (\<lambda>history.
     let rewritten = rewriteFollowUp query (userQueries history) in
     andThen (change (traced (upd_trace (\<lambda>t. t\<lparr>et_RewrittenQuery := rewritten\<rparr>)))) (\<lambda>_.
     andThen (accessBoundaryFilter env sessionID rewritten opts) (\<lambda>f.
     andThen (retrieve_or_fall_back env rewritten f) (\<lambda>(hits, evidenceText).
     andThen (normalized env (retrieveMemoryText env sessionID rewritten history opts)) (\<lambda>memoryText.
     andThen (generate_answer env (ask_request env None rewritten history evidenceText memoryText instruction format)) (\<lambda>answerText.
     andThen (answer_citations env hits) (\<lambda>citations.
     andThen (perform (storeMemory env sessionID query answerText opts)) (\<lambda>_.
     andThen (perform (commitHistory env sessionID query answerText)) (\<lambda>_.
     give \<lparr>an_Text = answerText, an_Citations = citations, an_Trace = None\<rparr>)))))))))"

definition start_state :: "'w agent_env \<Rightarrow> string \<Rightarrow> string \<Rightarrow> query_options \<Rightarrow> bool \<Rightarrow> 'w \<Rightarrow> 'w ask_state" where
  "start_state env sessionID query opts stream w =
     \<lparr>ak_trace = newExecutionTraceBuilder (ae_now env w) sessionID query query (qo_Filter opts) stream,
      ak_used = 0, ak_collector = \<lparr>wc_results = [], wc_emitted = 0\<rparr>, ak_answer = '''', ak_emitterErr = None,
      ak_doneStep = 0, ak_world = w\<rparr>"

text \<open>The deferred function of \<^verbatim>\<open>askWithFormatLocked\<close>: it finishes the trace and records it; a recorder
  that panics turns a success into an error.\<close>

definition close_ask :: "'w agent_env \<Rightarrow> answer result \<Rightarrow> (answer, 'w ask_state) action" where
  "close_ask env r st =
     (let st = traced_now env (\<lambda>t. finish_trace t (err_of r)) st; finalTrace = tb_trace (ak_trace st) in
      case recordExecutionTrace env finalTrace st of
        (Some e, st) \<Rightarrow> (Inl e, st)
      | (None, st) \<Rightarrow> (map_sum id (\<lambda>a. a\<lparr>an_Trace := Some finalTrace\<rparr>) r, st))"

definition askWithFormat ::
  "'w agent_env \<Rightarrow> string \<Rightarrow> string \<Rightarrow> query_options \<Rightarrow> string \<Rightarrow> response_format option \<Rightarrow> 'w \<Rightarrow> answer result \<times> 'w" where
  "askWithFormat env sessionID query opts instruction format w = (case ae_ctx_err env w of Some e \<Rightarrow> (Inl e, w) | None \<Rightarrow>
     (case ask_body env sessionID query opts instruction format (start_state env sessionID query opts False w) of
        (r, st) \<Rightarrow> (case close_ask env r st of (r, st) \<Rightarrow> (r, ak_world st))))"

subsection \<open>A structured question\<close>

record structured_answer =
  sa_Answer :: answer
  sa_RawJSON :: string

definition no_answer :: answer where
  "no_answer = \<lparr>an_Text = '''', an_Citations = [], an_Trace = None\<rparr>"

text \<open>Nothing stands for an instruction that is never produced; \<open>unmarshal\<close> decodes a JSON text into the
  target.\<close>

definition askStructured ::
  "'w agent_env \<Rightarrow> declarations \<Rightarrow> nat \<Rightarrow> output_format \<Rightarrow> (string \<Rightarrow> bool) \<Rightarrow> (string \<Rightarrow> 'w effect) \<Rightarrow> target_view option
   \<Rightarrow> string \<Rightarrow> string \<Rightarrow> query_options \<Rightarrow> 'w \<Rightarrow> ((structured_answer \<times> go_error option) \<times> 'w) option" where
  "askStructured env ds fuel fmt valid unmarshal target sessionID query opts w =
     (case buildStructuredInstruction ds fuel target of
        None \<Rightarrow> None
      | Some (Inl e) \<Rightarrow> Some ((\<lparr>sa_Answer = no_answer, sa_RawJSON = ''''\<rparr>, Some e), w)
      | Some (Inr instruction) \<Rightarrow> Some
         (case askWithFormat env sessionID query opts instruction (structuredResponseFormat ds fmt (the target)) w of
            (Inl e, w) \<Rightarrow> ((\<lparr>sa_Answer = no_answer, sa_RawJSON = ''''\<rparr>, Some e), w)
          | (Inr a, w) \<Rightarrow> (case extractStructuredJSON valid (an_Text a) of
              Inl e \<Rightarrow> ((\<lparr>sa_Answer = a, sa_RawJSON = ''''\<rparr>, Some e), w)
            | Inr raw \<Rightarrow> (case unmarshal raw w of
                (Some e, w) \<Rightarrow> ((\<lparr>sa_Answer = a, sa_RawJSON = raw\<rparr>,
                    Some (errorf (''unmarshal structured output: '' @ err_text e @ '': ragagent: structured output is invalid'')
                      [e, sentinel_error ''ragagent: structured output is invalid'' ErrStructuredOutputInvalid])), w)
              | (None, w) \<Rightarrow> ((\<lparr>sa_Answer = a, sa_RawJSON = raw\<rparr>, None), w)))))"

subsection \<open>A streamed question\<close>

fun err_has :: "go_error \<Rightarrow> go_error \<Rightarrow> bool" where
  "err_has (GoError t so ws) target \<longleftrightarrow> GoError t so ws = target \<or> (\<exists>w \<in> set ws. err_has w target)"

definition emit_error :: "'w agent_env \<Rightarrow> 'w emitter \<Rightarrow> go_error \<Rightarrow> ('a, 'w ask_state) action" where
  "emit_error env emit e st =
     (let st = traced_now env (\<lambda>t. finish_trace t (Some e)) st; finalTrace = tb_trace (ak_trace st) in
      case emit_to emit (EventError e finalTrace) st of
        (Some e', st) \<Rightarrow> (Inl e', st)
      | (None, st) \<Rightarrow> (case recordExecutionTrace env finalTrace st of
          (Some e', st) \<Rightarrow> (Inl e', st) | (None, st) \<Rightarrow> (Inl e, st)))"

definition or_emit :: "'w agent_env \<Rightarrow> 'w emitter \<Rightarrow> ('a, 'w ask_state) action \<Rightarrow> ('a, 'w ask_state) action" where
  "or_emit env emit m st = (case m st of (Inr x, st) \<Rightarrow> (Inr x, st) | (Inl e, st) \<Rightarrow> emit_error env emit e st)"

definition stream_retrieve ::
  "'w agent_env \<Rightarrow> 'w emitter \<Rightarrow> string \<Rightarrow> search_filter \<Rightarrow> (search_hit list \<times> string, 'w ask_state) action" where
  "stream_retrieve env emit query f st = (case normalized env (retrieve env query f) st of
     (Inr x, st) \<Rightarrow> (Inr x, st)
   | (Inl e, st) \<Rightarrow>
       (if hasFallbackTools env \<and> err_is e ErrEvidenceInsufficient then (Inr ([], ''''), st)
        else andThen (perform (emit_all emit [EventRetrieveEnd (Some e), EventToolEnd retrieveToolName (Some e)])) (\<lambda>_ st.
          emit_error env emit e (if err_is e ErrEvidenceInsufficient
            then traced (setRefusal (classifyEvidenceRefusal (et_Retrieval (tb_trace (ak_trace st))))) st else st)) st))"

text \<open>The handler of the runner's events.\<close>

definition stream_handler :: "'w emitter \<Rightarrow> graph_event \<Rightarrow> 'w ask_state effect" where
  "stream_handler emit ev st = (case ge_Type ev of
     GraphAnswerChunk \<Rightarrow> (case emit_to emit (EventAnswerChunk (ge_Content ev) (ge_Step ev)) (st\<lparr>ak_answer := ak_answer st @ ge_Content ev\<rparr>) of
        (Some e, st) \<Rightarrow> (Some e, st\<lparr>ak_emitterErr := Some e\<rparr>) | (None, st) \<Rightarrow> (None, st))
   | GraphDone \<Rightarrow> (None, st\<lparr>ak_doneStep := ge_Step ev\<rparr>))"

definition emitter_failed :: "go_error \<Rightarrow> 'w ask_state \<Rightarrow> bool" where
  "emitter_failed e st = (case ak_emitterErr st of None \<Rightarrow> False | Some e' \<Rightarrow> err_has e e')"

definition stream_answer :: "'w agent_env \<Rightarrow> 'w emitter \<Rightarrow> 'w ask_state request \<Rightarrow> (unit, 'w ask_state) action" where
  "stream_answer env emit req = andThen (perform (callback env (OnModelStart (ae_model_name env)))) (\<lambda>_ st.
     case run_model env True (\<lambda>_ st. byte_len (ak_answer st)) (perform (ae_AskStream env req (stream_handler emit))) st of
       (Inr t, st) \<Rightarrow> (Inr t, st)
     | (Inl e, st) \<Rightarrow> if emitter_failed e st then (Inl e, st) else emit_error env emit e (note_tool_limit e st))"

definition finish_stream :: "'w agent_env \<Rightarrow> 'w emitter \<Rightarrow> string \<Rightarrow> string \<Rightarrow> query_options \<Rightarrow> (string, 'w ask_state) action" where
  "finish_stream env emit sessionID query opts =
     andThen (change (traced_now env (\<lambda>t. finish_trace t None))) (\<lambda>_ st.
       let finalTrace = tb_trace (ak_trace st); answerText = ak_answer st in
       (andThen (perform (emit_to emit (EventDone (ak_doneStep st) finalTrace))) (\<lambda>_.
        andThen (perform (recordExecutionTrace env finalTrace)) (\<lambda>_.
        andThen (perform (storeMemory env sessionID query answerText opts)) (\<lambda>_.
        andThen (perform (commitHistory env sessionID query answerText)) (\<lambda>_.
        give answerText)))) st))"

definition stream_body ::
  "'w agent_env \<Rightarrow> 'w emitter \<Rightarrow> string \<Rightarrow> string \<Rightarrow> query_options \<Rightarrow> (string, 'w ask_state) action" where
  "stream_body env emit sessionID query opts =
     andThen (or_emit env emit (loadHistory env sessionID)) (\<lambda>history.
     let rewritten = rewriteFollowUp query (userQueries history) in
     andThen (change (traced (upd_trace (\<lambda>t. t\<lparr>et_RewrittenQuery := rewritten\<rparr>)))) (\<lambda>_.
     andThen (accessBoundaryFilter env sessionID rewritten opts) (\<lambda>f.
     andThen (perform (emit_all emit [EventRetrieveStart rewritten, EventToolStart retrieveToolName])) (\<lambda>_.
     andThen (stream_retrieve env emit rewritten f) (\<lambda>(hits, evidenceText).
     andThen (normalized env (retrieveMemoryText env sessionID rewritten history opts)) (\<lambda>memoryText.
     andThen (perform (emit_all emit [EventRetrieveEnd None, EventToolEnd retrieveToolName None])) (\<lambda>_.
     andThen (answer_citations env hits) (\<lambda>citations.
     andThen (perform (emit_all emit (map EventCitation citations))) (\<lambda>_.
     andThen (stream_answer env emit (ask_request env emit rewritten history evidenceText memoryText '''' None)) (\<lambda>_.
     finish_stream env emit sessionID query opts))))))))))"

definition askStream ::
  "'w agent_env \<Rightarrow> 'w emitter \<Rightarrow> string \<Rightarrow> string \<Rightarrow> query_options \<Rightarrow> 'w \<Rightarrow> string result \<times> 'w" where
  "askStream env emit sessionID query opts w = (case ae_ctx_err env w of Some e \<Rightarrow> (Inl e, w) | None \<Rightarrow>
     (if emit = None then (Inl (errorf ''stream emitter is required'' []), w)
      else (case stream_body env emit sessionID query opts (start_state env sessionID query opts True w) of
        (r, st) \<Rightarrow> (r, ak_world st))))"

text \<open>\<^verbatim>\<open>Maintain\<close>: the cache is cleared before expired memories are pruned.\<close>

definition maintain :: "'w effect option \<Rightarrow> ('w \<Rightarrow> nat result \<times> 'w) option \<Rightarrow> 'w effect" where
  "maintain cache_clear prune =
     (\<lambda>w. case (case cache_clear of None \<Rightarrow> (None, w) | Some f \<Rightarrow> f w) of
        (Some e, w) \<Rightarrow> (Some (wrap_err ''clear prompt cache'' e), w)
      | (None, w) \<Rightarrow> (case prune of None \<Rightarrow> (None, w) | Some f \<Rightarrow>
          (case f w of (Inl e, w) \<Rightarrow> (Some (wrap_err ''prune expired long-term memory'' e), w) | (Inr _, w) \<Rightarrow> (None, w))))"

subsection \<open>The chat runner in the pipeline\<close>

text \<open>Tools see the web collector (through the context) and the world; the model sees the world.\<close>

type_synonym 'w plain_tool = "string \<times> (string \<Rightarrow> web_collector \<times> 'w \<Rightarrow> (string \<times> go_error option) \<times> web_collector \<times> 'w)"

definition lift_tool :: "'w plain_tool \<Rightarrow> 'w ask_state graph_tool" where
  "lift_tool t = \<lparr>gt_Name = fst t, gt_Run = (\<lambda>q st. case snd t q (ak_collector st, ak_world st) of
     (x, c, w) \<Rightarrow> (x, st\<lparr>ak_collector := c, ak_world := w\<rparr>))\<rparr>"

definition lift_model :: "'w chat_model \<Rightarrow> 'w ask_state chat_model" where
  "lift_model m = \<lparr>cm_Generate = (\<lambda>msgs. on_world (cm_Generate m msgs)), cm_Stream = (\<lambda>msgs. on_world (cm_Stream m msgs)),
     cm_WithOptions = map_option (\<lambda>om. \<lparr>om_Generate = (\<lambda>msgs opts. on_world (om_Generate om msgs opts)),
       om_Stream = (\<lambda>msgs opts. on_world (om_Stream om msgs opts))\<rparr>) (cm_WithOptions m)\<rparr>"

definition with_chat ::
  "encoder \<Rightarrow> (string \<Rightarrow> string) \<Rightarrow> 'w chat_model \<Rightarrow> 'w plain_tool list \<Rightarrow> 'w agent_env \<Rightarrow> 'w agent_env" where
  "with_chat enc sha model tools env = env\<lparr>ae_Ask := chat_Ask enc sha (lift_model model) (map lift_tool tools),
     ae_AskStream := chat_AskStream enc sha (lift_model model) (map lift_tool tools)\<rparr>"

subsection \<open>Lemmas: the tool calls of a trace\<close>

text \<open>Between calls no call is open and the trace lists no more calls than the budget gave out.\<close>

definition settled :: "int \<Rightarrow> 'w ask_state \<Rightarrow> bool" where
  "settled limit st \<longleftrightarrow> tb_ok (ak_trace st) \<and> (\<forall>n. tb_toolIndex (ak_trace st) n = [])
     \<and> int (length (et_ToolCalls (tb_trace (ak_trace st)))) \<le> ak_used st \<and> ak_used st \<le> limit"

definition acquired :: "int \<Rightarrow> 'w ask_state \<Rightarrow> bool" where
  "acquired limit st \<longleftrightarrow> tb_ok (ak_trace st) \<and> (\<forall>n. tb_toolIndex (ak_trace st) n = [])
     \<and> int (length (et_ToolCalls (tb_trace (ak_trace st)))) < ak_used st \<and> ak_used st \<le> limit"

definition started :: "int \<Rightarrow> string \<Rightarrow> 'w ask_state \<Rightarrow> bool" where
  "started limit n st \<longleftrightarrow> tb_ok (ak_trace st) \<and> length (tb_toolIndex (ak_trace st) n) = 1
     \<and> (\<forall>m. m \<noteq> n \<longrightarrow> tb_toolIndex (ak_trace st) m = [])
     \<and> int (length (et_ToolCalls (tb_trace (ak_trace st)))) \<le> ak_used st \<and> ak_used st \<le> limit"

text \<open>Predicates that look at neither the world nor the collector.\<close>

definition inner :: "('w ask_state \<Rightarrow> bool) \<Rightarrow> bool" where
  "inner Q \<longleftrightarrow> (\<forall>st c w. Q (st\<lparr>ak_collector := c, ak_world := w\<rparr>) = Q st)"

lemma inner_settled [simp]: "inner (settled limit)" "inner (acquired limit)" "inner (started limit n)"
  by (simp_all add: inner_def settled_def acquired_def started_def)

lemma inner_world: "inner Q \<Longrightarrow> Q (st\<lparr>ak_world := w\<rparr>) = Q st"
  unfolding inner_def by (drule spec [of _ st], drule spec [of _ "ak_collector st"], drule spec [of _ w]) simp

lemma inner_collector: "inner Q \<Longrightarrow> Q (st\<lparr>ak_collector := c\<rparr>) = Q st"
  unfolding inner_def by (drule spec [of _ st], drule spec [of _ c], drule spec [of _ "ak_world st"]) simp

lemma keeps_on_world [keeps_rules]: "inner Q \<Longrightarrow> keeps Q (on_world f)"
  by (rule keepsI) (auto simp: on_world_def inner_world split: prod.split_asm)

lemma keeps_callback [keeps_rules]: "inner Q \<Longrightarrow> keeps Q (callback env ev)"
  unfolding callback_def by (rule keeps_on_world)

lemma keeps_emit_to [keeps_rules]: "inner Q \<Longrightarrow> keeps Q (emit_to emit ev)"
  by (rule keepsI) (auto simp: emit_to_def dest: keepsD [OF keeps_on_world] split: option.split_asm)

lemma keeps_emit_all [keeps_rules]: "inner Q \<Longrightarrow> keeps Q (emit_all emit evs)"
  by (induction evs) (auto intro: keeps_rules)

lemma keeps_metrics [keeps_rules]: "inner Q \<Longrightarrow> keeps Q (emitMetrics env ev)"
  by (rule keepsI) (auto simp: emitMetrics_def dest: keepsD [OF keeps_callback] split: if_split_asm)

lemma traced_simps [simp]:
  "ak_trace (traced f st) = f (ak_trace st)" "ak_used (traced f st) = ak_used st" "ak_world (traced f st) = ak_world st"
  "ak_trace (traced_now env g st) = g (ae_now env (ak_world st)) (ak_trace st)" "ak_used (traced_now env g st) = ak_used st"
  by (simp_all add: traced_def traced_now_def)

lemma acquire_tool_ok: "settled (newToolCallBudget (ae_MaxToolCalls env)) st \<Longrightarrow> acquire_tool env n st = (None, st') \<Longrightarrow>
    acquired (newToolCallBudget (ae_MaxToolCalls env)) st'"
  by (auto simp: acquire_tool_def settled_def acquired_def Let_def split: if_split_asm)

lemma acquired_start: "acquired limit st \<Longrightarrow> started limit n (traced_now env (\<lambda>t. startTool t n) st)"
  by (auto simp: acquired_def started_def tb_ok_startTool) (auto simp: startTool_def Let_def)

lemma started_end: "started limit n st \<Longrightarrow> settled limit (traced_now env (\<lambda>t. endTool t n err) st)"
  by (auto simp: started_def settled_def tb_ok_endTool length_Suc_conv) (auto simp: endTool_def Let_def)

lemma acquired_settled: "acquired limit st \<Longrightarrow> settled limit st"
  by (simp add: acquired_def settled_def)

lemma observer_start_ok: "acquired limit st \<Longrightarrow> observer_start env emit n st = (None, st') \<Longrightarrow> started limit n st'"
proof -
  assume a: "acquired limit st" and run: "observer_start env emit n st = (None, st')"
  let ?rest = "effThen (if n \<noteq> retrieveToolName then emit_to emit (EventToolStart n) else no_effect) (callback env (OnToolStart n))"
  have r: "?rest (traced_now env (\<lambda>t. startTool t n) st) = (None, st')"
    using run by (simp only: observer_start_def effThen_silently)
  have "keeps (started limit n) ?rest" by (intro keeps_rules inner_settled)
  from keepsD [OF this r acquired_start [OF a]] show ?thesis .
qed

lemma drain_keeps [keeps_rules]:
  assumes "inner Q"
  shows "keeps Q (drain_citations env emit)"
proof (rule keepsI)
  fix st r st'
  assume "Q st" "drain_citations env emit st = (r, st')"
  moreover obtain cs c where "drainNewCitations (ae_hash env) (ak_collector st) = (cs, c)" by fastforce
  ultimately show "Q st'"
    using keepsD [OF keeps_emit_all [OF assms, of emit "map EventCitation cs"]] inner_collector [OF assms]
    by (simp add: drain_citations_def)
qed

lemma observer_end_ok:
  assumes "started limit n st" "observer_end env emit n err st = (r, st')"
  shows "settled limit st'"
proof -
  let ?rest = "effThen (if emit = None \<or> n = retrieveToolName then no_effect
         else effThen (emit_to emit (EventToolEnd n err)) (if n = ''search_web'' then drain_citations env emit else no_effect))
       (callback env (OnToolEnd n err))"
  have r: "?rest (traced_now env (\<lambda>t. endTool t n err) st) = (r, st')"
    using assms(2) by (simp only: observer_end_def effThen_silently)
  have "keeps (settled limit) ?rest" by (intro keeps_rules inner_settled)
  from keepsD [OF this r started_end [OF assms(1)]] show ?thesis .
qed

interpretation ask_calls: tool_protocol "ask_request env emit query history evidence memory instruction format"
  "map lift_tool ts" "lift_model m" "settled (newToolCallBudget (ae_MaxToolCalls env))"
  "\<lambda>_. acquired (newToolCallBudget (ae_MaxToolCalls env))" "started (newToolCallBudget (ae_MaxToolCalls env))"
  for env :: "'w agent_env" and emit query history evidence memory instruction format ts m
proof
  let ?req = "ask_request env emit query history evidence memory instruction format"
  let ?limit = "newToolCallBudget (ae_MaxToolCalls env)"
  have fields: "rq_ToolCallLimiter ?req = Some (acquire_tool env)" "rq_ToolObserver ?req = Some (newGraphToolObserver env emit)"
    "rq_PromptCache ?req = Some (ask_cache env)" "rq_PromptCacheObserver ?req = Some (\<lambda>hit. traced (setPromptCacheHit hit))"
    by (simp_all add: ask_request_def)
  note world = keepsD [OF keeps_on_world [OF inner_settled(1)]]
  fix st st' :: "'w ask_state" and n err t q x c k msgs ob hit om opts
  show "settled ?limit st \<Longrightarrow> acquire_call ?req n st = (None, st') \<Longrightarrow> acquired ?limit st'"
    by (simp add: acquire_call_def fields acquire_tool_ok)
  show "acquired ?limit st \<Longrightarrow> observe_start ?req n st = (None, st') \<Longrightarrow> started ?limit n st'"
    by (auto simp: observe_start_def fields newGraphToolObserver_def split: prod.split_asm intro: observer_start_ok)
  show "started ?limit n st \<Longrightarrow> observe_end ?req n err st = (None, st') \<Longrightarrow> settled ?limit st'"
    by (auto simp: observe_end_def fields newGraphToolObserver_def split: prod.split_asm intro: observer_end_ok)
  show "t \<in> set (map lift_tool ts) \<Longrightarrow> started ?limit (gt_Name t) st \<Longrightarrow> gt_Run t q st = (x, st') \<Longrightarrow> started ?limit (gt_Name t) st'"
    by (auto simp: lift_tool_def started_def split: prod.split_asm)
  show "rq_PromptCache ?req = Some c \<Longrightarrow> keeps (settled ?limit) (gc_Get c k)"
    by (auto simp: fields ask_cache_def keeps_def dest: world split: option.split) (metis surjective_pairing world)
  show "rq_PromptCache ?req = Some c \<Longrightarrow> settled ?limit st \<Longrightarrow> settled ?limit (gc_Set c k msgs st)"
    by (auto simp: fields ask_cache_def inner_world split: option.split)
  show "rq_PromptCacheObserver ?req = Some ob \<Longrightarrow> settled ?limit st \<Longrightarrow> settled ?limit (ob hit st)"
    by (auto simp: fields settled_def setPromptCacheHit_def intro: tb_ok_cong [rotated 2])
  show "keeps (settled ?limit) (cm_Generate (lift_model m) msgs)"
    by (simp add: lift_model_def keeps_on_world)
  show "cm_WithOptions (lift_model m) = Some om \<Longrightarrow> keeps (settled ?limit) (om_Generate om msgs opts)"
    by (auto simp: lift_model_def keeps_on_world)
qed

text \<open>Actions whose success leaves a predicate true.\<close>

definition yields :: "('w \<Rightarrow> bool) \<Rightarrow> ('a, 'w) action \<Rightarrow> bool" where
  "yields P m \<longleftrightarrow> (\<forall>w x w'. P w \<longrightarrow> m w = (Inr x, w') \<longrightarrow> P w')"

lemma yieldsD: "yields P m \<Longrightarrow> m w = (Inr x, w') \<Longrightarrow> P w \<Longrightarrow> P w'"
  by (auto simp: yields_def)

lemma yields_keeps: "keeps P m \<Longrightarrow> yields P m"
  by (auto simp: yields_def dest: keepsD)

lemma yields_andThen: "yields P m \<Longrightarrow> (\<And>x. yields P (k x)) \<Longrightarrow> yields P (andThen m k)"
  unfolding yields_def andThen_Inr by metis

lemma settled_traced:
  assumes "\<And>b. et_ToolCalls (tb_trace (f b)) = et_ToolCalls (tb_trace b)" "\<And>b. tb_toolIndex (f b) = tb_toolIndex b"
  shows "settled limit (traced f st) = settled limit st"
  using tb_ok_cong [of "f (ak_trace st)" "ak_trace st"] tb_ok_cong [of "ak_trace st" "f (ak_trace st)"]
  by (auto simp: settled_def assms)

lemma settled_setters [simp]:
  "settled limit (traced (setRetrieval m fbs) st) = settled limit st" "settled limit (traced (setModel mm) st) = settled limit st"
  "settled limit (traced (setCitations cs) st) = settled limit st" "settled limit (traced (setRefusal rr) st) = settled limit st"
  "settled limit (traced (addMemory op t1 t2 err) st) = settled limit st"
  "settled limit (traced (finish_trace t1 err) st) = settled limit st"
  "settled limit (traced (upd_trace (\<lambda>t. t\<lparr>et_RewrittenQuery := q\<rparr>)) st) = settled limit st"
  by (rule settled_traced; simp add: trace_setters)+

lemma settled_now [simp]: "settled limit (traced_now env (\<lambda>t. finish_trace t err) st) = settled limit st"
  by (simp add: traced_now_def)

lemma settled_note [simp]: "settled limit (note_memory env op st0 err st) = settled limit st"
  by (simp add: note_memory_def)

lemma keeps_normalized [keeps_rules]: "keeps P m \<Longrightarrow> keeps P (normalized env m)"
  by (rule keepsI) (auto simp: normalized_def dest: keepsD split: prod.split_asm sum.split_asm)

lemma yields_normalized: "yields P m \<Longrightarrow> yields P (normalized env m)"
  by (auto simp: yields_def normalized_def split: prod.split_asm sum.split_asm)

lemma keeps_run_all: "inner Q \<Longrightarrow> Q st \<Longrightarrow> Q (run_all env evs st)"
proof (induction evs arbitrary: st)
  case (Cons ev evs)
  then have "Q (snd (emitMetrics env ev st))" using keeps_metrics unfolding keeps_def by blast
  with Cons show ?case by simp
qed simp

lemma end_retrieve_settled:
  assumes "started limit retrieveToolName st"
  shows "settled limit (end_retrieve env m fbs kept runErr st)"
proof -
  note cb = keepsD [OF keeps_callback [OF inner_settled(3)]]
  obtain e1 st1 where 1: "callback env (OnRetrieveEnd kept runErr) st = (e1, st1)" by fastforce
  obtain e2 st2 where 2: "callback env (OnToolEnd retrieveToolName (first_err runErr e1)) st1 = (e2, st2)" by fastforce
  have "started limit retrieveToolName st2" using cb [OF 2 cb [OF 1 assms]] .
  from started_end [OF this, of env "first_err (first_err runErr e1) e2"] show ?thesis
    by (simp add: end_retrieve_def 1 2 Let_def keeps_run_all del: run_all.simps)
qed

lemma retrieve_body_settled:
  assumes "on_world (ae_SearchDetailed env query f) st = (d, st3)" "started limit retrieveToolName st3"
  shows "settled limit (snd (retrieve_body env query f st))"
proof -
  obtain hits m fbs e where d: "d = (hits, m, fbs, e)" by (cases d) auto
  show ?thesis
  proof (cases "case e of Some e' \<Rightarrow> Inl (wrap_err ''retrieve hits'' e') | None \<Rightarrow> assemble_evidence hits")
    case (Inl x)
    then show ?thesis using end_retrieve_settled [OF assms(2)] by (simp add: retrieve_body_def assms(1) d Let_def)
  next
    case (Inr x)
    then show ?thesis using end_retrieve_settled [OF assms(2)]
      by (cases x) (simp add: retrieve_body_def assms(1) d Let_def)
  qed
qed

lemma retrieve_settled:
  fixes env :: "'w agent_env"
  defines "limit \<equiv> newToolCallBudget (ae_MaxToolCalls env)"
  assumes "settled limit st" "retrieve env query f st = (r, st')"
  shows "settled limit st'"
proof (cases "acquire_tool env retrieveToolName st")
  case (Pair e st1)
  show ?thesis
  proof (cases e)
    case (Some e')
    then have "st1 = st" using Pair by (simp add: acquire_tool_def Let_def split: if_split_asm)
    with Some Pair assms show ?thesis by (simp add: retrieve_def andThen_def perform_def)
  next
    case None
    have a: "acquired limit st1" unfolding limit_def by (rule acquire_tool_ok) (use assms Pair None in auto)
    let ?rest = "andThen (perform (callback env (OnRetrieveStart query))) (\<lambda>_. perform (callback env (OnToolStart retrieveToolName)))"
    have k: "keeps (acquired limit) ?rest" by (intro keeps_rules inner_settled)
    obtain x st2 where rest: "?rest st1 = (x, st2)" by fastforce
    note a2 = keepsD [OF k rest a]
    have run: "retrieve env query f st = andThen ?rest (\<lambda>_ st. retrieve_body env query f (traced_now env (\<lambda>t. startTool t retrieveToolName) st)) st1"
      using Pair None by (auto simp: retrieve_def andThen_def perform_def change_def split: prod.split option.split)
    show ?thesis
    proof (cases x)
      case (Inl e')
      then show ?thesis using run rest assms(3) acquired_settled [OF a2] by (simp add: andThen_def)
    next
      case (Inr u)
      have s: "started limit retrieveToolName (traced_now env (\<lambda>t. startTool t retrieveToolName) st2)"
        by (rule acquired_start [OF a2])
      obtain d st3 where sd: "on_world (ae_SearchDetailed env query f) (traced_now env (\<lambda>t. startTool t retrieveToolName) st2) = (d, st3)"
        using surj_pair by metis
      have "started limit retrieveToolName st3" by (rule keepsD [OF keeps_on_world [OF inner_settled(3)], OF sd s])
      then have "settled limit (snd (retrieve_body env query f (traced_now env (\<lambda>t. startTool t retrieveToolName) st2)))"
        by (rule retrieve_body_settled [OF sd])
      moreover have "retrieve_body env query f (traced_now env (\<lambda>t. startTool t retrieveToolName) st2) = (r, st')"
        using run rest Inr assms(3) by (simp add: andThen_def)
      ultimately show ?thesis by simp
    qed
  qed
qed

lemma ask_steps_settled:
  fixes env :: "'w agent_env"
  defines "S \<equiv> settled (newToolCallBudget (ae_MaxToolCalls env))"
  shows "keeps S (loadHistory env sid)" "keeps S (accessBoundaryFilter env sid q opts)" "keeps S (retrieve_or_fall_back env q f)"
    "keeps S (retrieveMemoryText env sid q history opts)" "keeps S (answer_citations env hits)"
    "keeps S (storeMemory env sid q a opts)" "keeps S (commitHistory env sid q a)"
proof -
  note world = keepsD [OF keeps_on_world [OF inner_settled(1)]]
  show "keeps S (loadHistory env sid)" unfolding S_def
    by (rule keepsI) (auto simp: loadHistory_def Let_def split: if_split_asm prod.split_asm sum.split_asm dest: world)
  show "keeps S (accessBoundaryFilter env sid q opts)" by (simp add: keeps_def accessBoundaryFilter_def)
  show "keeps S (retrieve_or_fall_back env q f)"
  proof (rule keepsI)
    fix st r st'
    assume "S st" "retrieve_or_fall_back env q f st = (r, st')"
    moreover obtain r1 st1 where 1: "normalized env (retrieve env q f) st = (r1, st1)" by fastforce
    moreover have "keeps S (normalized env (retrieve env q f))" unfolding S_def
      by (rule keeps_normalized, rule keepsI) (rule retrieve_settled)
    then have "S st \<Longrightarrow> S st1" using 1 keepsD by metis
    ultimately show "S st'"
      by (auto simp: retrieve_or_fall_back_def S_def split: sum.split_asm if_split_asm)
  qed
  show "keeps S (retrieveMemoryText env sid q history opts)" unfolding S_def
    by (rule keepsI) (auto simp: retrieveMemoryText_def split: option.split_asm prod.split_asm dest: world)
  show "keeps S (answer_citations env hits)" unfolding S_def
    by (simp add: keeps_def answer_citations_def Let_def)
  show "keeps S (storeMemory env sid q a opts)" unfolding S_def
    by (rule keepsI) (auto simp: storeMemory_def split: option.split_asm prod.split_asm dest: world)
  show "keeps S (commitHistory env sid q a)" unfolding S_def
    by (rule keepsI) (auto simp: commitHistory_def Let_def split: option.split_asm prod.split_asm dest: world)
qed

lemma run_model_yields:
  assumes "inner P" "yields P m" "\<And>st mm. P (traced (setModel mm) st) = P st"
  shows "yields P (run_model env stream len m)"
  unfolding yields_def
proof (intro allI impI)
  fix st x st'
  assume P: "P st" and run: "run_model env stream len m st = (Inr x, st')"
  obtain r st1 where 1: "normalized env m st = (r, st1)" by fastforce
  obtain e1 st2 where 2: "callback env (OnModelEnd (ae_model_name env) (err_of r)) st1 = (e1, st2)" by fastforce
  obtain e2 st3 where 3: "emitMetrics env (OnModelMetrics \<lparr>mm_Model = ae_model_name env, mm_Stream = stream, mm_OutputChars = len r st2\<rparr>)
      (traced (setModel \<lparr>mm_Model = ae_model_name env, mm_Stream = stream, mm_OutputChars = len r st2\<rparr>) st2) = (e2, st3)" by fastforce
  have "run_model env stream len m st = (case first_err (first_err (err_of r) e1) e2 of Some e \<Rightarrow> Inl e | None \<Rightarrow> r, st3)"
    by (simp add: run_model_def 1 2 3 Let_def)
  with run have r: "r = Inr x" "st' = st3" by (auto split: option.split_asm)
  with 1 yieldsD [OF yields_normalized [OF assms(2)] _ P] have "P st1" by simp
  then have "P st2" by (rule keepsD [OF keeps_callback [OF assms(1)] 2])
  then show "P st'" using keepsD [OF keeps_metrics [OF assms(1)] 3] by (simp add: r assms(3))
qed

lemma chat_answer_settled:
  assumes env': "env' = with_chat enc sha m ts env"
  shows "yields (settled (newToolCallBudget (ae_MaxToolCalls env'))) (generate_answer env' (ask_request env' None q history ev mt ins fmt))"
    (is "yields ?S _")
  unfolding generate_answer_def
proof (rule yields_andThen)
  show "yields ?S (perform (callback env' (OnModelStart (ae_model_name env'))))"
    by (intro yields_keeps keeps_rules inner_settled)
  let ?req = "ask_request env' None q history ev mt ins fmt" and ?len = "\<lambda>r _. case r of Inl _ \<Rightarrow> 0 | Inr t \<Rightarrow> byte_len t"
  have "ae_Ask env' = chat_Ask enc sha (lift_model m) (map lift_tool ts)" by (simp add: env' with_chat_def)
  then have "yields ?S (ae_Ask env' ?req)" using ask_calls.chat_Ask_yields unfolding yields_def by metis
  then have "yields ?S (run_model env' False ?len (ae_Ask env' ?req))" by (rule run_model_yields [OF inner_settled(1)]) simp
  then show "yields ?S (\<lambda>st. case run_model env' False ?len (ae_Ask env' ?req) st of
       (Inr t, st) \<Rightarrow> (Inr t, st) | (Inl e, st) \<Rightarrow> (Inl (wrap_err ''run answer generation'' e), note_tool_limit e st))"
    by (auto simp: yields_def split: prod.split_asm sum.split_asm)
qed

text \<open>The whole question keeps the budget and closes every call it opened.\<close>

lemma ask_body_settled:
  assumes env': "env' = with_chat enc sha m ts env"
  shows "yields (settled (newToolCallBudget (ae_MaxToolCalls env'))) (ask_body env' sid query opts ins fmt)"
  unfolding ask_body_def Let_def case_prod_beta
  by (intro yields_andThen chat_answer_settled [OF env'] yields_keeps)
    (intro keeps_rules ask_steps_settled; simp)+

lemma settled_start: "settled (newToolCallBudget n) (start_state env sid q opts stream w)"
  using tb_ok_new [of "ae_now env w" sid q q "qo_Filter opts" stream]
  by (simp add: settled_def start_state_def newToolCallBudget_def) (simp add: newExecutionTraceBuilder_def)

lemma settled_calls_finished: "settled limit st \<Longrightarrow> c \<in> set (et_ToolCalls (tb_trace (ak_trace st))) \<Longrightarrow> tt_FinishedAt c \<noteq> None"
  by (auto simp: settled_def tb_ok_def in_set_conv_nth)

lemma keeps_record [keeps_rules]: "inner Q \<Longrightarrow> keeps Q (recordExecutionTrace env t)"
proof -
  assume "inner Q"
  then have "keeps Q (callbacks_in_order env evs)" for evs by (induction evs) (auto intro: keeps_rules)
  then show ?thesis by (simp add: recordExecutionTrace_def)
qed

lemma ask_success:
  assumes "askWithFormat env sid q opts ins fmt w = (Inr a, w')"
  obtains b st where "ask_body env sid q opts ins fmt (start_state env sid q opts False w) = (Inr b, st)"
    "a = b\<lparr>an_Trace := Some (tb_trace (finish_trace (ae_now env (ak_world st)) None (ak_trace st)))\<rparr>"
proof -
  obtain r st where run: "ask_body env sid q opts ins fmt (start_state env sid q opts False w) = (r, st)" by fastforce
  let ?t = "tb_trace (finish_trace (ae_now env (ak_world st)) (err_of r) (ak_trace st))"
  obtain e st2 where rec: "recordExecutionTrace env ?t (traced_now env (\<lambda>t. finish_trace t (err_of r)) st) = (e, st2)" by fastforce
  have "askWithFormat env sid q opts ins fmt w = (case e of Some e \<Rightarrow> Inl e
      | None \<Rightarrow> map_sum id (\<lambda>a. a\<lparr>an_Trace := Some ?t\<rparr>) r, ak_world st2)"
    using assms by (simp add: askWithFormat_def run close_ask_def Let_def rec split: option.split option.split_asm)
  with assms have "map_sum id (\<lambda>a. a\<lparr>an_Trace := Some ?t\<rparr>) r = Inr a" by (simp split: option.split_asm)
  then obtain b where b: "r = Inr b" "a = b\<lparr>an_Trace := Some ?t\<rparr>" by (cases r) auto
  then show ?thesis using that run by (simp add: err_of_def)
qed

subsection \<open>Findings\<close>

text \<open>A callback that panics while retrieval ends is reported to the callbacks that follow, but never to
  the caller: the deferred function assigns \<^verbatim>\<open>runErr\<close> after the result was fixed.\<close>

lemma retrieve_ignores_callback_panics:
  "fst (retrieve_body (env\<lparr>ae_callback := cb\<rparr>) query f st) = fst (retrieve_body env query f st)"
  by (simp add: retrieve_body_def on_world_def Let_def split: prod.split)

text \<open>A stream announces its end and records its trace before it stores memory and history: an error of
  either is returned after \<open>EventDone\<close> and a successful trace were delivered, and the memory
  operations are in neither.\<close>

lemma stream_fails_after_done:
  assumes "traced_now env (\<lambda>t. finish_trace t None) st = st1"
    and "emit_to emit (EventDone (ak_doneStep st1) (tb_trace (ak_trace st1))) st1 = (None, st2)"
    and "recordExecutionTrace env (tb_trace (ak_trace st1)) st2 = (None, st3)"
    and "storeMemory env sid query (ak_answer st1) opts st3 = (None, st4)"
    and "commitHistory env sid query (ak_answer st1) st4 = (Some e, st5)"
  shows "finish_stream env emit sid query opts st = (Inl e, st5) \<and> et_Success (tb_trace (ak_trace st1))
    \<and> et_Memory (tb_trace (ak_trace st1)) = et_Memory (tb_trace (ak_trace st))"
proof
  show "finish_stream env emit sid query opts st = (Inl e, st5)"
    by (simp add: finish_stream_def andThen_def change_def perform_def Let_def assms)
  show "et_Success (tb_trace (ak_trace st1)) \<and> et_Memory (tb_trace (ak_trace st1)) = et_Memory (tb_trace (ak_trace st))"
    by (simp add: assms(1) [symmetric] finish_trace_def)
qed

text \<open>A question the access boundary refuses ends a stream without any event, in contrast to every other
  refusal before the answer.\<close>

lemma stream_boundary_refusal_is_silent:
  assumes "loadHistory env sid st = (Inr history, st1)"
    and "applyToRetrieval (ae_boundary env) \<lparr>ar_SessionID = sid, ar_Query = rewriteFollowUp query (userQueries history),
       ar_Filter = qo_Filter opts, ar_MemoryScope = qo_MemoryScope opts\<rparr> = Inl e"
  shows "\<exists>st2. stream_body env emit sid query opts st = (Inl (wrap_err ''apply access boundary'' e), st2)
    \<and> ak_world st2 = ak_world st1"
  by (simp add: stream_body_def andThen_def or_emit_def assms(1) change_def accessBoundaryFilter_def assms(2) Let_def)

text \<open>A structured question fails when the answer holds no JSON, but by then the turn is already in the
  external history store and in the memory; a local history drops it.\<close>

lemma structured_failure_is_committed:
  assumes "buildStructuredInstruction ds fuel (Some v) = Some (Inr instruction)"
    and "askWithFormat env sid query opts instruction (structuredResponseFormat ds fmt v) w = (Inr a, w')"
    and "extractStructuredJSON valid (an_Text a) = Inl e"
  shows "askStructured env ds fuel fmt valid unmarshal (Some v) sid query opts w
    = Some ((\<lparr>sa_Answer = a, sa_RawJSON = ''''\<rparr>, Some e), w')"
  by (simp add: askStructured_def assms)

subsection \<open>Properties\<close>


text \<open>Where the hits of an answer come from, and the citations with them.\<close>

lemma assemble_evidence_hits: "assemble_evidence hits = Inr (kept, ev) \<Longrightarrow> set kept \<subseteq> set hits"
  by (auto simp: assemble_evidence_def Let_def split: sum.split_asm prod.split_asm if_split_asm)

lemma retrieve_hits:
  assumes "retrieve env query f st = (Inr (hits, ev), st')"
  obtains w found m fbs e w2 where "ae_SearchDetailed env query f w = ((found, m, fbs, e), w2)" "set hits \<subseteq> set found"
proof -
  obtain st1 where body: "retrieve_body env query f st1 = (Inr (hits, ev), st')"
    using assms unfolding retrieve_def andThen_Inr by blast
  obtain found m fbs e w2 where search: "ae_SearchDetailed env query f (ak_world st1) = ((found, m, fbs, e), w2)"
    by (metis surj_pair)
  then have "(case e of Some e \<Rightarrow> Inl (wrap_err ''retrieve hits'' e) | None \<Rightarrow> assemble_evidence found) = Inr (hits, ev)"
    using body by (simp add: retrieve_body_def on_world_def Let_def)
  then have "set hits \<subseteq> set found" by (simp add: assemble_evidence_hits split: option.split_asm)
  with search that show ?thesis by blast
qed

lemma fall_back_hits:
  assumes "retrieve_or_fall_back env query f st = (Inr (hits, ev), st')"
  obtains "hits = []" | w found m fbs e w2 where "ae_SearchDetailed env query f w = ((found, m, fbs, e), w2)" "set hits \<subseteq> set found"
proof -
  obtain r st1 where r: "retrieve env query f st = (r, st1)" by fastforce
  show ?thesis
  proof (cases r)
    case (Inl e)
    then have "hits = []" using assms r
      by (simp add: retrieve_or_fall_back_def normalized_def split: if_split_asm)
    with that show ?thesis by blast
  next
    case (Inr x)
    then have "retrieve env query f st = (Inr (hits, ev), st')" using assms r
      by (simp add: retrieve_or_fall_back_def normalized_def)
    then obtain w found m fbs e w2 where "ae_SearchDetailed env query f w = ((found, m, fbs, e), w2)" "set hits \<subseteq> set found"
      by (rule retrieve_hits)
    then show ?thesis by (rule that(2))
  qed
qed

lemma ask_citations:
  assumes "ask_body env sid query opts ins fmt st0 = (Inr a, st)"
  obtains query' f hits c where "an_Citations a = citationsFromHits hits @ snapshotCitations (ae_hash env) c"
    "applyToRetrieval (ae_boundary env) \<lparr>ar_SessionID = sid, ar_Query = query', ar_Filter = qo_Filter opts,
       ar_MemoryScope = qo_MemoryScope opts\<rparr> = Inr f"
    "hits = [] \<or> (\<exists>w found m fbs e w2. ae_SearchDetailed env query' f w = ((found, m, fbs, e), w2) \<and> set hits \<subseteq> set found)"
proof -
  obtain q' f st1 st2 hits ev st3 ans st4 cs st5 where f: "accessBoundaryFilter env sid q' opts st1 = (Inr f, st2)"
    and hits: "retrieve_or_fall_back env q' f st2 = (Inr (hits, ev), st3)"
    and cs: "answer_citations env hits st4 = (Inr cs, st5)" and a: "a = \<lparr>an_Text = ans, an_Citations = cs, an_Trace = None\<rparr>"
    using assms unfolding ask_body_def Let_def case_prod_beta andThen_Inr action_simps by (metis prod.collapse sum.inject(2))
  have "applyToRetrieval (ae_boundary env) \<lparr>ar_SessionID = sid, ar_Query = q', ar_Filter = qo_Filter opts,
       ar_MemoryScope = qo_MemoryScope opts\<rparr> = Inr f"
    using f by (cases "applyToRetrieval (ae_boundary env) \<lparr>ar_SessionID = sid, ar_Query = q', ar_Filter = qo_Filter opts,
       ar_MemoryScope = qo_MemoryScope opts\<rparr>") (simp_all add: accessBoundaryFilter_def)
  moreover have "an_Citations a = citationsFromHits hits @ snapshotCitations (ae_hash env) (ak_collector st4)"
    using cs by (simp add: a answer_citations_def Let_def)
  ultimately show ?thesis using that fall_back_hits [OF hits] by metis
qed

lemma web_citation_ids: "ct \<in> set (snapshotCitations hash c) \<Longrightarrow> has_prefix (cit_ChunkID ct) ''search_web:''"
proof -
  have "ct \<in> set (web_citations_from hash i rs) \<Longrightarrow> has_prefix (cit_ChunkID ct) ''search_web:''" for i rs
    by (induction hash i rs rule: web_citations_from.induct) (auto simp: webCitationChunkID_def has_prefix_def Let_def split: if_split_asm)
  then show "ct \<in> set (snapshotCitations hash c) \<Longrightarrow> ?thesis" by (simp add: snapshotCitations_def citationsFromWebResults_def)
qed


subsection \<open>A question over one chunk\<close>

definition demo_env :: "unit agent_env" where
  "demo_env = \<lparr>ae_now = (\<lambda>_. 0), ae_ctx_err = (\<lambda>_. None), ae_budget_exceeded = (\<lambda>_. False), ae_callback = (\<lambda>_ w. (None, w)),
     ae_has_callbacks = False, ae_has_recorder = True, ae_has_logger = False, ae_hash = (\<lambda>s. s), ae_MaxToolCalls = 0,
     ae_boundary = demo_boundary,
     ae_SearchDetailed = (\<lambda>q f w. (default_SearchDetailed
       ((demo_retriever [])\<lparr>rr_search := (\<lambda>q n t f. chromem_SearchWithFilter (list_collection (\<lambda>_ _. 1)) [namespaceKey] q n t f [demo_own])\<rparr>) q f, w)),
     ae_EnableWebSearch = False, ae_registry_names = [retrieveToolName], ae_history_store = None,
     ae_history_load = (\<lambda>_ w. (Inr [], w)), ae_local_turns = (\<lambda>_. []), ae_take_clear = (\<lambda>w. (False, w)),
     ae_MaxHistoryRounds = 0, ae_HistoryFailOpen = False, ae_provider = None, ae_ProviderFailOpen = False, ae_ltm = None,
     ae_memory_config = \<lparr>mc_TopK = 1, mc_Threshold = 0, mc_TTL = 0, mc_MaxStoredRunes = 0, mc_Namespace = ''''\<rparr>,
     ae_limits = \<lparr>pl_MaxPromptTokens = 0, pl_MaxHistoryTokens = 0, pl_MaxEvidenceTokens = 0, pl_MaxMemoryTokens = 0,
       pl_MaxSummaryTokens = 0, pl_EnablePromptHardening = True\<rparr>,
     ae_ReasoningEffort = '''', ae_PromptCache = None, ae_model_name = ''m'',
     ae_Ask = (\<lambda>_. refuse (errorf '''' [])), ae_AskStream = (\<lambda>_ _. no_effect)\<rparr>"

definition demo_model :: "unit chat_model" where
  "demo_model = \<lparr>cm_Generate = (\<lambda>_ w. ((text_message RoleAssistant ''yes'', None), w)),
     cm_Stream = (\<lambda>_ w. (StreamEmit ''yes'' (\<lambda>e. StreamEnd () e), w)), cm_WithOptions = None\<rparr>"

definition demo_chat :: "unit agent_env" where
  "demo_chat = with_chat None (\<lambda>s. s) demo_model [] demo_env"

abbreviation demo_options :: query_options where
  "demo_options \<equiv> \<lparr>qo_Filter = empty_filter, qo_MemoryScope = \<lparr>ms_UserID = '''', ms_Tenant = ''''\<rparr>\<rparr>"

lemma demo_found:
  obtains m where "ae_SearchDetailed demo_chat ''q''
     \<lparr>sf_SourcePaths = [], sf_SourcePrefixes = [''/kb/t1''], sf_Metadata = [namespaceKey \<mapsto> ''a'']\<rparr>
   = (\<lambda>w. (([to_hit (demo_own, 1)], m, [], None), w))"
proof -
  have b: "\<not> blank ''q''" by code_simp
  let ?f = "\<lparr>sf_SourcePaths = [], sf_SourcePrefixes = [''/kb/t1''], sf_Metadata = [namespaceKey \<mapsto> ''a'']\<rparr>"
  let ?r = "(demo_retriever [])\<lparr>rr_search := (\<lambda>q n t f. chromem_SearchWithFilter (list_collection (\<lambda>_ _. 1)) [namespaceKey] q n t f [demo_own])\<rparr>"
  have "vectorOnlySearch ?r [1] ?f = Inr [to_hit (demo_own, 1)]"
    by (simp add: vectorOnlySearch_def demo_retriever_def demo_search)
  then have "\<exists>m. default_SearchDetailed ?r ''q'' ?f = ([to_hit (demo_own, 1)], m, [], None)"
    by (simp add: default_SearchDetailed_def searchDetailed_def b Let_def) (simp add: demo_retriever_def)
  then show ?thesis using that by (auto simp: demo_chat_def with_chat_def demo_env_def)
qed

lemma demo_evidence: "assemble_evidence [to_hit (demo_own, 1)] = Inr ([to_hit (demo_own, 1)], ''[p:0] x'')"
  by (simp add: assemble_evidence_def assembleContext_def hit_to_chunk_def to_hit_def demo_own_chunk demo_record_def bracket_def hit_id_def Let_def)

lemma demo_answer:
  obtains a where "askWithFormat demo_chat ''s'' ''q'' demo_options '''' None () = (Inr a, ())"
    "an_Citations a = citationsFromHits [to_hit (demo_own, 1)]"
proof -
  obtain m where found: "ae_SearchDetailed demo_chat ''q''
     \<lparr>sf_SourcePaths = [], sf_SourcePrefixes = [''/kb/t1''], sf_Metadata = [namespaceKey \<mapsto> ''a'']\<rparr>
   = (\<lambda>w. (([to_hit (demo_own, 1)], m, [], None), w))" by (rule demo_found)
  have q: "rewriteFollowUp ''q'' [] = ''q''" by code_simp
  have ev: "\<not> blank ''[p:0] x''" by code_simp
  have env: "ae_history_store demo_chat = None" "ae_local_turns demo_chat w = []" "ae_boundary demo_chat = demo_boundary"
    "ae_MaxToolCalls demo_chat = 0" "ae_callback demo_chat = (\<lambda>_ w. (None, w))" "\<not> ae_has_callbacks demo_chat"
    "ae_provider demo_chat = None" "ae_ltm demo_chat = None" "ae_PromptCache demo_chat = None"
    "ae_ReasoningEffort demo_chat = ''''" "ae_ctx_err demo_chat () = None" "\<not> ae_has_logger demo_chat"
    "ae_Ask demo_chat = chat_Ask None (\<lambda>s. s) (lift_model demo_model) []" for w
    by (simp_all add: demo_chat_def with_chat_def demo_env_def)
  let ?st = "start_state demo_chat ''s'' ''q'' demo_options False ()"
  have cb: "callback demo_chat ev st = (None, st)" "emitMetrics demo_chat ev st = (None, st)" for ev st
    by (simp_all add: callback_def on_world_def emitMetrics_def env)
  have f: "accessBoundaryFilter demo_chat ''s'' ''q'' demo_options st =
      (Inr \<lparr>sf_SourcePaths = [], sf_SourcePrefixes = [''/kb/t1''], sf_Metadata = [namespaceKey \<mapsto> ''a'']\<rparr>, st)" for st
    using demo_retrieval by (simp add: accessBoundaryFilter_def env AccessBoundary.demo_request_def)
  have ret: "\<exists>st'. retrieve_or_fall_back demo_chat ''q''
       \<lparr>sf_SourcePaths = [], sf_SourcePrefixes = [''/kb/t1''], sf_Metadata = [namespaceKey \<mapsto> ''a'']\<rparr> st
     = (Inr ([to_hit (demo_own, 1)], ''[p:0] x''), st') \<and> ak_collector st' = ak_collector st" if "ak_used st = 0" for st
    using that
    by (simp add: retrieve_or_fall_back_def normalized_def retrieve_def andThen_def perform_def acquire_tool_def newToolCallBudget_def
        env cb change_def retrieve_body_def on_world_def found Let_def demo_evidence end_retrieve_def)
      (simp add: traced_def traced_now_def)
  have mem: "retrieveMemoryText demo_chat ''s'' ''q'' [] demo_options st = (Inr '''', st)"
    "storeMemory demo_chat ''s'' ''q'' x demo_options st = (None, st)"
    "commitHistory demo_chat ''s'' ''q'' x st = (None, st)" for st x
    by (simp_all add: retrieveMemoryText_def storeMemory_def commitHistory_def env on_world_def retrieveLongTermMemory_def storeLongTermMemory_def)
  have gen: "\<exists>st'. generate_answer demo_chat (ask_request demo_chat None ''q'' [] ''[p:0] x'' '''' '''' None) st = (Inr ''yes'', st')
      \<and> ak_collector st' = ak_collector st" for st
    by (simp add: generate_answer_def andThen_def perform_def cb run_model_def normalized_def env chat_Ask_def messagesForRequest_def
        ask_request_def ask_cache_def messagesForRequestUncached_def ev generateOptionsFor_def observe_cache_def lift_model_def
        demo_model_def on_world_def err_of_def first_err_def Let_def)
      (simp add: traced_def)
  have hist: "loadHistory demo_chat ''s'' st = (Inr [], st)" for st by (simp add: loadHistory_def env)
  let ?st1 = "traced (upd_trace (\<lambda>t. t\<lparr>et_RewrittenQuery := ''q''\<rparr>)) ?st"
  have "ak_used ?st1 = 0" "ak_collector ?st1 = \<lparr>wc_results = [], wc_emitted = 0\<rparr>"
    by (simp_all add: start_state_def traced_def)
  then obtain st2 where 2: "retrieve_or_fall_back demo_chat ''q''
       \<lparr>sf_SourcePaths = [], sf_SourcePrefixes = [''/kb/t1''], sf_Metadata = [namespaceKey \<mapsto> ''a'']\<rparr> ?st1
     = (Inr ([to_hit (demo_own, 1)], ''[p:0] x''), st2)" "ak_collector st2 = \<lparr>wc_results = [], wc_emitted = 0\<rparr>"
    using ret [of ?st1] by auto
  obtain st3 where 3: "generate_answer demo_chat (ask_request demo_chat None ''q'' [] ''[p:0] x'' '''' '''' None) st2 = (Inr ''yes'', st3)"
    "ak_collector st3 = ak_collector st2" using gen [of st2] by blast
  have cs: "snapshotCitations h \<lparr>wc_results = [], wc_emitted = 0\<rparr> = []" for h
    by (simp add: snapshotCitations_def citationsFromWebResults_def)
  have "\<exists>st4. ask_body demo_chat ''s'' ''q'' demo_options '''' None ?st
    = (Inr \<lparr>an_Text = ''yes'', an_Citations = citationsFromHits [to_hit (demo_own, 1)], an_Trace = None\<rparr>, st4)"
    by (simp add: ask_body_def andThen_def hist userQueries_def q change_def f 2 3 normalized_def mem perform_def give_def
        answer_citations_def cs Let_def)
  then obtain st4 where "ask_body demo_chat ''s'' ''q'' demo_options '''' None ?st
    = (Inr \<lparr>an_Text = ''yes'', an_Citations = citationsFromHits [to_hit (demo_own, 1)], an_Trace = None\<rparr>, st4)" ..
  moreover have "recordExecutionTrace demo_chat t st = (None, st)" for t st
    by (simp add: recordExecutionTrace_def env cb no_effect_def effThen_def)
  ultimately show ?thesis using that by (auto simp: askWithFormat_def env close_ask_def Let_def)
qed



end
