(* ===== verification/ToolRunner.thy ===== *)
theory ToolRunner
  imports Prompt
begin

section \<open>The tool-calling runner\<close>

text \<open>
  \<^verbatim>\<open>tool_calling_runner.go\<close>: the bounded loop in which the model asks for tools, with the native
  tool protocol of the platform or with JSON envelopes in plain text. A failure that goes back
  to the model is \<open>Recoverable\<close>, one that ends the question is \<open>Fatal\<close>. The JSON codec, the context
  and the tokenizer are parameters; the errors of an observer or a policy are their own, they do
  not wrap the recoverable error they were shown.
\<close>

subsection \<open>Configuration and environment\<close>

record 'w runner_cfg =
  rn_MaxToolCalls :: int
  rn_MaxIterations :: int
  rn_Policy :: "(string \<Rightarrow> arguments \<Rightarrow> 'w effect) option"

record 'w runner =
  rn_model :: "'w chat_model"
  rn_tools :: "'w tool_registry"
  rn_cfg :: "'w runner_cfg"

record tool_call_envelope =
  env_ToolCall :: "(string \<times> arguments option) option"
  env_Final :: string

record 'w runner_env =
  re_json :: json_codec
  re_envelope :: "string \<Rightarrow> tool_call_envelope result"
  re_schema :: "tool_schema \<Rightarrow> string"
  re_encoder :: encoder
  re_ctx_err :: "'w \<Rightarrow> go_error option"

datatype tool_error = Recoverable go_error | Fatal go_error

definition newToolCallingRunner ::
  "'w chat_model option \<Rightarrow> 'w tool_registry option \<Rightarrow> 'w runner_cfg \<Rightarrow> 'w runner result" where
  "newToolCallingRunner model registry cfg = (case model of
     None \<Rightarrow> Inl (invalid_config ''chat model is required: ragagent: invalid config'')
   | Some m \<Rightarrow>
      (if registry_tools registry = [] then Inl (invalid_config ''tool registry requires at least one tool: ragagent: invalid config'')
       else let cfg = (if rn_MaxIterations cfg = 0 then cfg\<lparr>rn_MaxIterations := 3\<rparr> else cfg) in
         if rn_MaxIterations cfg < 0 then Inl (invalid_config ''max iterations must be non-negative: ragagent: invalid config'')
         else if rn_MaxToolCalls cfg < 0 then Inl (invalid_config ''max tool calls must be non-negative: ragagent: invalid config'')
         else Inr \<lparr>rn_model = m, rn_tools = registry_clone registry, rn_cfg = cfg\<rparr>))"

definition plainToolSchema :: tool_schema where
  "plainToolSchema = \<lparr>sc_Description = '''', sc_Properties = [(''input'', \<lparr>tp_Type = ToolParameterString,
     tp_Description = ''Plain-text input for the tool.'', tp_Enum = [], tp_MinLength = 0, tp_MaxLength = 0,
     tp_Minimum = None, tp_Maximum = None\<rparr>)], sc_Required = [''input'']\<rparr>"

definition envelopeSystemPrompt :: string where
  "envelopeSystemPrompt = ''You may either answer directly or request one tool call. ''
     @ ''To call a tool, output JSON exactly as {\"tool_call\":{\"name\":\"tool_name\",\"arguments\":{...}}}. ''
     @ ''To finish with JSON, output {\"final\":\"answer\"}. Otherwise output the final answer text.''"

definition nativeSystemPrompt :: string where
  "nativeSystemPrompt = ''Use the available tools whenever you need information beyond the provided context. ''
     @ ''After tool results arrive, answer the user directly.''"

definition toolDefinitions :: "'w runner \<Rightarrow> tool_definition list" where
  "toolDefinitions rn = map (\<lambda>t. \<lparr>td_Name = tl_Name t, td_Description = tl_Description t,
     td_Parameters = (case tl_Structured t of None \<Rightarrow> plainToolSchema | Some s \<Rightarrow> s)\<rparr>) (registry_tools (Some (rn_tools rn)))"

definition toolDescriptions :: "'w runner_env \<Rightarrow> 'w runner \<Rightarrow> string" where
  "toolDescriptions env rn = join_with NL (map (\<lambda>d. ''- '' @ td_Name d @ '': '' @ td_Description d @ '' schema=''
     @ re_schema env (td_Parameters d)) (toolDefinitions rn))"

definition call_limit :: "'w runner \<Rightarrow> go_error" where
  "call_limit rn = sentinel_first ''ragagent: tool call limit exceeded'' ErrToolCallLimitExceeded
     (''tool call limit='' @ itoa (rn_MaxToolCalls (rn_cfg rn)))"

definition iteration_limit :: "'w runner \<Rightarrow> go_error" where
  "iteration_limit rn = sentinel_first ''ragagent: tool call limit exceeded'' ErrToolCallLimitExceeded
     (''max iterations='' @ itoa (rn_MaxIterations (rn_cfg rn)))"

definition call_invalid :: "string \<Rightarrow> go_error" where
  "call_invalid = sentinel_first ''ragagent: tool call invalid'' ErrToolCallInvalid"

subsection \<open>One tool call\<close>

definition call_start :: "'w request \<Rightarrow> string \<Rightarrow> 'w effect" where
  "call_start req name w = (case rq_ToolObserver req of None \<Rightarrow> (None, w) | Some ob \<Rightarrow> to_OnToolStart ob name w)"

definition call_end :: "'w request \<Rightarrow> string \<Rightarrow> go_error option \<Rightarrow> 'w effect" where
  "call_end req name err w = (case rq_ToolObserver req of None \<Rightarrow> (None, w) | Some ob \<Rightarrow> to_OnToolEnd ob name err w)"

definition err_value :: "tool_error \<Rightarrow> go_error" where
  "err_value e = (case e of Recoverable e \<Rightarrow> e | Fatal e \<Rightarrow> e)"

text \<open>A failure before the tool ran, shown to the observer.\<close>

definition fail_call :: "'w request \<Rightarrow> string \<Rightarrow> tool_error \<Rightarrow> 'w \<Rightarrow> (tool_error + string) \<times> 'w" where
  "fail_call req name e w = (case call_end req name (Some (err_value e)) w of
     (Some e', w) \<Rightarrow> (Inl (Fatal e'), w) | (None, w) \<Rightarrow> (Inl e, w))"

definition toolInput :: "json_codec \<Rightarrow> arguments \<Rightarrow> bool \<Rightarrow> string result" where
  "toolInput js args plain = (case (if plain \<and> length args = 1 then map_of args ''input'' else None) of
     Some (AString t) \<Rightarrow> Inr t | _ \<Rightarrow> jc_Encode js (AObject args))"

definition authorize :: "'w runner \<Rightarrow> string \<Rightarrow> arguments \<Rightarrow> 'w effect" where
  "authorize rn name args w = (case rn_Policy (rn_cfg rn) of None \<Rightarrow> (None, w) | Some p \<Rightarrow> p name args w)"

definition run_tool ::
  "'w runner_env \<Rightarrow> 'w request \<Rightarrow> 'w tool \<Rightarrow> string \<Rightarrow> string \<Rightarrow> 'w \<Rightarrow> (tool_error + string) \<times> 'w" where
  "run_tool env req tool name input w = (case tl_Run tool input w of ((result, runErr), w) \<Rightarrow>
     let e = (case runErr of None \<Rightarrow> None
              | Some e \<Rightarrow> Some (if re_ctx_err env w = None then Recoverable e else Fatal e))
     in case call_end req name runErr w of (endErr, w) \<Rightarrow>
        (case e of Some e \<Rightarrow> (Inl e, w)
         | None \<Rightarrow> (case endErr of Some e \<Rightarrow> (Inl (Fatal e), w) | None \<Rightarrow> (Inr result, w))))"

definition execute_known ::
  "'w runner_env \<Rightarrow> 'w runner \<Rightarrow> 'w request \<Rightarrow> 'w tool \<Rightarrow> string \<Rightarrow> arguments \<Rightarrow> 'w \<Rightarrow> (tool_error + string) \<times> 'w" where
  "execute_known env rn req tool name args w =
     (case (case tl_Structured tool of None \<Rightarrow> None | Some s \<Rightarrow> validateToolArguments (re_json env) s args) of
        Some e \<Rightarrow> fail_call req name (Recoverable e) w
      | None \<Rightarrow> (case call_start req name w of
          (Some e, w) \<Rightarrow> (Inl (Fatal e), w)
        | (None, w) \<Rightarrow> (case toolInput (re_json env) args (tl_Structured tool = None) of
            Inl e \<Rightarrow> fail_call req name (Recoverable (errorf (''ragagent: tool argument invalid: marshal arguments for tool ''
                @ quoted name @ '': '' @ err_text e) [sentinel_error ''ragagent: tool argument invalid'' ErrToolArgumentInvalid, e])) w
          | Inr input \<Rightarrow> run_tool env req tool name input w)))"

definition executeToolCall ::
  "'w runner_env \<Rightarrow> 'w runner \<Rightarrow> 'w request \<Rightarrow> string \<Rightarrow> arguments \<Rightarrow> 'w \<Rightarrow> (tool_error + string) \<times> 'w" where
  "executeToolCall env rn req callName args w = (let name = trim_space callName in
     if name = '''' then (Inl (Recoverable (call_invalid ''tool name is required'')), w)
     else case reg_tools (rn_tools rn) name of
       None \<Rightarrow> fail_call req name (Recoverable (call_invalid (''unknown tool '' @ quoted name))) w
     | Some tool \<Rightarrow> (case authorize rn name args w of
         (Some e, w) \<Rightarrow> fail_call req name (Fatal (errorf (''ragagent: tool call denied: tool '' @ quoted name @ '': '' @ err_text e)
             [sentinel_error ''ragagent: tool call denied'' ErrToolCallDenied, e])) w
       | (None, w) \<Rightarrow> execute_known env rn req tool name args w))"

subsection \<open>The native protocol\<close>

definition decodeToolArguments :: "json_codec \<Rightarrow> string \<Rightarrow> arguments result" where
  "decodeToolArguments js raw = (if blank raw then Inr []
     else map_sum id (\<lambda>a. case a of None \<Rightarrow> [] | Some args \<Rightarrow> args) (jc_Decode js raw))"

definition encodeToolError :: "json_codec \<Rightarrow> go_error \<Rightarrow> string" where
  "encodeToolError js e =
     (let message = (if err_is e ErrToolCallInvalid \<or> err_is e ErrToolArgumentInvalid then err_text e else ''tool execution failed'')
      in case jc_Encode js (AObject [(''error'', AString message)]) of Inr d \<Rightarrow> d | Inl _ \<Rightarrow> '''')"

definition tool_answer :: "json_codec \<Rightarrow> tool_error + string \<Rightarrow> string result" where
  "tool_answer js r = (case r of Inr result \<Rightarrow> Inr result | Inl (Fatal e) \<Rightarrow> Inl e
     | Inl (Recoverable e) \<Rightarrow> Inr (encodeToolError js e))"

definition runNativeToolCall ::
  "'w runner_env \<Rightarrow> 'w runner \<Rightarrow> 'w request \<Rightarrow> tool_call \<Rightarrow> (string, 'w) action" where
  "runNativeToolCall env rn req call w =
     (case (case decodeToolArguments (re_json env) (tc_Arguments call) of
        Inl e \<Rightarrow> fail_call req (trim_space (tc_Name call)) (Recoverable (errorf (''ragagent: tool argument invalid: decode arguments for tool ''
            @ quoted (tc_Name call) @ '': '' @ err_text e) [sentinel_error ''ragagent: tool argument invalid'' ErrToolArgumentInvalid, e])) w
      | Inr args \<Rightarrow> executeToolCall env rn req (tc_Name call) args w) of
        (r, w) \<Rightarrow> (tool_answer (re_json env) r, w))"

text \<open>The loop's own state beside the world: the answer built, the steps emitted, and whether the round
  has put out text. \<open>emit\<close> is nothing for a synchronous question.\<close>

record 'w loop_state =
  lp_world :: 'w
  lp_answer :: string
  lp_step :: nat
  lp_started :: bool

type_synonym 'w event_sink = "(graph_event \<Rightarrow> 'w effect) option"

definition send_chunk :: "'w event_sink \<Rightarrow> string \<Rightarrow> 'w loop_state effect" where
  "send_chunk emit chunk st = (case emit of None \<Rightarrow> (None, st) | Some f \<Rightarrow>
     (case f \<lparr>ge_Type = GraphAnswerChunk, ge_Content = chunk, ge_Step = Suc (lp_step st)\<rparr> (lp_world st) of
        (e, w) \<Rightarrow> (e, st\<lparr>lp_world := w, lp_step := Suc (lp_step st)\<rparr>)))"

definition start_round :: "'w event_sink \<Rightarrow> 'w loop_state effect" where
  "start_round emit st = (if lp_answer st = '''' \<or> has_suffix (lp_answer st) NL then (None, st)
     else send_chunk emit NL (st\<lparr>lp_answer := lp_answer st @ NL\<rparr>))"

definition native_chunk :: "'w event_sink \<Rightarrow> string \<Rightarrow> 'w loop_state effect" where
  "native_chunk emit chunk st =
     (case (if lp_started st then (None, st) else start_round emit (st\<lparr>lp_started := True\<rparr>)) of
        (Some e, st) \<Rightarrow> (Some e, st)
      | (None, st) \<Rightarrow> send_chunk emit chunk (st\<lparr>lp_answer := lp_answer st @ chunk\<rparr>))"

definition native_generate ::
  "'w options_model \<Rightarrow> generate_options \<Rightarrow> 'w event_sink \<Rightarrow> message list \<Rightarrow> 'w loop_state
   \<Rightarrow> (message \<times> go_error option) \<times> 'w loop_state" where
  "native_generate om opts emit msgs st = (case emit of
     Some _ \<Rightarrow> (case om_Stream om msgs opts (lp_world st) of (script, w) \<Rightarrow>
       (case run_stream (native_chunk emit) script [] (st\<lparr>lp_world := w, lp_started := False\<rparr>) of ((res, _), st) \<Rightarrow> (res, st)))
   | None \<Rightarrow> (case om_Generate om msgs opts (lp_world st) of ((msg, err), w) \<Rightarrow>
       let st = st\<lparr>lp_world := w\<rparr> in
       if err = None \<and> msg_Content msg \<noteq> ''''
       then (case start_round None st of (_, st) \<Rightarrow> ((msg, err), st\<lparr>lp_answer := lp_answer st @ msg_Content msg\<rparr>))
       else ((msg, err), st)))"

definition tool_message :: "tool_call \<Rightarrow> string \<Rightarrow> message" where
  "tool_message call result = \<lparr>msg_Role = RoleTool, msg_Content = result, msg_ToolCalls = [], msg_ToolCallID = tc_ID call\<rparr>"

fun native_calls ::
  "'w runner_env \<Rightarrow> 'w runner \<Rightarrow> 'w request \<Rightarrow> tool_call list \<Rightarrow> message list \<Rightarrow> nat \<Rightarrow> 'w
   \<Rightarrow> (message list \<times> nat) result \<times> 'w" where
  "native_calls env rn req [] msgs used w = (Inr (msgs, used), w)"
| "native_calls env rn req (c # cs) msgs used w =
     (if int used \<ge> rn_MaxToolCalls (rn_cfg rn) then (Inl (call_limit rn), w)
      else case runNativeToolCall env rn req c w of
        (Inl e, w) \<Rightarrow> (Inl e, w)
      | (Inr result, w) \<Rightarrow> native_calls env rn req cs (msgs @ [tool_message c result]) (Suc used) w)"

text \<open>The first argument counts the rounds left.\<close>

fun native_loop ::
  "nat \<Rightarrow> 'w runner_env \<Rightarrow> 'w runner \<Rightarrow> 'w request \<Rightarrow> 'w options_model \<Rightarrow> generate_options \<Rightarrow> 'w event_sink
   \<Rightarrow> message list \<Rightarrow> nat \<Rightarrow> 'w loop_state \<Rightarrow> string result \<times> 'w loop_state" where
  "native_loop 0 env rn req om opts emit msgs used st = (Inl (iteration_limit rn), st)"
| "native_loop (Suc n) env rn req om opts emit msgs used st =
     (case re_ctx_err env (lp_world st) of Some e \<Rightarrow> (Inl e, st)
      | None \<Rightarrow> (case native_generate om opts emit msgs st of
          ((msg, Some e), st) \<Rightarrow> (Inl (wrap_err ''generate tool-calling response'' e), st)
        | ((msg, None), st) \<Rightarrow>
           (if msg_ToolCalls msg = [] then (Inr (lp_answer st), st)
            else (case native_calls env rn req (msg_ToolCalls msg) (msgs @ [msg]) used (lp_world st) of
              (Inl e, w) \<Rightarrow> (Inl e, st\<lparr>lp_world := w\<rparr>)
            | (Inr (msgs, used), w) \<Rightarrow> native_loop n env rn req om opts emit msgs used (st\<lparr>lp_world := w\<rparr>)))))"

definition askNative ::
  "'w runner_env \<Rightarrow> 'w runner \<Rightarrow> 'w request \<Rightarrow> 'w options_model \<Rightarrow> 'w event_sink \<Rightarrow> 'w loop_state
   \<Rightarrow> string result \<times> 'w loop_state" where
  "askNative env rn req om emit st =
     native_loop (nat (rn_MaxIterations (rn_cfg rn))) env rn req om
       \<lparr>go_Tools = toolDefinitions rn, go_ResponseFormat = rq_ResponseFormat req, go_ReasoningEffort = rq_ReasoningEffort req\<rparr>
       emit (text_message RoleSystem nativeSystemPrompt # promptMessages (re_encoder env) req) 0 st"

subsection \<open>The envelope protocol\<close>

definition parseToolCallMessage :: "'w runner_env \<Rightarrow> string \<Rightarrow> ((string \<times> arguments) \<times> string \<times> bool) result" where
  "parseToolCallMessage env content = (let trimmed = trim_space content in
     if \<not> has_prefix trimmed ''{'' then Inr (('''', []), '''', False)
     else case re_envelope env trimmed of
       Inl e \<Rightarrow> Inl (call_invalid (''parse tool call envelope: '' @ err_text e))
     | Inr env \<Rightarrow>
        (if \<not> blank (env_Final env) then Inr (('''', []), env_Final env, True)
         else case env_ToolCall env of
           None \<Rightarrow> Inr (('''', []), '''', False)
         | Some (name, args) \<Rightarrow> Inr ((name, case args of None \<Rightarrow> [] | Some a \<Rightarrow> a), '''', True)))"

definition envelopeMessages :: "'w runner_env \<Rightarrow> 'w runner \<Rightarrow> 'w request \<Rightarrow> message list" where
  "envelopeMessages env rn req = (let prompt = promptMessages (re_encoder env) req in
     [text_message RoleSystem envelopeSystemPrompt] @ butlast prompt
     @ [text_message RoleUser (''Available tools:'' @ NL @ toolDescriptions env rn), last prompt])"

fun envelope_loop ::
  "nat \<Rightarrow> 'w runner_env \<Rightarrow> 'w runner \<Rightarrow> 'w request \<Rightarrow> message list \<Rightarrow> nat \<Rightarrow> (string, 'w) action" where
  "envelope_loop 0 env rn req msgs used w = (Inl (iteration_limit rn), w)"
| "envelope_loop (Suc n) env rn req msgs used w =
     (case re_ctx_err env w of Some e \<Rightarrow> (Inl e, w)
      | None \<Rightarrow> (case cm_Generate (rn_model rn) msgs w of
          ((msg, Some e), w) \<Rightarrow> (Inl (wrap_err ''generate tool-calling response'' e), w)
        | ((msg, None), w) \<Rightarrow> (case parseToolCallMessage env (msg_Content msg) of
            Inl e \<Rightarrow> (Inl e, w)
          | Inr ((name, args), final, ok) \<Rightarrow>
             (if \<not> ok then (Inr (msg_Content msg), w)
              else if \<not> blank final then (Inr final, w)
              else if int used \<ge> rn_MaxToolCalls (rn_cfg rn) then (Inl (call_limit rn), w)
              else (case executeToolCall env rn req name args w of
                (Inl e, w) \<Rightarrow> (Inl (err_value e), w)
              | (Inr result, w) \<Rightarrow> envelope_loop n env rn req
                  (msgs @ [text_message RoleAssistant (msg_Content msg),
                           text_message RoleUser (''Tool result for '' @ name @ '':'' @ NL @ result)]) (Suc used) w)))))"

definition askEnvelope :: "'w runner_env \<Rightarrow> 'w runner \<Rightarrow> 'w request \<Rightarrow> (string, 'w) action" where
  "askEnvelope env rn req = envelope_loop (nat (rn_MaxIterations (rn_cfg rn))) env rn req (envelopeMessages env rn req) 0"

subsection \<open>Questions\<close>

definition loop_start :: "'w \<Rightarrow> 'w loop_state" where
  "loop_start w = \<lparr>lp_world = w, lp_answer = '''', lp_step = 0, lp_started = False\<rparr>"

definition runner_Ask :: "'w runner_env \<Rightarrow> 'w runner \<Rightarrow> 'w request \<Rightarrow> (string, 'w) action" where
  "runner_Ask env rn req w = (case re_ctx_err env w of Some e \<Rightarrow> (Inl e, w)
     | None \<Rightarrow> (case cm_WithOptions (rn_model rn) of
         Some om \<Rightarrow> (case askNative env rn req om None (loop_start w) of (r, st) \<Rightarrow> (r, lp_world st))
       | None \<Rightarrow> askEnvelope env rn req w))"

definition runner_AskStream :: "'w runner_env \<Rightarrow> 'w runner \<Rightarrow> 'w request \<Rightarrow> 'w event_sink \<Rightarrow> 'w effect" where
  "runner_AskStream env rn req emit w = (case emit of None \<Rightarrow> (Some (errorf ''stream emitter is required'' []), w)
     | Some f \<Rightarrow> (case re_ctx_err env w of Some e \<Rightarrow> (Some e, w)
       | None \<Rightarrow> (case cm_WithOptions (rn_model rn) of
           Some om \<Rightarrow> (case askNative env rn req om emit (loop_start w) of
               (Inl e, st) \<Rightarrow> (Some e, lp_world st)
             | (Inr _, st) \<Rightarrow> f \<lparr>ge_Type = GraphDone, ge_Content = '''', ge_Step = lp_step st\<rparr> (lp_world st))
         | None \<Rightarrow> (case askEnvelope env rn req w of
               (Inl e, w) \<Rightarrow> (Some e, w)
             | (Inr answer, w) \<Rightarrow>
                 (case (if blank answer then (None, loop_start w) else send_chunk emit answer (loop_start w)) of
                    (Some e, st) \<Rightarrow> (Some e, lp_world st)
                  | (None, st) \<Rightarrow> f \<lparr>ge_Type = GraphDone, ge_Content = '''', ge_Step = lp_step st\<rparr> (lp_world st))))))"

subsection \<open>What the loops keep\<close>

definition within_bounds :: "(nat \<Rightarrow> nat \<Rightarrow> 'w \<Rightarrow> bool) \<Rightarrow> nat \<Rightarrow> nat \<Rightarrow> 'w \<Rightarrow> bool" where
  "within_bounds P B M w \<longleftrightarrow> (\<exists>k \<le> B. \<exists>j \<le> M. P k j w)"

lemma within_boundsI: "P k j w \<Longrightarrow> k \<le> B \<Longrightarrow> j \<le> M \<Longrightarrow> within_bounds P B M w"
  by (auto simp: within_bounds_def)

text \<open>
  The interface the loops have to the model, the tools, the policy and the observer: \<open>P k m\<close> may
  hold after \<open>k\<close> tool runs and \<open>m\<close> model calls; the tools named in \<open>denied\<close> are those the policy
  always refuses, and nothing is asked of them.
\<close>

locale bounded_tools =
  fixes rn :: "'w runner" and req :: "'w request" and emit :: "'w event_sink"
    and P :: "nat \<Rightarrow> nat \<Rightarrow> 'w \<Rightarrow> bool" and denied :: "string set"
  assumes generate: "P k m w \<Longrightarrow> P k (Suc m) (snd (cm_Generate (rn_model rn) msgs w))"
    and options: "cm_WithOptions (rn_model rn) = Some om \<Longrightarrow> P k m w \<Longrightarrow> P k (Suc m) (snd (om_Generate om msgs opts w))"
      "cm_WithOptions (rn_model rn) = Some om \<Longrightarrow> P k m w \<Longrightarrow> P k (Suc m) (snd (om_Stream om msgs opts w))"
    and run: "reg_tools (rn_tools rn) n = Some t \<Longrightarrow> n \<notin> denied \<Longrightarrow> P k m w \<Longrightarrow> P (Suc k) m (snd (tl_Run t input w))"
    and observer: "rq_ToolObserver req = Some ob \<Longrightarrow> keeps (P k m) (to_OnToolStart ob n)"
      "rq_ToolObserver req = Some ob \<Longrightarrow> keeps (P k m) (to_OnToolEnd ob n err)"
    and policy: "rn_Policy (rn_cfg rn) = Some p \<Longrightarrow> keeps (P k m) (p n args)"
      "n \<in> denied \<Longrightarrow> \<exists>p. rn_Policy (rn_cfg rn) = Some p \<and> (\<forall>args w. fst (p n args w) \<noteq> None)"
    and sink: "emit = Some f \<Longrightarrow> keeps (P k m) (f ev)"
    and later: "P k m w \<Longrightarrow> P (Suc k) m w" "P k m w \<Longrightarrow> P k (Suc m) w"
begin

lemma call_ends: "keeps (P k m) (call_start req n)" "keeps (P k m) (call_end req n err)"
  using observer by (auto simp: keeps_def call_start_def call_end_def split: option.split)

lemma fail_call_keeps: "P k m w \<Longrightarrow> P k m (snd (fail_call req n e w))"
  using call_ends(2) [of k m n "Some (err_value e)"] by (auto simp: keeps_def fail_call_def split: prod.split option.split)

lemma run_tool_counts:
  assumes "reg_tools (rn_tools rn) n = Some t" "n \<notin> denied" "P k m w"
  shows "P (Suc k) m (snd (run_tool env req t n input w))"
proof -
  obtain r e w1 where r: "tl_Run t input w = ((r, e), w1)" by (metis prod.exhaust)
  obtain e2 w2 where 2: "call_end req n e w1 = (e2, w2)" by fastforce
  have "P (Suc k) m w1" using run [OF assms] r by (metis snd_conv)
  then have "P (Suc k) m w2" by (rule keepsD [OF call_ends(2) 2])
  then show ?thesis by (simp add: run_tool_def r 2 Let_def split: option.split)
qed

lemma execute_known_counts:
  assumes "reg_tools (rn_tools rn) n = Some t" "n \<notin> denied" "P k m w"
  shows "P (Suc k) m (snd (execute_known env rn req t n args w))"
proof -
  obtain e w1 where 1: "call_start req n w = (e, w1)" by fastforce
  then have w1: "P k m w1" using keepsD [OF call_ends(1) 1 assms(3)] by simp
  show ?thesis
    using later(1) [OF fail_call_keeps [OF assms(3)]] later(1) [OF fail_call_keeps [OF w1]] later(1) [OF w1]
      run_tool_counts [OF assms(1,2) w1]
    by (simp add: execute_known_def 1 split: option.split sum.split)
qed

lemma execute_counts:
  assumes "P k m w"
  shows "P (Suc k) m (snd (executeToolCall env rn req name args w))"
proof (cases "trim_space name = ''''")
  case True
  then show ?thesis using later(1) [OF assms] by (simp add: executeToolCall_def Let_def)
next
  case named: False
  let ?n = "trim_space name"
  show ?thesis
  proof (cases "reg_tools (rn_tools rn) ?n")
    case None
    then show ?thesis using later(1) [OF fail_call_keeps [OF assms]] named by (simp add: executeToolCall_def Let_def)
  next
    case (Some t)
    obtain e w1 where 1: "authorize rn ?n args w = (e, w1)" by fastforce
    then have w1: "P k m w1" using keepsD [OF policy(1)] assms
      by (auto simp: authorize_def split: option.split_asm)
    show ?thesis
    proof (cases e)
      case None
      then have "?n \<notin> denied" using 1 policy(2) [of ?n] by (auto simp: authorize_def) (metis fst_conv option.distinct(1))
      with None show ?thesis using execute_known_counts [OF Some _ w1] named by (simp add: executeToolCall_def Some 1 Let_def)
    next
      case (Some e')
      then show ?thesis using later(1) [OF fail_call_keeps [OF w1]] named \<open>reg_tools (rn_tools rn) ?n = Some t\<close>
        by (simp add: executeToolCall_def 1 Let_def)
    qed
  qed
qed

lemma native_call_counts: "P k m w \<Longrightarrow> P (Suc k) m (snd (runNativeToolCall env rn req c w))"
  using execute_counts [of k m w env "tc_Name c"] later(1) [OF fail_call_keeps]
  by (auto simp: runNativeToolCall_def split: sum.split prod.split) (metis snd_conv)+

lemma native_calls_count:
  assumes "native_calls env rn req cs msgs used w = (r, w')" "P used m w" "used \<le> nat (rn_MaxToolCalls (rn_cfg rn))"
  obtains k where "k \<le> nat (rn_MaxToolCalls (rn_cfg rn))" "P k m w'" "\<And>msgs' u. r = Inr (msgs', u) \<Longrightarrow> u = k"
  using assms
proof (induction cs arbitrary: msgs used w thesis)
  case (Cons c cs)
  show ?case
  proof (cases "int used \<ge> rn_MaxToolCalls (rn_cfg rn)")
    case True
    then show ?thesis using Cons.prems by auto
  next
    case False
    then have le: "Suc used \<le> nat (rn_MaxToolCalls (rn_cfg rn))" by simp
    obtain q w1 where q: "runNativeToolCall env rn req c w = (q, w1)" by fastforce
    then have w1: "P (Suc used) m w1" using native_call_counts [OF Cons.prems(3)] by (metis snd_conv)
    show ?thesis
    proof (cases q)
      case (Inl e)
      then have "r = Inl e" "w' = w1" using Cons.prems(2) False q by simp_all
      then show ?thesis using Cons.prems(1) [OF le] w1 by simp
    next
      case (Inr x)
      then have "native_calls env rn req cs (msgs @ [tool_message c x]) (Suc used) w1 = (r, w')"
        using Cons.prems(2) False q by simp
      from Cons.IH [OF _ this w1 le] Cons.prems(1) show ?thesis by blast
    qed
  qed
qed auto

lemma send_chunk_keeps: "keeps (\<lambda>st. P k m (lp_world st)) (send_chunk emit chunk)"
  using sink by (auto simp: keeps_def send_chunk_def split: option.split prod.split) (metis snd_conv)

lemma native_chunk_keeps: "keeps (\<lambda>st. P k m (lp_world st)) (native_chunk emit chunk)"
proof (rule keepsI)
  fix st r st'
  assume p: "P k m (lp_world st)" and run: "native_chunk emit chunk st = (r, st')"
  have s: "keeps (\<lambda>st. P k m (lp_world st)) (start_round emit)"
    using send_chunk_keeps [of k m NL] by (simp add: keeps_def start_round_def)
  obtain e st1 where 1: "(if lp_started st then (None, st) else start_round emit (st\<lparr>lp_started := True\<rparr>)) = (e, st1)" by fastforce
  then have "P k m (lp_world st1)" using p keepsD [OF s] by (auto split: if_split_asm)
  then have "P k m (lp_world (snd (send_chunk emit chunk (st1\<lparr>lp_answer := lp_answer st1 @ chunk\<rparr>))))"
    using send_chunk_keeps [of k m chunk] unfolding keeps_def by simp
  then show "P k m (lp_world st')"
    using run 1 \<open>P k m (lp_world st1)\<close> by (auto simp: native_chunk_def split: option.split_asm)
qed

lemma run_stream_keeps:
  assumes "\<And>c. keeps Q (f c)" "Q w"
  shows "Q (snd (run_stream f script cs w))"
  using assms(2)
proof (induction script arbitrary: cs w)
  case (StreamEmit c k)
  obtain e w1 where 1: "f c w = (e, w1)" by fastforce
  have "Q w1" by (rule keepsD [OF assms(1) 1 StreamEmit.prems])
  with StreamEmit.IH [of "k e"] show ?case by (simp add: 1)
qed simp

lemma native_generate_counts:
  assumes "cm_WithOptions (rn_model rn) = Some om" "P k m (lp_world st)"
  shows "P k (Suc m) (lp_world (snd (native_generate om opts emit msgs st)))"
proof (cases emit)
  case None
  obtain msg err w where "om_Generate om msgs opts (lp_world st) = ((msg, err), w)" by (metis prod.exhaust)
  then show ?thesis using options(1) [OF assms, of msgs opts] None
    by (simp add: native_generate_def start_round_def send_chunk_def Let_def split: prod.split)
next
  case (Some f)
  obtain script w where s: "om_Stream om msgs opts (lp_world st) = (script, w)" by fastforce
  then have "P k (Suc m) (lp_world (st\<lparr>lp_world := w, lp_started := False\<rparr>))" using options(2) [OF assms, of msgs opts] by simp
  from run_stream_keeps [where Q = "\<lambda>st. P k (Suc m) (lp_world st)" and f = "native_chunk emit", OF native_chunk_keeps this]
  have "P k (Suc m) (lp_world (snd (run_stream (native_chunk emit) script [] (st\<lparr>lp_world := w, lp_started := False\<rparr>))))" .
  moreover obtain x y st2 where "run_stream (native_chunk emit) script [] (st\<lparr>lp_world := w, lp_started := False\<rparr>) = ((x, y), st2)"
    by (metis surj_pair)
  ultimately show ?thesis by (simp add: native_generate_def Some s)
qed

lemma native_loop_counts:
  assumes "cm_WithOptions (rn_model rn) = Some om" "P used m (lp_world st)" "used \<le> nat (rn_MaxToolCalls (rn_cfg rn))"
  shows "within_bounds P (nat (rn_MaxToolCalls (rn_cfg rn))) (m + n)
    (lp_world (snd (native_loop n env rn req om opts emit msgs used st)))"
  using assms(2,3)
proof (induction n arbitrary: msgs used m st)
  case (Suc n)
  let ?B = "nat (rn_MaxToolCalls (rn_cfg rn))"
  show ?case
  proof (cases "re_ctx_err env (lp_world st)")
    case None
    obtain msg e st1 where g: "native_generate om opts emit msgs st = ((msg, e), st1)" by (metis prod.exhaust)
    then have st1: "P used (Suc m) (lp_world st1)"
      using native_generate_counts [OF assms(1) Suc.prems(1), of opts msgs] by simp
    show ?thesis
    proof (cases "e = None \<and> msg_ToolCalls msg \<noteq> []")
      case True
      obtain q w where q: "native_calls env rn req (msg_ToolCalls msg) (msgs @ [msg]) used (lp_world st1) = (q, w)" by fastforce
      from q st1 Suc.prems(2) obtain k where k: "k \<le> ?B" "P k (Suc m) w" "\<And>msgs' u. q = Inr (msgs', u) \<Longrightarrow> u = k"
        by (rule native_calls_count) blast
      show ?thesis
      proof (cases q)
        case (Inl x)
        then have "lp_world (snd (native_loop (Suc n) env rn req om opts emit msgs used st)) = w" using True None g q by simp
        then show ?thesis using within_boundsI [of P, OF k(2,1)] by simp
      next
        case (Inr x)
        obtain msgs' where x: "x = (msgs', k)" using k(3) Inr by (cases x) auto
        have "P k (Suc m) (lp_world (st1\<lparr>lp_world := w\<rparr>))" using k(2) by simp
        from Suc.IH [OF this k(1), of msgs'] show ?thesis using True None g q Inr x by simp
      qed
    next
      case False
      then have "snd (native_loop (Suc n) env rn req om opts emit msgs used st) = st1"
        using None g by (cases e) auto
      then show ?thesis using within_boundsI [of P, OF st1 Suc.prems(2)] by simp
    qed
  qed (use within_boundsI [of P, OF Suc.prems] in auto)
qed (auto intro: within_boundsI)

lemma envelope_loop_counts:
  assumes "P used m w" "used \<le> nat (rn_MaxToolCalls (rn_cfg rn))"
  shows "within_bounds P (nat (rn_MaxToolCalls (rn_cfg rn))) (m + n) (snd (envelope_loop n env rn req msgs used w))"
  using assms
proof (induction n arbitrary: msgs used m w)
  case (Suc n)
  let ?B = "nat (rn_MaxToolCalls (rn_cfg rn))"
  show ?case
  proof (cases "re_ctx_err env w")
    case None
    obtain msg e w1 where g: "cm_Generate (rn_model rn) msgs w = ((msg, e), w1)" by (metis prod.exhaust)
    then have w1: "P used (Suc m) w1" using generate [OF Suc.prems(1), of msgs] by simp
    show ?thesis
    proof (cases "\<exists>name args final. e = None \<and> parseToolCallMessage env (msg_Content msg) = Inr ((name, args), final, True)
        \<and> blank final \<and> int used < rn_MaxToolCalls (rn_cfg rn)")
      case True
      then obtain name args final where p: "e = None" "parseToolCallMessage env (msg_Content msg) = Inr ((name, args), final, True)"
        "blank final" "int used < rn_MaxToolCalls (rn_cfg rn)" by blast
      then have le: "Suc used \<le> ?B" by simp
      obtain q w2 where q: "executeToolCall env rn req name args w1 = (q, w2)" by fastforce
      then have w2: "P (Suc used) (Suc m) w2" using execute_counts [OF w1] by (metis snd_conv)
      show ?thesis
      proof (cases q)
        case (Inl x)
        then have "snd (envelope_loop (Suc n) env rn req msgs used w) = w2" using None g p q by simp
        then show ?thesis using within_boundsI [of P, OF w2 le] by simp
      next
        case (Inr x)
        from Suc.IH [OF w2 le] show ?thesis using None g p q Inr by simp
      qed
    next
      case False
      then have "snd (envelope_loop (Suc n) env rn req msgs used w) = w1"
        using None g by (cases e; cases "parseToolCallMessage env (msg_Content msg)") (auto split: prod.split)
      then show ?thesis using within_boundsI [of P, OF w1 Suc.prems(2)] by simp
    qed
  qed (use within_boundsI [of P, OF Suc.prems] in auto)
qed (auto intro: within_boundsI)

lemma ask_counts:
  assumes "P 0 0 w" "emit = None"
  shows "within_bounds P (nat (rn_MaxToolCalls (rn_cfg rn))) (nat (rn_MaxIterations (rn_cfg rn))) (snd (runner_Ask env rn req w))"
proof (cases "re_ctx_err env w")
  case None
  show ?thesis
  proof (cases "cm_WithOptions (rn_model rn)")
    case None
    with \<open>re_ctx_err env w = None\<close> envelope_loop_counts [OF assms(1), of "nat (rn_MaxIterations (rn_cfg rn))" env]
    show ?thesis by (simp add: runner_Ask_def askEnvelope_def)
  next
    case (Some om)
    have "P 0 0 (lp_world (loop_start w))" using assms(1) by (simp add: loop_start_def)
    from native_loop_counts [OF Some this] None Some assms(2) show ?thesis
      by (simp add: runner_Ask_def askNative_def split: prod.split) (metis snd_conv)
  qed
next
  case (Some e)
  then show ?thesis using within_boundsI [of P, OF assms(1)] by (simp add: runner_Ask_def)
qed

end

subsection \<open>Instrumented runs\<close>

text \<open>The runner with instruments around its tools and its model: beside the world, the names of the tools
  run, the latest last, and the number of model calls.\<close>

type_synonym 'w logged = "'w \<times> string list \<times> nat"

definition beside :: "('w \<Rightarrow> 'x \<times> 'w) \<Rightarrow> 'w logged \<Rightarrow> 'x \<times> 'w logged" where
  "beside f s = (case s of (w, l) \<Rightarrow> case f w of (x, w) \<Rightarrow> (x, w, l))"

definition log_run :: "string \<Rightarrow> ('w \<Rightarrow> 'x \<times> 'w) \<Rightarrow> 'w logged \<Rightarrow> 'x \<times> 'w logged" where
  "log_run n f s = (case s of (w, ns, m) \<Rightarrow> case f w of (x, w) \<Rightarrow> (x, w, ns @ [n], m))"

definition log_model :: "('w \<Rightarrow> 'x \<times> 'w) \<Rightarrow> 'w logged \<Rightarrow> 'x \<times> 'w logged" where
  "log_model f s = (case s of (w, ns, m) \<Rightarrow> case f w of (x, w) \<Rightarrow> (x, w, ns, Suc m))"

lemma log_simps [simp]:
  "fst (snd (snd (log_model f s))) = fst (snd s)" "snd (snd (snd (log_model f s))) = Suc (snd (snd s))"
  "fst (snd (snd (log_run n f s))) = fst (snd s) @ [n]" "snd (snd (snd (log_run n f s))) = snd (snd s)"
  "snd (snd (beside g s)) = snd s" "fst (beside g s) = fst (g (fst s))"
  by (simp_all add: log_model_def log_run_def beside_def split: prod.split)

definition logged :: "'w runner \<Rightarrow> 'w logged runner" where
  "logged rn = \<lparr>rn_model = \<lparr>cm_Generate = (\<lambda>msgs. log_model (cm_Generate (rn_model rn) msgs)),
       cm_Stream = (\<lambda>msgs. log_model (cm_Stream (rn_model rn) msgs)),
       cm_WithOptions = map_option (\<lambda>om. \<lparr>om_Generate = (\<lambda>msgs opts. log_model (om_Generate om msgs opts)),
         om_Stream = (\<lambda>msgs opts. log_model (om_Stream om msgs opts))\<rparr>) (cm_WithOptions (rn_model rn))\<rparr>,
     rn_tools = \<lparr>reg_tools = (\<lambda>n. map_option (\<lambda>t. \<lparr>tl_Name = tl_Name t, tl_Description = tl_Description t,
         tl_Structured = tl_Structured t, tl_Run = (\<lambda>input. log_run n (tl_Run t input))\<rparr>) (reg_tools (rn_tools rn) n)),
       reg_order = reg_order (rn_tools rn)\<rparr>,
     rn_cfg = \<lparr>rn_MaxToolCalls = rn_MaxToolCalls (rn_cfg rn), rn_MaxIterations = rn_MaxIterations (rn_cfg rn),
       rn_Policy = map_option (\<lambda>p n args. beside (p n args)) (rn_Policy (rn_cfg rn))\<rparr>\<rparr>"

definition logged_req :: "'w request \<Rightarrow> 'w logged request" where
  "logged_req req = \<lparr>rq_Query = rq_Query req, rq_History = rq_History req, rq_EvidenceText = rq_EvidenceText req,
     rq_LongTermMemoryText = rq_LongTermMemoryText req, rq_ConversationSummary = rq_ConversationSummary req,
     rq_ResponseFormatInstruction = rq_ResponseFormatInstruction req, rq_ResponseFormat = rq_ResponseFormat req,
     rq_ReasoningEffort = rq_ReasoningEffort req, rq_limits = rq_limits req, rq_PromptCache = None,
     rq_PromptCacheObserver = None,
     rq_ToolObserver = map_option (\<lambda>ob. \<lparr>to_OnToolStart = (\<lambda>n. beside (to_OnToolStart ob n)),
       to_OnToolEnd = (\<lambda>n e. beside (to_OnToolEnd ob n e))\<rparr>) (rq_ToolObserver req),
     rq_ToolCallLimiter = map_option (\<lambda>f n. beside (f n)) (rq_ToolCallLimiter req)\<rparr>"

text \<open>The tools whose calls the policy refuses whatever their arguments and the state.\<close>

definition always_denied :: "'w runner \<Rightarrow> string set" where
  "always_denied rn = {n. \<exists>p. rn_Policy (rn_cfg rn) = Some p \<and> (\<forall>args w. fst (p n args w) \<noteq> None)}"

interpretation logged_tools: bounded_tools "logged rn" "logged_req req" "map_option (\<lambda>f ev. beside (f ev)) emit"
  "\<lambda>k m s. length (fst (snd s)) \<le> k \<and> snd (snd s) \<le> m \<and> set (fst (snd s)) \<inter> always_denied rn = {}" "always_denied rn"
  for rn req emit
proof
  note defs = logged_def logged_req_def
  fix k m n w om msgs opts t input ob err p args f ev
  let ?P = "\<lambda>k m s. length (fst (snd s)) \<le> k \<and> snd (snd s) \<le> m \<and> set (fst (snd s)) \<inter> always_denied rn = {}"
  show "?P k m w \<Longrightarrow> ?P k (Suc m) (snd (cm_Generate (rn_model (logged rn)) msgs w))"
    by (auto simp: defs split: prod.split)
  show "cm_WithOptions (rn_model (logged rn)) = Some om \<Longrightarrow> ?P k m w \<Longrightarrow> ?P k (Suc m) (snd (om_Generate om msgs opts w))"
    "cm_WithOptions (rn_model (logged rn)) = Some om \<Longrightarrow> ?P k m w \<Longrightarrow> ?P k (Suc m) (snd (om_Stream om msgs opts w))"
    by (auto simp: defs split: prod.split)
  show "reg_tools (rn_tools (logged rn)) n = Some t \<Longrightarrow> n \<notin> always_denied rn \<Longrightarrow> ?P k m w \<Longrightarrow> ?P (Suc k) m (snd (tl_Run t input w))"
    by (auto simp: defs split: prod.split)
  show "rq_ToolObserver (logged_req req) = Some ob \<Longrightarrow> keeps (?P k m) (to_OnToolStart ob n)"
    "rq_ToolObserver (logged_req req) = Some ob \<Longrightarrow> keeps (?P k m) (to_OnToolEnd ob n err)"
    "rn_Policy (rn_cfg (logged rn)) = Some p \<Longrightarrow> keeps (?P k m) (p n args)"
    "map_option (\<lambda>f ev. beside (f ev)) emit = Some f \<Longrightarrow> keeps (?P k m) (f ev)"
    by (auto simp: keeps_def defs split: prod.split)
  show "n \<in> always_denied rn \<Longrightarrow> \<exists>p. rn_Policy (rn_cfg (logged rn)) = Some p \<and> (\<forall>args w. fst (p n args w) \<noteq> None)"
    by (auto simp: always_denied_def defs)
qed auto

subsection \<open>Streaming and synchronous answers\<close>

text \<open>What a script does when every chunk is accepted.\<close>

definition accepted :: "'r stream_script \<Rightarrow> ('r \<times> go_error option) \<times> string list" where
  "accepted script = fst (run_stream (\<lambda>_ u. (None, u)) script [] ())"

lemma accepted_simps [simp]:
  "accepted (StreamEnd r e) = ((r, e), [])"
  "accepted (StreamEmit c k) = (fst (accepted (k None)), c # snd (accepted (k None)))"
proof -
  have "\<exists>r. \<forall>cs. fst (run_stream (\<lambda>_ u. (None, u)) script cs ()) = (fst r, cs @ snd r)" for script :: "'r stream_script"
  proof (induction script)
    case (StreamEmit c k)
    then obtain r where "\<forall>cs. fst (run_stream (\<lambda>_ u. (None, u)) (k None) cs ()) = (fst r, cs @ snd r)" by blast
    then show ?case by (intro exI [of _ "(fst r, c # snd r)"]) simp
  qed simp
  then obtain r where "\<forall>cs. fst (run_stream (\<lambda>_ u. (None, u)) (k None) cs ()) = (fst r, cs @ snd r)" by blast
  then show "accepted (StreamEmit c k) = (fst (accepted (k None)), c # snd (accepted (k None)))"
    by (simp add: accepted_def)
qed (simp add: accepted_def)

lemma run_stream_accepting:
  "(\<And>c s. f c s = (None, h c s)) \<Longrightarrow>
     run_stream f script cs s = ((fst (accepted script), cs @ snd (accepted script)), fold h (snd (accepted script)) s)"
  by (induction script arbitrary: cs s) simp_all

text \<open>A model whose stream puts out the content of its message in chunks, none when there is no content.\<close>

definition streams_content :: "'w options_model \<Rightarrow> bool" where
  "streams_content om \<longleftrightarrow> (\<forall>msgs opts w. case (om_Stream om msgs opts w, om_Generate om msgs opts w) of
     ((script, w1), ((msg, err), w2)) \<Rightarrow> w1 = w2 \<and> fst (accepted script) = (msg, err)
       \<and> (err = None \<longrightarrow> concat (snd (accepted script)) = msg_Content msg
            \<and> (snd (accepted script) = [] \<longleftrightarrow> msg_Content msg = '''')))"

definition accepts :: "(graph_event \<Rightarrow> 'w effect) \<Rightarrow> bool" where
  "accepts f \<longleftrightarrow> (\<forall>ev w. f ev w = (None, w))"

definition separated :: "string \<Rightarrow> string" where
  "separated a = (if a = '''' \<or> has_suffix a NL then a else a @ NL)"

lemma native_chunk_accepting:
  assumes "accepts f"
  shows "\<exists>st'. native_chunk (Some f) c st = (None, st') \<and> lp_world st' = lp_world st \<and> lp_started st'
    \<and> lp_answer st' = (if lp_started st then lp_answer st else separated (lp_answer st)) @ c"
  using assms by (simp add: native_chunk_def start_round_def send_chunk_def separated_def accepts_def)

lemma native_chunks_accepting:
  assumes f: "accepts f"
  shows "native_chunk (Some f) c st = (None, snd (native_chunk (Some f) c st))"
    "lp_world (fold (\<lambda>c st. snd (native_chunk (Some f) c st)) cs st) = lp_world st"
    "lp_answer (fold (\<lambda>c st. snd (native_chunk (Some f) c st)) cs st)
      = (if cs = [] \<or> lp_started st then lp_answer st else separated (lp_answer st)) @ concat cs"
proof -
  note 1 = native_chunk_accepting [OF assms]
  show "native_chunk (Some f) c st = (None, snd (native_chunk (Some f) c st))" using 1 [of c st] by auto
  have "lp_world (fold (\<lambda>c st. snd (native_chunk (Some f) c st)) cs st) = lp_world st
     \<and> lp_answer (fold (\<lambda>c st. snd (native_chunk (Some f) c st)) cs st)
      = (if cs = [] \<or> lp_started st then lp_answer st else separated (lp_answer st)) @ concat cs"
  proof (induction cs arbitrary: st)
    case (Cons c cs)
    obtain st' where "native_chunk (Some f) c st = (None, st')" "lp_world st' = lp_world st" "lp_started st'"
      "lp_answer st' = (if lp_started st then lp_answer st else separated (lp_answer st)) @ c" using 1 by blast
    with Cons.IH [of st'] show ?case by simp
  qed simp
  then show "lp_world (fold (\<lambda>c st. snd (native_chunk (Some f) c st)) cs st) = lp_world st"
    "lp_answer (fold (\<lambda>c st. snd (native_chunk (Some f) c st)) cs st)
      = (if cs = [] \<or> lp_started st then lp_answer st else separated (lp_answer st)) @ concat cs" by blast+
qed

lemma native_generate_agrees:
  assumes "streams_content om" "accepts f" "lp_world st1 = lp_world st2" "lp_answer st1 = lp_answer st2"
  shows "\<exists>msg err s1 s2. native_generate om opts (Some f) msgs st1 = ((msg, err), s1)
    \<and> native_generate om opts None msgs st2 = ((msg, err), s2) \<and> lp_world s1 = lp_world s2
    \<and> (err = None \<longrightarrow> lp_answer s1 = lp_answer s2)"
proof -
  obtain script w where s: "om_Stream om msgs opts (lp_world st2) = (script, w)" by fastforce
  obtain msg err w2 where g: "om_Generate om msgs opts (lp_world st2) = ((msg, err), w2)" by (metis prod.exhaust)
  have a: "w2 = w" "fst (accepted script) = (msg, err)"
    "err = None \<Longrightarrow> concat (snd (accepted script)) = msg_Content msg"
    "err = None \<Longrightarrow> snd (accepted script) = [] \<longleftrightarrow> msg_Content msg = ''''"
    using assms(1) [unfolded streams_content_def, rule_format, of msgs opts "lp_world st2"] s g by auto
  let ?st = "st1\<lparr>lp_world := w, lp_started := False\<rparr>"
  let ?s1 = "fold (\<lambda>c st. snd (native_chunk (Some f) c st)) (snd (accepted script)) ?st"
  have "native_generate om opts (Some f) msgs st1 = ((msg, err), ?s1)"
    using run_stream_accepting [where f = "native_chunk (Some f)" and script = script and cs = "[]" and s = ?st
        and h = "\<lambda>c st. snd (native_chunk (Some f) c st)", OF native_chunks_accepting(1) [OF assms(2)]]
    by (simp add: native_generate_def assms(3) s a(2))
  moreover have "lp_world ?s1 = w" "lp_answer ?s1
      = (if snd (accepted script) = [] then lp_answer st2 else separated (lp_answer st2)) @ concat (snd (accepted script))"
    using native_chunks_accepting(2,3) [OF assms(2)] by (simp_all add: assms(4))
  moreover have "\<exists>s2. native_generate om opts None msgs st2 = ((msg, err), s2) \<and> lp_world s2 = w
      \<and> (err = None \<longrightarrow> lp_answer s2 = (if msg_Content msg = '''' then lp_answer st2 else separated (lp_answer st2) @ msg_Content msg))"
    by (simp add: native_generate_def g a(1) start_round_def send_chunk_def separated_def Let_def)
  ultimately show ?thesis using a(3,4) by (cases err) fastforce+
qed

lemma native_loop_agrees:
  assumes "streams_content om" "accepts f"
  shows "lp_world st1 = lp_world st2 \<Longrightarrow> lp_answer st1 = lp_answer st2 \<Longrightarrow>
    fst (native_loop n env rn req om opts (Some f) msgs used st1) = fst (native_loop n env rn req om opts None msgs used st2)
    \<and> lp_world (snd (native_loop n env rn req om opts (Some f) msgs used st1))
      = lp_world (snd (native_loop n env rn req om opts None msgs used st2))"
proof (induction n arbitrary: msgs used st1 st2)
  case (Suc n)
  show ?case
  proof (cases "re_ctx_err env (lp_world st2)")
    case None
    obtain msg err s1 s2 where g: "native_generate om opts (Some f) msgs st1 = ((msg, err), s1)"
      "native_generate om opts None msgs st2 = ((msg, err), s2)" "lp_world s1 = lp_world s2"
      "err = None \<longrightarrow> lp_answer s1 = lp_answer s2"
      using native_generate_agrees [OF assms Suc.prems] by blast
    show ?thesis
    proof (cases "err = None \<and> msg_ToolCalls msg \<noteq> []")
      case True
      obtain q w where q: "native_calls env rn req (msg_ToolCalls msg) (msgs @ [msg]) used (lp_world s2) = (q, w)" by fastforce
      have "lp_answer s1 = lp_answer s2" using g(4) True by simp
      then have "fst (native_loop n env rn req om opts (Some f) m u (s1\<lparr>lp_world := w\<rparr>)) = fst (native_loop n env rn req om opts None m u (s2\<lparr>lp_world := w\<rparr>))
        \<and> lp_world (snd (native_loop n env rn req om opts (Some f) m u (s1\<lparr>lp_world := w\<rparr>)))
          = lp_world (snd (native_loop n env rn req om opts None m u (s2\<lparr>lp_world := w\<rparr>)))" for m u
        by (intro Suc.IH) simp_all
      then show ?thesis using True None g q Suc.prems(1) by (cases q) (auto split: prod.split)
    next
      case False
      then show ?thesis using None g Suc.prems(1) by (cases err) auto
    qed
  qed (use Suc.prems in simp)
qed simp

subsection \<open>Properties\<close>



text \<open>A model that asks for one tool call, answering ''a'' beside it, and then gives a last answer.\<close>

definition demo_call_model :: "string \<Rightarrow> nat options_model" where
  "demo_call_model reply = (let say = (\<lambda>w :: nat. if w = 0
       then \<lparr>msg_Role = RoleAssistant, msg_Content = ''a'', msg_ToolCalls = [\<lparr>tc_ID = ''1'', tc_Name = ''t'', tc_Arguments = ''''\<rparr>], msg_ToolCallID = ''''\<rparr>
       else text_message RoleAssistant reply)
     in \<lparr>om_Generate = (\<lambda>_ _ w. ((say w, None), Suc w)),
         om_Stream = (\<lambda>_ _ w. (StreamEmit (msg_Content (say w)) (\<lambda>_. StreamEnd (say w) None), Suc w))\<rparr>)"

definition demo_runner :: "string \<Rightarrow> nat runner" where
  "demo_runner reply = \<lparr>rn_model = \<lparr>cm_Generate = (\<lambda>_ w. ((text_message RoleAssistant '''', None), w)),
       cm_Stream = (\<lambda>_ w. (StreamEnd () None, w)), cm_WithOptions = Some (demo_call_model reply)\<rparr>,
     rn_tools = newToolRegistry [Some \<lparr>tl_Name = ''t'', tl_Description = '''', tl_Structured = None,
       tl_Run = (\<lambda>_ w. ((''r'', None), w))\<rparr>],
     rn_cfg = \<lparr>rn_MaxToolCalls = 1, rn_MaxIterations = 2, rn_Policy = None\<rparr>\<rparr>"

definition demo_runner_env :: "nat runner_env" where
  "demo_runner_env = \<lparr>re_json = \<lparr>jc_Decode = (\<lambda>_. Inr None), jc_Encode = (\<lambda>_. Inr ''{}''), jc_Float = (\<lambda>_. ''0'')\<rparr>,
     re_envelope = (\<lambda>_. Inl (errorf '''' [])), re_schema = (\<lambda>_. ''{}''), re_encoder = None, re_ctx_err = (\<lambda>_. None)\<rparr>"

lemma demo_native:
  "fst (askNative demo_runner_env (demo_runner reply) (demo_request q ev) (demo_call_model reply) None (loop_start 0))
     = Inr (if reply = '''' then ''a'' else ''a'' @ NL @ reply)"
  "fst (askNative demo_runner_env (demo_runner reply) (demo_request q ev) (demo_call_model reply) (Some (\<lambda>_ w. (None, w))) (loop_start 0))
     = Inr (''a'' @ NL @ reply)"
proof -
  have t: "trim_space ''t'' = ''t''" "blank ''''" "\<not> has_suffix ''a'' NL" by code_simp+
  note defs = askNative_def demo_runner_def demo_runner_env_def demo_call_model_def loop_start_def eval_nat_numeral
    native_generate_def native_chunk_def start_round_def send_chunk_def runNativeToolCall_def decodeToolArguments_def executeToolCall_def
    execute_known_def run_tool_def toolInput_def tool_answer_def call_start_def call_end_def authorize_def Let_def t
    newToolRegistry_def register_def check_tool_def demo_request_def text_message_def
  show "fst (askNative demo_runner_env (demo_runner reply) (demo_request q ev) (demo_call_model reply) None (loop_start 0))
     = Inr (if reply = '''' then ''a'' else ''a'' @ NL @ reply)"
    by (simp add: defs)
  show "fst (askNative demo_runner_env (demo_runner reply) (demo_request q ev) (demo_call_model reply) (Some (\<lambda>_ w. (None, w))) (loop_start 0))
     = Inr (''a'' @ NL @ reply)"
    by (simp add: defs)
qed


subsection \<open>Findings\<close>

text \<open>The comment on \<^verbatim>\<open>askNative\<close> promises that both paths give the same answer; a last round whose stream
  puts out one empty chunk adds a line break that the synchronous answer does not have.\<close>

lemma empty_chunk_changes_answer:
  "fst (askNative demo_runner_env (demo_runner '''') (demo_request ''q'' ''e'') (demo_call_model '''') None (loop_start 0)) = Inr ''a''"
  "fst (askNative demo_runner_env (demo_runner '''') (demo_request ''q'' ''e'') (demo_call_model '''') (Some (\<lambda>_ w. (None, w))) (loop_start 0))
     = Inr (''a'' @ NL)"
  by (simp_all add: demo_native)

text \<open>The runner never asks the limiter of the request, which has counted the local retrieval: a question
  can run one tool more than the configured MaxToolCalls.\<close>

lemma runner_ignores_limiter:
  "runner_Ask env rn (req\<lparr>rq_ToolCallLimiter := l\<rparr>) w = runner_Ask env rn req w"
proof -
  have p: "promptMessages enc (req\<lparr>rq_ToolCallLimiter := l\<rparr>) = promptMessages enc req" for enc by (simp add: promptMessages_def)
  have c: "call_start (req\<lparr>rq_ToolCallLimiter := l\<rparr>) = call_start req" "call_end (req\<lparr>rq_ToolCallLimiter := l\<rparr>) = call_end req"
    by (simp_all add: call_start_def call_end_def fun_eq_iff)
  then have f: "fail_call (req\<lparr>rq_ToolCallLimiter := l\<rparr>) = fail_call req" by (intro ext) (simp add: fail_call_def)
  have t: "run_tool env (req\<lparr>rq_ToolCallLimiter := l\<rparr>) = run_tool env req"
    by (intro ext) (unfold run_tool_def c, rule refl)
  have k: "execute_known env rn (req\<lparr>rq_ToolCallLimiter := l\<rparr>) = execute_known env rn req"
    by (intro ext) (unfold execute_known_def c f t, rule refl)
  have e: "executeToolCall env rn (req\<lparr>rq_ToolCallLimiter := l\<rparr>) = executeToolCall env rn req"
    by (intro ext) (unfold executeToolCall_def f k, rule refl)
  then have r: "runNativeToolCall env rn (req\<lparr>rq_ToolCallLimiter := l\<rparr>) = runNativeToolCall env rn req"
    by (intro ext) (unfold runNativeToolCall_def f e, rule refl)
  have n: "native_calls env rn (req\<lparr>rq_ToolCallLimiter := l\<rparr>) cs msgs used w = native_calls env rn req cs msgs used w" for cs msgs used w
    by (induction cs arbitrary: msgs used w) (simp_all add: r split: sum.split prod.split)
  have nl: "native_loop k env rn (req\<lparr>rq_ToolCallLimiter := l\<rparr>) om opts emit msgs used st = native_loop k env rn req om opts emit msgs used st"
    for k om opts emit msgs used st
    by (induction k arbitrary: msgs used st) (simp_all add: n split: option.split sum.split prod.split)
  have el: "envelope_loop k env rn (req\<lparr>rq_ToolCallLimiter := l\<rparr>) msgs used w = envelope_loop k env rn req msgs used w" for k msgs used w
    by (induction k arbitrary: msgs used w) (simp_all add: e split: option.split sum.split prod.split)
  have a: "askNative env rn (req\<lparr>rq_ToolCallLimiter := l\<rparr>) om emit st = askNative env rn req om emit st"
    "askEnvelope env rn (req\<lparr>rq_ToolCallLimiter := l\<rparr>) w = askEnvelope env rn req w" for om emit st w
    by (simp_all add: askNative_def askEnvelope_def envelopeMessages_def p nl el)
  show ?thesis unfolding runner_Ask_def a by (rule refl)
qed

end
