(* ===== verification/Bridge.thy ===== *)
theory Bridge
  imports Knowledge Actions Tools
begin

section \<open>Command bridges: text and documents made by a local command\<close>

text \<open>
  \<^verbatim>\<open>ocr_bridge.go\<close>, \<^verbatim>\<open>image_bridge.go\<close> and \<^verbatim>\<open>commandDocumentConverter.Convert\<close>: each makes a temporary
  directory, runs a command that writes a file there, reads the file and removes the directory by
  a deferred call. The operating system is a record of operations on the world; the error of the
  removal is dropped, as the code drops it.
\<close>

subsection \<open>Operating system\<close>

record 'w os =
  os_ctx_err :: "'w \<Rightarrow> go_error option"
  os_LookPath :: "string \<Rightarrow> 'w \<Rightarrow> string result"
  os_MkdirTemp :: "string \<Rightarrow> (string, 'w) action"
  os_RemoveAll :: "string \<Rightarrow> 'w \<Rightarrow> 'w"
  os_Run :: "string \<Rightarrow> string list \<Rightarrow> string list \<Rightarrow> string \<Rightarrow> 'w \<Rightarrow> (string \<times> go_error option) \<times> 'w"
  os_ReadFile :: "string \<Rightarrow> 'w \<Rightarrow> string result"

definition path_join2 :: "string \<Rightarrow> string \<Rightarrow> string" where
  "path_join2 d f = path_clean (d @ ''/'' @ f)"

text \<open>\<^verbatim>\<open>defer os.RemoveAll(dir)\<close> around the rest of a function.\<close>

definition in_temp_dir :: "'w os \<Rightarrow> string \<Rightarrow> string \<Rightarrow> (string \<Rightarrow> ('a, 'w) action) \<Rightarrow> ('a, 'w) action" where
  "in_temp_dir os pattern what body w = (case os_MkdirTemp os pattern w of
     (Inl e, w) \<Rightarrow> (Inl (wrap_err what e), w)
   | (Inr dir, w) \<Rightarrow> (case body dir w of (r, w) \<Rightarrow> (r, os_RemoveAll os dir w)))"

subsection \<open>The two text bridges\<close>

text \<open>\<open>br_MinDirectTextRunes\<close> is only there for PDF files; an image bridge keeps it at zero.\<close>

record bridge_config =
  br_Command :: string
  br_Args :: "string list"
  br_Env :: "string list"
  br_WorkDir :: string
  br_MinDirectTextRunes :: int

definition br_normalized :: "bridge_config \<Rightarrow> bridge_config" where
  "br_normalized c = c\<lparr>br_Command := trim_space (br_Command c), br_WorkDir := trim_space (br_WorkDir c)\<rparr>"

definition br_enabled :: "bridge_config \<Rightarrow> bool" where
  "br_enabled c \<longleftrightarrow> br_Command c \<noteq> '''' \<or> br_Args c \<noteq> [] \<or> br_Env c \<noteq> [] \<or> br_WorkDir c \<noteq> '''' \<or> br_MinDirectTextRunes c \<noteq> 0"

definition fill_input :: "string \<Rightarrow> string \<Rightarrow> string" where
  "fill_input inputPath a = (if contains a ''{input}'' then replace_all a ''{input}'' inputPath else a)"

definition materializeInputOutputBridgeArgs :: "string list \<Rightarrow> string \<Rightarrow> string \<Rightarrow> string list \<times> bool \<times> bool" where
  "materializeInputOutputBridgeArgs args inputPath outputPath =
     (let filled = map (fill_input inputPath) args in
      (map (\<lambda>a. if contains a ''{output}'' then replace_all a ''{output}'' outputPath else a) filled,
       list_ex (\<lambda>a. contains a ''{input}'') args, list_ex (\<lambda>a. contains a ''{output}'') filled))"

definition br_validate :: "string \<Rightarrow> bridge_config \<Rightarrow> go_error option" where
  "br_validate what c0 = (let c = br_normalized c0 in
     if \<not> br_enabled c then None
     else if br_Command c = '''' then Some (invalid_config (what @ '' bridge command is required: ragagent: invalid config''))
     else if br_MinDirectTextRunes c < 0
       then Some (invalid_config (what @ '' bridge min direct text runes must be >= 0: ragagent: invalid config''))
     else case materializeInputOutputBridgeArgs (br_Args c) '''' '''' of (_, hasInput, hasOutput) \<Rightarrow>
       if \<not> hasInput \<or> \<not> hasOutput
       then Some (invalid_config (what @ '' bridge args must include {input} and {output}: ragagent: invalid config'')) else None)"

definition bridge_output :: "string \<Rightarrow> 'w os \<Rightarrow> bridge_config \<Rightarrow> string \<Rightarrow> string \<Rightarrow> string \<Rightarrow> (string, 'w) action" where
  "bridge_output what os c commandPath inputPath tempDir w =
     (let outputPath = path_join2 tempDir ''output.txt'' in
      case os_Run os commandPath (fst (materializeInputOutputBridgeArgs (br_Args c) inputPath outputPath))
             (br_Env c) (br_WorkDir c) w of
        ((out, Some e), w) \<Rightarrow> (Inl (errorf (''run '' @ what @ '' bridge: '' @ err_text e @ '': '' @ trim_space out) [e]), w)
      | ((_, None), w) \<Rightarrow> (case os_ReadFile os outputPath w of
           Inl e \<Rightarrow> (Inl (wrap_err (''read '' @ what @ '' output '' @ quoted outputPath) e), w)
         | Inr data \<Rightarrow>
            (if blank data then (Inl (errorf (what @ '' bridge produced empty text for '' @ quoted inputPath) []), w)
             else (Inr (trim_space data), w))))"

definition extractText :: "string \<Rightarrow> string \<Rightarrow> 'w os \<Rightarrow> bridge_config \<Rightarrow> string \<Rightarrow> (string, 'w) action" where
  "extractText what pattern os c inputPath w = (case os_ctx_err os w of Some e \<Rightarrow> (Inl e, w)
   | None \<Rightarrow> (case os_LookPath os (br_Command c) w of
       Inl e \<Rightarrow> (Inl (wrap_err (what @ '' bridge command '' @ quoted (br_Command c) @ '' not found'') e), w)
     | Inr commandPath \<Rightarrow> in_temp_dir os pattern (''create '' @ what @ '' temp dir'')
         (bridge_output what os c commandPath inputPath) w))"

definition extractor :: "string \<Rightarrow> string \<Rightarrow> 'w os \<Rightarrow> bridge_config \<Rightarrow> (string \<Rightarrow> (string, 'w) action) option" where
  "extractor what pattern os c =
     (if \<not> br_enabled (br_normalized c) then None else Some (extractText what pattern os (br_normalized c)))"

abbreviation pdf_bridge :: string where "pdf_bridge \<equiv> ''pdf ocr''"
abbreviation image_bridge :: string where "image_bridge \<equiv> ''image text''"

definition pdf_extractor :: "'w os \<Rightarrow> bridge_config \<Rightarrow> (string \<Rightarrow> (string, 'w) action) option" where
  "pdf_extractor = extractor pdf_bridge ''ragagent-pdf-ocr-*''"

definition image_extractor :: "'w os \<Rightarrow> bridge_config \<Rightarrow> (string \<Rightarrow> (string, 'w) action) option" where
  "image_extractor = extractor image_bridge ''ragagent-image-text-*''"

subsection \<open>The document converter\<close>

definition convert_output :: "'w os \<Rightarrow> command_converter \<Rightarrow> string \<Rightarrow> string \<Rightarrow> metadata \<Rightarrow> string \<Rightarrow> (document, 'w) action" where
  "convert_output os c path title md outputDir w =
     (let outputPath = path_join2 outputDir (trim_suffix (path_base path) (path_ext path) @ cc_OutputExt c) in
      case os_Run os (cc_Command c) (replaceCommandPlaceholders (cc_Args c) path outputPath) (cc_Env c)
             (if blank (cc_WorkDir c) then '''' else cc_WorkDir c) w of
        ((out, Some e), w) \<Rightarrow> (Inl (errorf (''convert document '' @ quoted path @ '' with '' @ cc_Name c @ '': ''
            @ err_text e @ '': '' @ trim_space out) [e]), w)
      | ((_, None), w) \<Rightarrow> (case os_ReadFile os outputPath w of
           Inl e \<Rightarrow> (Inl (wrap_err (''read converter output '' @ quoted outputPath) e), w)
         | Inr content \<Rightarrow>
            (if blank content
             then (Inl (unsupported (''converter '' @ cc_Name c @ '' produced empty output for '' @ quoted path
                 @ '': ragagent: unsupported source'')), w)
             else (Inr \<lparr>doc_ID = path, doc_SourcePath = path, doc_Title = title, doc_Metadata = md, doc_Content = content\<rparr>, w))))"

definition command_Convert :: "'w os \<Rightarrow> command_converter \<Rightarrow> string \<Rightarrow> string \<Rightarrow> metadata \<Rightarrow> (document, 'w) action" where
  "command_Convert os c path title md w = (case os_ctx_err os w of Some e \<Rightarrow> (Inl e, w)
   | None \<Rightarrow> in_temp_dir os ''ragagent-convert-*'' ''create converter temp dir'' (convert_output os c path title md) w)"

subsection \<open>Properties\<close>

text \<open>What the bridges rely on: \<open>dirs\<close> are the temporary directories there are; a new one is fresh, removing
  it takes away exactly it, and the command does not touch the others' entries.\<close>

definition tidy_os :: "'w os \<Rightarrow> ('w \<Rightarrow> string set) \<Rightarrow> bool" where
  "tidy_os os dirs \<longleftrightarrow>
     (\<forall>p w r w'. os_MkdirTemp os p w = (r, w') \<longrightarrow>
        (case r of Inl _ \<Rightarrow> dirs w' = dirs w | Inr d \<Rightarrow> d \<notin> dirs w \<and> dirs w' = insert d (dirs w)))
     \<and> (\<forall>d w. dirs (os_RemoveAll os d w) = dirs w - {d})
     \<and> (\<forall>p args env wd w. dirs (snd (os_Run os p args env wd w)) = dirs w)"

lemma tidy_mkdir:
  assumes "tidy_os os dirs" "os_MkdirTemp os p w = (r, w')"
  shows "case r of Inl _ \<Rightarrow> dirs w' = dirs w | Inr d \<Rightarrow> d \<notin> dirs w \<and> dirs w' = insert d (dirs w)"
proof -
  note c = assms(1) [unfolded tidy_os_def]
  show ?thesis by (rule conjunct1 [OF c, rule_format, OF assms(2)])
qed

lemma tidy_remove: "tidy_os os dirs \<Longrightarrow> dirs (os_RemoveAll os d w) = dirs w - {d}"
  by (simp add: tidy_os_def)

lemma tidy_run: "tidy_os os dirs \<Longrightarrow> os_Run os p args env wd w = (r, w') \<Longrightarrow> dirs w' = dirs w"
  unfolding tidy_os_def by (metis snd_conv)

lemma in_temp_dir_tidy:
  assumes os: "tidy_os os dirs" and body: "\<And>d w. dirs (snd (body d w)) = dirs w"
  shows "dirs (snd (in_temp_dir os p what body w)) = dirs w"
proof -
  obtain r w1 where m: "os_MkdirTemp os p w = (r, w1)" by (cases "os_MkdirTemp os p w")
  have "dirs w2 = dirs w1" if "body d w1 = (r', w2)" for d r' w2 using body [of d w1] that by simp
  then show ?thesis using tidy_mkdir [OF os m] m
    by (auto simp: in_temp_dir_def tidy_remove [OF os] split: sum.split prod.split)
qed

lemma bridge_output_tidy: "tidy_os os dirs \<Longrightarrow> dirs (snd (bridge_output what os c p i d w)) = dirs w"
  by (auto simp: bridge_output_def Let_def dest: tidy_run split: prod.split option.split sum.split)

lemma convert_output_tidy: "tidy_os os dirs \<Longrightarrow> dirs (snd (convert_output os c p t md d w)) = dirs w"
  by (auto simp: convert_output_def Let_def dest: tidy_run split: prod.split option.split sum.split)

lemma bridge_output_text:
  assumes "bridge_output what os c p i d w = (Inr t, w')"
  shows "t \<noteq> '''' \<and> trim_space t = t"
proof -
  let ?run = "os_Run os p (fst (materializeInputOutputBridgeArgs (br_Args c) i (path_join2 d ''output.txt''))) (br_Env c) (br_WorkDir c) w"
  obtain out e w1 where run: "?run = ((out, e), w1)" by (metis surj_pair)
  show ?thesis
    using assms unfolding bridge_output_def Let_def run
    by (cases e) (auto split: sum.split_asm if_split_asm)
qed

lemma convert_output_content:
  assumes "convert_output os c p t md d w = (Inr doc, w')"
  shows "\<not> blank (doc_Content doc)"
proof -
  let ?run = "os_Run os (cc_Command c) (replaceCommandPlaceholders (cc_Args c) p (path_join2 d (trim_suffix (path_base p) (path_ext p) @ cc_OutputExt c)))
     (cc_Env c) (if blank (cc_WorkDir c) then '''' else cc_WorkDir c) w"
  obtain out e w1 where run: "?run = ((out, e), w1)" by (metis surj_pair)
  show ?thesis
    using assms unfolding convert_output_def Let_def run
    by (cases e) (auto split: sum.split_asm if_split_asm)
qed

lemma in_temp_dir_result:
  "in_temp_dir os p what body w = (Inr x, w') \<Longrightarrow> \<exists>d w1 w2. body d w1 = (Inr x, w2)"
  by (auto simp: in_temp_dir_def split: prod.split_asm sum.split_asm)

lemma extract_in_temp_dir:
  "extractText what p os c i w = (Inr t, w') \<Longrightarrow> \<exists>cmd d w1 w2. bridge_output what os c cmd i d w1 = (Inr t, w2)"
  unfolding extractText_def by (auto dest!: in_temp_dir_result split: option.split_asm sum.split_asm)

lemma convert_in_temp_dir:
  "command_Convert os c p t md w = (Inr doc, w') \<Longrightarrow> \<exists>d w1 w2. convert_output os c p t md d w1 = (Inr doc, w2)"
  unfolding command_Convert_def by (auto dest!: in_temp_dir_result split: option.split_asm)


definition demo_os :: "string set os" where
  "demo_os = \<lparr>os_ctx_err = \<lambda>_. None, os_LookPath = \<lambda>c _. Inr c,
     os_MkdirTemp = \<lambda>_ w. if ''/t'' \<in> w then (Inl (errorf ''exists'' []), w) else (Inr ''/t'', insert ''/t'' w),
     os_RemoveAll = \<lambda>d w. w - {d}, os_Run = \<lambda>_ _ _ _ w. (('''', None), w), os_ReadFile = \<lambda>_ _. Inr '' x ''\<rparr>"

definition demo_bridge :: bridge_config where
  "demo_bridge = \<lparr>br_Command = ''ocr'', br_Args = [''{input}'', ''{output}''], br_Env = [], br_WorkDir = '''', br_MinDirectTextRunes = 0\<rparr>"

definition demo_converter :: command_converter where
  "demo_converter = \<lparr>cc_Name = ''c'', cc_Extensions = [''.doc''], cc_Command = ''conv'', cc_Args = [''{input}'', ''{output}''],
     cc_OutputExt = ''.md'', cc_Env = [], cc_WorkDir = ''''\<rparr>"


subsection \<open>Findings\<close>

text \<open>The placeholders are replaced one after the other, so an input path that holds the text of the second
  one is rewritten too.\<close>

lemma output_placeholder_in_path_is_replaced:
  "fst (materializeInputOutputBridgeArgs [''{input}''] ''a{output}'' ''o'') = [''ao'']"
  "replaceCommandPlaceholders [''{input}''] ''a{output}'' ''o'' = [''ao'']"
  by code_simp+

end
