(* ===== verification/Config.thy ===== *)
theory Config
  imports Bridge ToolRunner AccessBoundary
begin

section \<open>Configuration: defaults, validation and the construction of an agent\<close>

text \<open>
  \<^verbatim>\<open>config.go\<close>, \<^verbatim>\<open>web_search.go\<close>, the provider configurations of \<^verbatim>\<open>internal/llm\<close> and \<^verbatim>\<open>New\<close> of
  \<^verbatim>\<open>agent.go\<close>. URL parsing, the provider clients, the opening of the vector store and the directory
  manifest are parameters. Injected components are values of any type (\<open>None\<close> for nil); components
  that \<^verbatim>\<open>New\<close> only passes on (loader, reranker, memory, callbacks, recorder) are left out.
\<close>

subsection \<open>Provider configurations\<close>

record provider_config =
  pv_Model :: string
  pv_BaseURL :: string
  pv_APIKey :: string
  pv_Timeout :: duration

definition pv_normalized :: "provider_config \<Rightarrow> provider_config" where
  "pv_normalized c = c\<lparr>pv_Model := trim_space (pv_Model c), pv_BaseURL := trim_space (pv_BaseURL c),
     pv_APIKey := trim_space (pv_APIKey c)\<rparr>"

text \<open>The parse of a URL gives its scheme and its host.\<close>

type_synonym url_parser = "string \<Rightarrow> (string \<times> string) result"

definition parseAndValidateBaseURL :: "url_parser \<Rightarrow> string \<Rightarrow> (string \<times> string) result" where
  "parseAndValidateBaseURL parse raw = (case parse raw of
     Inl e \<Rightarrow> Inl (wrap_err ''parse base url'' e)
   | Inr (scheme, host) \<Rightarrow>
      (if scheme = '''' \<or> host = '''' then Inl (errorf ''base url must include scheme and host'' [])
       else if scheme \<noteq> ''http'' \<and> scheme \<noteq> ''https'' then Inl (errorf ''base url scheme must be http or https'' [])
       else Inr (scheme, host)))"

text \<open>\<^verbatim>\<open>ChatConfig.Validate\<close> and \<^verbatim>\<open>EmbeddingConfig.Validate\<close>: the same checks, with a name in front.\<close>

definition pv_Validate :: "url_parser \<Rightarrow> string \<Rightarrow> provider_config \<Rightarrow> go_error option" where
  "pv_Validate parse what c0 = (let c = pv_normalized c0 in
     if pv_Model c = '''' then Some (errorf (what @ '' model is required'') [])
     else if pv_BaseURL c = '''' then Some (errorf (what @ '' base url is required'') [])
     else case parseAndValidateBaseURL parse (pv_BaseURL c) of
       Inl e \<Rightarrow> Some (wrap_err (what @ '' base url is invalid'') e)
     | Inr _ \<Rightarrow>
        (if pv_APIKey c = '''' then Some (errorf (what @ '' api key is required'') [])
         else if pv_Timeout c \<le> 0 then Some (errorf (what @ '' timeout must be positive'') []) else None))"

subsection \<open>Web search\<close>

record web_search_config =
  ws_APIKey :: string
  ws_BaseURL :: string
  ws_MaxResults :: int
  ws_SearchDepth :: string
  ws_Topic :: string

definition default_text :: "string \<Rightarrow> string \<Rightarrow> string" where
  "default_text d s = (if blank s then d else trim_space s)"

definition ws_normalized :: "web_search_config \<Rightarrow> web_search_config" where
  "ws_normalized c = \<lparr>ws_APIKey = trim_space (ws_APIKey c),
     ws_BaseURL = default_text ''https://api.tavily.com/search'' (ws_BaseURL c),
     ws_MaxResults = (if ws_MaxResults c = 0 then 5 else ws_MaxResults c),
     ws_SearchDepth = default_text ''basic'' (ws_SearchDepth c), ws_Topic = default_text ''general'' (ws_Topic c)\<rparr>"

definition config_invalid :: "string \<Rightarrow> go_error" where
  "config_invalid t = invalid_config (t @ '': ragagent: invalid config'')"

definition ws_validate :: "web_search_config \<Rightarrow> bool \<Rightarrow> go_error option" where
  "ws_validate c0 enabled = (let c = ws_normalized c0 in
     if \<not> enabled then None
     else if ws_APIKey c = '''' then Some (config_invalid ''web search api key is required'')
     else if ws_MaxResults c \<le> 0 then Some (config_invalid ''web search max results must be positive'')
     else if ws_SearchDepth c \<notin> {''basic'', ''advanced''}
       then Some (config_invalid ''web search search depth must be basic or advanced'')
     else if ws_Topic c \<notin> {''general'', ''news''} then Some (config_invalid ''web search topic must be general or news'')
     else None)"

subsection \<open>The configuration of an agent\<close>

record ('e, 's, 'r, 'w) config =
  cf_ChatModel :: string
  cf_ChatBaseURL :: string
  cf_ChatAPIKey :: string
  cf_EmbeddingModel :: string
  cf_EmbeddingBaseURL :: string
  cf_EmbeddingAPIKey :: string
  cf_DataDir :: string
  cf_TopK :: int
  cf_SimilarityThreshold :: real
  cf_ChunkSize :: int
  cf_ChunkOverlap :: int
  cf_MaxHistoryRounds :: int
  cf_MaxToolCalls :: int
  cf_MaxIterations :: int
  cf_RequestTimeout :: duration
  cf_MaxExecutionDuration :: duration
  cf_MaxPromptTokens :: int
  cf_MaxHistoryTokens :: int
  cf_MaxEvidenceTokens :: int
  cf_MaxSummaryTokens :: int
  cf_MaxMemoryTokens :: int
  cf_LongTermMemoryTTL :: duration
  cf_LongTermMemoryMaxStoredRunes :: int
  cf_EnablePromptHardening :: bool
  cf_AccessBoundary :: access_boundary
  cf_EnableHybridSearch :: bool
  cf_EnableRerank :: bool
  cf_EnableWebSearch :: bool
  cf_EnableToolCalling :: bool
  cf_ToolCallPolicy :: "(string \<Rightarrow> arguments \<Rightarrow> 'w effect) option"
  cf_StructuredOutputFormat :: output_format
  cf_ReasoningEffort :: string
  cf_HybridCandidateMultiplier :: int
  cf_HybridRRFK :: real
  cf_RerankShortlistMultiplier :: int
  cf_RuntimeChatModel :: "'w chat_model option"
  cf_RuntimeEmbedder :: "'e option"
  cf_RuntimeToolCallingRunner :: "'r option"
  cf_StorageVectorStore :: "'s option"
  cf_ProviderGovernance :: governance_config
  cf_ToolRegistry :: "'w tool_registry option"
  cf_PDFOCRBridge :: bridge_config
  cf_ImageTextBridge :: bridge_config
  cf_WebSearch :: web_search_config
  cf_has_Logger :: bool
  cf_LongTermMemoryTopK :: int
  cf_LongTermMemoryThreshold :: real

definition cf_normalized :: "('e, 's, 'r, 'w) config \<Rightarrow> ('e, 's, 'r, 'w) config" where
  "cf_normalized c = c\<lparr>
     cf_ChatModel := trim_space (cf_ChatModel c), cf_ChatBaseURL := trim_space (cf_ChatBaseURL c),
     cf_ChatAPIKey := trim_space (cf_ChatAPIKey c), cf_EmbeddingModel := trim_space (cf_EmbeddingModel c),
     cf_EmbeddingBaseURL := trim_space (cf_EmbeddingBaseURL c), cf_EmbeddingAPIKey := trim_space (cf_EmbeddingAPIKey c),
     cf_DataDir := trim_space (cf_DataDir c), cf_ReasoningEffort := trim_space (cf_ReasoningEffort c),
     cf_PDFOCRBridge := br_normalized (cf_PDFOCRBridge c), cf_ImageTextBridge := br_normalized (cf_ImageTextBridge c),
     cf_WebSearch := ws_normalized (cf_WebSearch c), cf_ProviderGovernance := gc_normalized (cf_ProviderGovernance c),
     cf_AccessBoundary := ab_normalized (cf_AccessBoundary c)\<rparr>"

definition nonzero :: "'a :: zero \<Rightarrow> 'a \<Rightarrow> 'a" where
  "nonzero d x = (if x = 0 then d else x)"

definition withDefaults :: "('e, 's, 'r, 'w) config \<Rightarrow> ('e, 's, 'r, 'w) config" where
  "withDefaults c0 = (let c = cf_normalized c0 in c\<lparr>
     cf_TopK := nonzero 5 (cf_TopK c), cf_ChunkSize := nonzero 1000 (cf_ChunkSize c),
     cf_MaxHistoryRounds := nonzero 8 (cf_MaxHistoryRounds c), cf_MaxToolCalls := nonzero 4 (cf_MaxToolCalls c),
     cf_MaxIterations := nonzero 3 (cf_MaxIterations c), cf_RequestTimeout := nonzero 30000000000 (cf_RequestTimeout c),
     cf_MaxPromptTokens := nonzero 4096 (cf_MaxPromptTokens c), cf_MaxHistoryTokens := nonzero 1024 (cf_MaxHistoryTokens c),
     cf_MaxEvidenceTokens := nonzero 2048 (cf_MaxEvidenceTokens c), cf_MaxSummaryTokens := nonzero 256 (cf_MaxSummaryTokens c),
     cf_MaxMemoryTokens := nonzero 512 (cf_MaxMemoryTokens c),
     cf_LongTermMemoryMaxStoredRunes := nonzero 512 (cf_LongTermMemoryMaxStoredRunes c),
     cf_EnablePromptHardening := (if \<not> cf_EnablePromptHardening c then True else cf_EnablePromptHardening c),
     cf_LongTermMemoryTopK := nonzero 3 (cf_LongTermMemoryTopK c),
     cf_HybridCandidateMultiplier := nonzero 4 (cf_HybridCandidateMultiplier c), cf_HybridRRFK := nonzero 60 (cf_HybridRRFK c),
     cf_RerankShortlistMultiplier := nonzero 2 (cf_RerankShortlistMultiplier c),
     cf_StructuredOutputFormat := (if cf_StructuredOutputFormat c = FormatOther '''' then StructuredOutputJSONObject
        else cf_StructuredOutputFormat c)\<rparr>)"

fun firstNonEmpty :: "string list \<Rightarrow> string" where
  "firstNonEmpty [] = ''''"
| "firstNonEmpty (v # vs) = (if blank v then firstNonEmpty vs else trim_space v)"

definition chat_config :: "('e, 's, 'r, 'w) config \<Rightarrow> provider_config" where
  "chat_config c = \<lparr>pv_Model = cf_ChatModel c, pv_BaseURL = cf_ChatBaseURL c, pv_APIKey = cf_ChatAPIKey c,
     pv_Timeout = cf_RequestTimeout c\<rparr>"

definition embedding_config :: "('e, 's, 'r, 'w) config \<Rightarrow> provider_config" where
  "embedding_config c = \<lparr>pv_Model = cf_EmbeddingModel c, pv_BaseURL = firstNonEmpty [cf_EmbeddingBaseURL c, cf_ChatBaseURL c],
     pv_APIKey = firstNonEmpty [cf_EmbeddingAPIKey c, cf_ChatAPIKey c], pv_Timeout = cf_RequestTimeout c\<rparr>"

definition chatModelName :: "('e, 's, 'r, 'w) config \<Rightarrow> string" where
  "chatModelName c = (if \<not> blank (cf_ChatModel c) then trim_space (cf_ChatModel c)
     else if cf_RuntimeChatModel c \<noteq> None then ''custom-chat-model'' else ''chat-model'')"

subsection \<open>Validation\<close>

text \<open>The first check that fails; the checks stand in the order of the code.\<close>

fun first_failure :: "go_error option list \<Rightarrow> go_error option" where
  "first_failure [] = None"
| "first_failure (None # cs) = first_failure cs"
| "first_failure (Some e # cs) = Some e"

definition refuse_if :: "bool \<Rightarrow> string \<Rightarrow> go_error option" where
  "refuse_if b t = (if b then Some (config_invalid t) else None)"

definition component_check :: "string \<Rightarrow> go_error option \<Rightarrow> go_error option" where
  "component_check what r = (case r of None \<Rightarrow> None
     | Some e \<Rightarrow> Some (errorf (what @ '' config is invalid: '' @ err_text e @ '': ragagent: invalid config'')
         [e, sentinel_error ''ragagent: invalid config'' ErrInvalidConfig]))"

abbreviation maxEvidenceChars :: int where "maxEvidenceChars \<equiv> 4000"

definition provider_checks :: "url_parser \<Rightarrow> ('e, 's, 'r, 'w) config \<Rightarrow> go_error option list" where
  "provider_checks url c =
    [if cf_RuntimeChatModel c = None then component_check ''chat'' (pv_Validate url ''chat'' (chat_config c)) else None,
     if cf_RuntimeEmbedder c = None then component_check ''embedding'' (pv_Validate url ''embedding'' (embedding_config c)) else None]"

definition limit_checks :: "('e, 's, 'r, 'w) config \<Rightarrow> go_error option list" where
  "limit_checks c =
    [refuse_if (cf_RequestTimeout c \<le> 0) ''request timeout must be positive'',
     refuse_if (cf_MaxExecutionDuration c < 0) ''max execution duration must be non-negative'',
     refuse_if (cf_MaxPromptTokens c \<le> 0) ''max prompt tokens must be positive'',
     refuse_if (cf_MaxHistoryTokens c \<le> 0) ''max history tokens must be positive'',
     refuse_if (cf_MaxEvidenceTokens c \<le> 0) ''max evidence tokens must be positive'',
     refuse_if (cf_MaxSummaryTokens c \<le> 0) ''max summary tokens must be positive'',
     refuse_if (cf_MaxMemoryTokens c \<le> 0) ''max memory tokens must be positive'',
     refuse_if (cf_LongTermMemoryTTL c < 0) ''long-term memory ttl must be non-negative'',
     refuse_if (cf_LongTermMemoryMaxStoredRunes c \<le> 0) ''long-term memory max stored runes must be positive'',
     refuse_if (cf_ChunkSize c \<le> 0) ''chunk size must be positive'',
     refuse_if (cf_ChunkSize c > maxEvidenceChars) (''chunk size must be <= '' @ itoa maxEvidenceChars),
     refuse_if (cf_ChunkOverlap c < 0 \<or> cf_ChunkOverlap c \<ge> cf_ChunkSize c) ''chunk overlap must be >=0 and < chunk size'',
     refuse_if (cf_TopK c \<le> 0) ''topk must be positive'',
     refuse_if (cf_MaxHistoryRounds c \<le> 0) ''max history rounds must be positive'',
     refuse_if (cf_LongTermMemoryTopK c < 0) ''long-term memory topk must be non-negative'',
     refuse_if (cf_LongTermMemoryThreshold c < 0) ''long-term memory threshold must be non-negative'',
     refuse_if (cf_MaxToolCalls c \<le> 0) ''max tool calls must be positive'']"

definition governance_checks :: "governance_config \<Rightarrow> go_error option list" where
  "governance_checks g = (let rl = gc_RateLimit g; cb = gc_CircuitBreaker g in
    [refuse_if (gc_RetryMaxAttempts g \<le> 0) ''provider retry max attempts must be positive'',
     refuse_if (gc_RetryBaseDelay g \<le> 0) ''provider retry base delay must be positive'',
     refuse_if (gc_RetryMaxDelay g \<le> 0) ''provider retry max delay must be positive'',
     refuse_if (rl_RequestsPerSecond rl < 0) ''provider rate limit requests per second must be non-negative'',
     refuse_if (rl_Burst rl < 0) ''provider rate limit burst must be non-negative'',
     refuse_if (\<not> rl_enabled rl \<and> rl_Burst rl > 0) ''provider rate limit burst requires requests per second'',
     refuse_if (rl_enabled rl \<and> rl_Burst rl \<le> 0) ''provider rate limit burst must be positive when enabled'',
     refuse_if (cb_FailureThreshold cb < 0) ''provider circuit breaker failure threshold must be non-negative'',
     refuse_if (cb_OpenTimeout cb < 0) ''provider circuit breaker open timeout must be non-negative'',
     refuse_if (cb_HalfOpenMaxCalls cb < 0) ''provider circuit breaker half-open max calls must be non-negative'',
     refuse_if (cb_enabled cb \<and> cb_FailureThreshold cb \<le> 0) ''provider circuit breaker failure threshold must be positive when enabled'',
     refuse_if (cb_enabled cb \<and> cb_OpenTimeout cb \<le> 0) ''provider circuit breaker open timeout must be positive when enabled''])"

definition is_other_format :: "output_format \<Rightarrow> bool" where
  "is_other_format f \<longleftrightarrow> (case f of FormatOther _ \<Rightarrow> True | _ \<Rightarrow> False)"

definition format_text :: "output_format \<Rightarrow> string" where
  "format_text f = (case f of StructuredOutputJSONObject \<Rightarrow> ''json_object'' | StructuredOutputJSONSchema \<Rightarrow> ''json_schema''
     | StructuredOutputPrompt \<Rightarrow> ''prompt'' | FormatOther s \<Rightarrow> s)"

definition feature_checks :: "('e, 's, 'r, 'w) config \<Rightarrow> go_error option list" where
  "feature_checks c =
    [refuse_if (cf_MaxIterations c \<le> 0) ''max iterations must be positive'',
     refuse_if (cf_EnableToolCalling c \<and> registry_tools (cf_ToolRegistry c) = []) ''tool-calling requires at least one registered tool'',
     refuse_if (is_other_format (cf_StructuredOutputFormat c))
       (''structured output format '' @ quoted (format_text (cf_StructuredOutputFormat c)) @ '' is unsupported''),
     refuse_if (cf_EnableRerank c \<and> \<not> cf_EnableHybridSearch c) ''enable rerank requires hybrid search'',
     refuse_if (cf_HybridCandidateMultiplier c \<le> 0) ''hybrid candidate multiplier must be positive'',
     refuse_if (cf_HybridRRFK c \<le> 0) ''hybrid rrf k must be positive'',
     refuse_if (cf_RerankShortlistMultiplier c \<le> 0) ''rerank shortlist multiplier must be positive'',
     ws_validate (cf_WebSearch c) (cf_EnableWebSearch c),
     br_validate pdf_bridge (cf_PDFOCRBridge c),
     br_validate image_bridge (cf_ImageTextBridge c)]"

definition cf_Validate :: "url_parser \<Rightarrow> ('e, 's, 'r, 'w) config \<Rightarrow> go_error option" where
  "cf_Validate url c0 = (let c = withDefaults c0 in
     first_failure (provider_checks url c @ limit_checks c @ governance_checks (cf_ProviderGovernance c) @ feature_checks c))"

subsection \<open>The construction of an agent\<close>

text \<open>What \<^verbatim>\<open>New\<close> uses and this model has no source for: the provider clients, the opening of a store
  and of the manifest; and what is modelled elsewhere: the resilient wrapper of a chat model, the search
  of the default retriever and the web search tool.\<close>

record ('e, 's, 'r, 'w) platform =
  pl_url :: url_parser
  pl_OpenStore :: "string \<Rightarrow> ('s, 'w) action"
  pl_CloseStore :: "'s \<Rightarrow> 'w \<Rightarrow> 'w"
  pl_NewEmbedder :: "provider_config \<Rightarrow> 'e result"
  pl_NewProvider :: "provider_config \<Rightarrow> 'w chat_model result"
  pl_resilient :: "'w chat_model \<times> resilient_config \<Rightarrow> 'w chat_model"
  pl_manifest :: "string \<Rightarrow> 'w \<Rightarrow> (string \<times> string list) list option result"
  pl_search :: "('e, 's, 'r, 'w) config \<Rightarrow> 's \<Rightarrow> ('e \<times> resilient_config) option \<Rightarrow> string \<Rightarrow> 'w \<Rightarrow> search_hit list result \<times> 'w"
  pl_web_tool :: "('e, 's, 'r, 'w) config \<Rightarrow> 'w tool"

datatype ('r, 'w) agent_runner =
    InjectedRunner 'r
  | ToolCallingRunner "'w runner"
  | PlainRunner "'w chat_model \<times> 'w graph_tool list"

record ('e, 's, 'r, 'w) agent =
  ag_cfg :: "('e, 's, 'r, 'w) config"
  ag_store :: 's
  ag_embedder :: "('e \<times> resilient_config) option"
  ag_chunker :: chunker
  ag_toolRegistry :: "'w tool_registry"
  ag_runner :: "('r, 'w) agent_runner"
  ag_dirSync :: "unit dir_sync"

definition newOpenAIEmbedder :: "('e, 's, 'r, 'w) platform \<Rightarrow> provider_config \<Rightarrow> 'e result" where
  "newOpenAIEmbedder pl cfg = (case pv_Validate (pl_url pl) ''embedding'' (pv_normalized cfg) of
     Some e \<Rightarrow> Inl (wrap_err ''validate embedding config'' e)
   | None \<Rightarrow> map_sum (wrap_err ''new openai embedder'') id (pl_NewEmbedder pl (pv_normalized cfg)))"

definition newOpenAIChatModel :: "('e, 's, 'r, 'w) platform \<Rightarrow> provider_config \<Rightarrow> 'w chat_model result" where
  "newOpenAIChatModel pl cfg = (case pv_Validate (pl_url pl) ''chat'' (pv_normalized cfg) of
     Some e \<Rightarrow> Inl (wrap_err ''validate chat config'' e)
   | None \<Rightarrow> map_sum (wrap_err ''new openai chat model'') id (pl_NewProvider pl (pv_normalized cfg)))"

definition newAgentVectorStore :: "('e, 's, 'r, 'w) platform \<Rightarrow> ('e, 's, 'r, 'w) config \<Rightarrow> ('s, 'w) action" where
  "newAgentVectorStore pl c w = (case cf_StorageVectorStore c of Some s \<Rightarrow> (Inr s, w)
     | None \<Rightarrow> pl_OpenStore pl (cf_DataDir c) w)"

definition new_embedder :: "('e, 's, 'r, 'w) platform \<Rightarrow> ('e, 's, 'r, 'w) config \<Rightarrow> ('e \<times> resilient_config) option result" where
  "new_embedder pl c = (case (case cf_RuntimeEmbedder c of Some e \<Rightarrow> Inr e | None \<Rightarrow> newOpenAIEmbedder pl (embedding_config c)) of
     Inl e \<Rightarrow> Inl (wrap_err ''create embedder'' e)
   | Inr e \<Rightarrow> Inr (newResilient (Some e) (cf_ProviderGovernance c) ''openai'' (cf_EmbeddingModel c)))"

definition new_chat_model :: "('e, 's, 'r, 'w) platform \<Rightarrow> ('e, 's, 'r, 'w) config \<Rightarrow> 'w chat_model option result" where
  "new_chat_model pl c = (case (case cf_RuntimeChatModel c of Some m \<Rightarrow> Inr m | None \<Rightarrow> newOpenAIChatModel pl (chat_config c)) of
     Inl e \<Rightarrow> Inl (wrap_err ''create chat model'' e)
   | Inr m \<Rightarrow> Inr (map_option (pl_resilient pl) (newResilient (Some m) (cf_ProviderGovernance c) ''openai'' (cf_ChatModel c))))"

definition to_graph_tool :: "'w tool \<Rightarrow> 'w graph_tool" where
  "to_graph_tool t = \<lparr>gt_Name = tl_Name t, gt_Run = tl_Run t\<rparr>"

definition new_runner ::
  "('e, 's, 'r, 'w) config \<Rightarrow> 'w chat_model option \<Rightarrow> 'w tool_registry \<Rightarrow> ('r, 'w) agent_runner result" where
  "new_runner c model reg = (case cf_RuntimeToolCallingRunner c of
     Some r \<Rightarrow> Inr (InjectedRunner r)
   | None \<Rightarrow>
      (if cf_EnableToolCalling c
       then map_sum (wrap_err ''create tool-calling runner'') ToolCallingRunner
         (newToolCallingRunner model (Some reg) \<lparr>rn_MaxToolCalls = cf_MaxToolCalls c, rn_MaxIterations = cf_MaxIterations c,
            rn_Policy = cf_ToolCallPolicy c\<rparr>)
       else map_sum (wrap_err ''create chat runner'') PlainRunner
         (newChatRunner model (map (\<lambda>t. Some (to_graph_tool t)) (registry_tools (Some reg))))))"

text \<open>Everything after the store is open; an error here closes it.\<close>

definition build_agent ::
  "('e, 's, 'r, 'w) platform \<Rightarrow> ('e, 's, 'r, 'w) config \<Rightarrow> 's \<Rightarrow> 'w \<Rightarrow> ('e, 's, 'r, 'w) agent result" where
  "build_agent pl c store w = (case new_embedder pl c of Inl e \<Rightarrow> Inl e | Inr emb \<Rightarrow>
     (case new_chat_model pl c of Inl e \<Rightarrow> Inl e | Inr model \<Rightarrow>
     (case newChunker (cf_ChunkSize c) (cf_ChunkOverlap c) of Inl e \<Rightarrow> Inl (wrap_err ''create chunker'' e) | Inr chunker \<Rightarrow>
     (let reg = agent_tools (cf_ToolRegistry c) (newRetrievalTool (Some (pl_search pl c store emb)))
                  (if cf_EnableWebSearch c then Some (pl_web_tool pl c) else None) in
      case new_runner c model reg of Inl e \<Rightarrow> Inl e | Inr runner \<Rightarrow>
     (case newDirectorySyncState (cf_DataDir c) (pl_manifest pl (cf_DataDir c) w) () of
        Inl e \<Rightarrow> Inl (wrap_err ''create directory sync state'' e)
      | Inr sync \<Rightarrow> Inr \<lparr>ag_cfg = c, ag_store = store, ag_embedder = emb, ag_chunker = chunker, ag_toolRegistry = reg,
          ag_runner = runner, ag_dirSync = sync\<rparr>)))))"

definition new_agent :: "('e, 's, 'r, 'w) platform \<Rightarrow> ('e, 's, 'r, 'w) config \<Rightarrow> (('e, 's, 'r, 'w) agent, 'w) action" where
  "new_agent pl c0 w = (let c = withDefaults c0 in case cf_Validate (pl_url pl) c of
     Some e \<Rightarrow> (Inl e, w)
   | None \<Rightarrow> (case newAgentVectorStore pl c w of
       (Inl e, w) \<Rightarrow> (Inl (wrap_err ''create vector store'' e), w)
     | (Inr store, w) \<Rightarrow> (case build_agent pl c store w of
          Inl e \<Rightarrow> (Inl e, pl_CloseStore pl store w)
        | Inr a \<Rightarrow> (Inr a, w))))"

subsection \<open>Lemmas: defaults\<close>

lemma br_normalized_idem [simp]: "br_normalized (br_normalized c) = br_normalized c"
  by (simp add: br_normalized_def)

lemma default_text_idem: "d \<noteq> '''' \<Longrightarrow> \<not> blank d \<Longrightarrow> trim_space d = d \<Longrightarrow> default_text d (default_text d s) = default_text d s"
  by (simp add: default_text_def)

lemma ws_normalized_idem [simp]: "ws_normalized (ws_normalized c) = ws_normalized c"
proof -
  have "\<not> blank d \<and> trim_space d = d" if "d \<in> {''https://api.tavily.com/search'', ''basic'', ''general''}" for d
  proof -
    have "\<not> blank ''https://api.tavily.com/search''" "trim_space ''https://api.tavily.com/search'' = ''https://api.tavily.com/search''"
      "\<not> blank ''basic''" "trim_space ''basic'' = ''basic''" "\<not> blank ''general''" "trim_space ''general'' = ''general''"
      by code_simp+
    with that show ?thesis by auto
  qed
  then show ?thesis by (simp add: ws_normalized_def default_text_idem)
qed

lemma ab_normalized_idem [simp]: "ab_normalized (ab_normalized c) = ab_normalized c"
  by (simp add: ab_normalized_def normalizeStringSlice_def filter_map comp_def)

lemma pv_normalized_idem [simp]: "pv_normalized (pv_normalized c) = pv_normalized c"
  by (simp add: pv_normalized_def)

lemma pv_Validate_normalized [simp]: "pv_Validate url what (pv_normalized c) = pv_Validate url what c"
  by (simp add: pv_Validate_def)

lemma nonzero_idem [simp]: "nonzero d (nonzero d x) = nonzero d x"
  by (simp add: nonzero_def)

lemma withDefaults_idem [simp]: "withDefaults (withDefaults c) = withDefaults c"
  by (simp add: withDefaults_def cf_normalized_def Let_def gc_normalized_idem)

lemma cf_Validate_withDefaults [simp]: "cf_Validate url (withDefaults c) = cf_Validate url c"
  by (simp add: cf_Validate_def)

subsection \<open>Lemmas: validation\<close>

lemma first_failure_None: "first_failure cs = None \<longleftrightarrow> (\<forall>c \<in> set cs. c = None)"
  by (induction cs rule: first_failure.induct) auto

lemma first_failure_Some: "first_failure cs = Some e \<Longrightarrow> Some e \<in> set cs"
  by (induction cs rule: first_failure.induct) auto

lemma refuse_if_None [simp]: "refuse_if b t = None \<longleftrightarrow> \<not> b"
  by (simp add: refuse_if_def)

lemma refuse_if_error: "refuse_if b t = Some e \<Longrightarrow> err_is e ErrInvalidConfig"
  by (auto simp: refuse_if_def config_invalid_def split: if_split_asm)

lemma validated:
  assumes "cf_Validate url c = None" and "d = withDefaults c"
  shows "\<forall>r \<in> set (provider_checks url d). r = None" "\<forall>r \<in> set (limit_checks d). r = None"
    "\<forall>r \<in> set (governance_checks (cf_ProviderGovernance d)). r = None" "\<forall>r \<in> set (feature_checks d). r = None"
  using assms by (simp_all add: cf_Validate_def Let_def first_failure_None ball_Un)

lemma ws_validate_error: "ws_validate c b = Some e \<Longrightarrow> err_is e ErrInvalidConfig"
  by (auto simp: ws_validate_def Let_def config_invalid_def split: if_split_asm)

lemma br_validate_error: "br_validate what c = Some e \<Longrightarrow> err_is e ErrInvalidConfig"
  by (auto simp: br_validate_def Let_def split: if_split_asm prod.split_asm)

lemma component_check_error: "component_check what r = Some e \<Longrightarrow> err_is e ErrInvalidConfig"
  by (auto simp: component_check_def split: option.split_asm)

lemma cf_Validate_error:
  assumes "cf_Validate url c = Some e"
  shows "err_is e ErrInvalidConfig"
proof -
  let ?d = "withDefaults c"
  consider "Some e \<in> set (provider_checks url ?d)" | "Some e \<in> set (limit_checks ?d)"
    | "Some e \<in> set (governance_checks (cf_ProviderGovernance ?d))" | "Some e \<in> set (feature_checks ?d)"
    using first_failure_Some [OF assms [unfolded cf_Validate_def Let_def]] by auto
  then show ?thesis
  proof cases
    case 1
    then show ?thesis unfolding provider_checks_def
      by (auto split: if_split_asm intro: component_check_error [OF sym] )
  next
    case 2
    then show ?thesis unfolding limit_checks_def by (auto intro: refuse_if_error [OF sym])
  next
    case 3
    then show ?thesis unfolding governance_checks_def Let_def by (auto intro: refuse_if_error [OF sym])
  next
    case 4
    then show ?thesis unfolding feature_checks_def
      by (auto intro: refuse_if_error [OF sym] ws_validate_error [OF sym] br_validate_error [OF sym])
  qed
qed

subsection \<open>Lemmas: construction\<close>

lemma validated_limits:
  assumes "cf_Validate url c = None"
  shows "0 < cf_ChunkSize (withDefaults c)" "cf_ChunkSize (withDefaults c) \<le> maxEvidenceChars"
    "0 \<le> cf_ChunkOverlap (withDefaults c)" "cf_ChunkOverlap (withDefaults c) < cf_ChunkSize (withDefaults c)"
    "0 < cf_MaxToolCalls (withDefaults c)" "0 < cf_TopK (withDefaults c)"
  using validated(2) [OF assms refl] by (simp_all add: limit_checks_def)

lemma new_embedder_ok:
  assumes "cf_Validate (pl_url pl) c = None" "d = withDefaults c"
    and "cf_RuntimeEmbedder d = None \<Longrightarrow> pl_NewEmbedder pl (pv_normalized (embedding_config d)) = Inr e"
  shows "\<exists>e. new_embedder pl d = Inr (Some e)"
proof (cases "cf_RuntimeEmbedder d")
  case None
  then have "pv_Validate (pl_url pl) ''embedding'' (embedding_config d) = None"
    using validated(1) [OF assms(1,2)] by (simp add: provider_checks_def component_check_def split: option.split_asm)
  then show ?thesis using assms(3) None by (simp add: new_embedder_def newOpenAIEmbedder_def newResilient_def)
qed (simp add: new_embedder_def newResilient_def)

lemma new_chat_model_ok:
  assumes "cf_Validate (pl_url pl) c = None" "d = withDefaults c"
    and "cf_RuntimeChatModel d = None \<Longrightarrow> pl_NewProvider pl (pv_normalized (chat_config d)) = Inr m"
  shows "\<exists>m. new_chat_model pl d = Inr (Some m)"
proof (cases "cf_RuntimeChatModel d")
  case None
  then have "pv_Validate (pl_url pl) ''chat'' (chat_config d) = None"
    using validated(1) [OF assms(1,2)] by (simp add: provider_checks_def component_check_def split: option.split_asm)
  then show ?thesis using assms(3) None by (simp add: new_chat_model_def newOpenAIChatModel_def newResilient_def)
qed (simp add: new_chat_model_def newResilient_def)

lemma agent_tools_nonempty: "tl_Name rt = ''retrieve_context'' \<Longrightarrow> reg_tools (agent_tools cfg rt web) ''retrieve_context'' \<noteq> None"
  by (auto simp: agent_tools_def registerOrReplace_def check_tool_def Let_def split: option.split)

lemma newRetrievalTool_name [simp]: "tl_Name (newRetrievalTool r) = ''retrieve_context''"
  by (simp add: newRetrievalTool_def)

text \<open>The registry given in the configuration was made by \<^verbatim>\<open>NewToolRegistry\<close> and \<^verbatim>\<open>Register\<close>.\<close>

definition registry_config_ok :: "('e, 's, 'r, 'w) config \<Rightarrow> bool" where
  "registry_config_ok c \<longleftrightarrow> (case cf_ToolRegistry c of None \<Rightarrow> True | Some r \<Rightarrow> reg_ok r)"

lemma agent_tools_ok:
  assumes "case cfg of None \<Rightarrow> True | Some r \<Rightarrow> reg_ok r"
  shows "reg_ok (agent_tools cfg rt web)"
proof -
  have "reg_ok (registry_clone cfg)"
    using assms reg_ok_new [of "[]"] by (auto simp: registry_clone_def split: option.split_asm)
  then show ?thesis by (auto simp: agent_tools_def Let_def reg_ok_replace split: option.split)
qed

lemma new_runner_ok:
  assumes "0 < cf_MaxToolCalls c" "0 < cf_MaxIterations c" "reg_ok reg" "reg_tools reg n \<noteq> None"
  shows "\<exists>r. new_runner c (Some m) reg = Inr r
    \<and> (\<forall>rn. r = ToolCallingRunner rn \<longrightarrow> 0 < rn_MaxToolCalls (rn_cfg rn) \<and> 0 < rn_MaxIterations (rn_cfg rn))"
proof -
  have "registry_tools (Some reg) \<noteq> []" using assms(3,4) by (auto simp: registry_tools_def reg_ok_def)
  with assms(1,2) show ?thesis
    by (cases "cf_RuntimeToolCallingRunner c") (auto simp: new_runner_def newToolCallingRunner_def newChatRunner_def Let_def)
qed

lemma newDirectorySyncState_ok: "manifest = Inr man \<Longrightarrow> \<exists>s. newDirectorySyncState dir manifest d = Inr s"
  by (cases man) (simp_all add: newDirectorySyncState_def)

lemma build_agent_ok:
  assumes v: "cf_Validate (pl_url pl) c = None" and d: "d = withDefaults c" and reg: "registry_config_ok d"
    and emb: "cf_RuntimeEmbedder d = None \<Longrightarrow> pl_NewEmbedder pl (pv_normalized (embedding_config d)) = Inr e"
    and chat: "cf_RuntimeChatModel d = None \<Longrightarrow> pl_NewProvider pl (pv_normalized (chat_config d)) = Inr m"
    and man: "pl_manifest pl (cf_DataDir d) w = Inr man"
  shows "\<exists>a. build_agent pl d store w = Inr a \<and> ag_store a = store
    \<and> chk_size (ag_chunker a) = cf_ChunkSize d \<and> chunker_ok (ag_chunker a)
    \<and> reg_tools (ag_toolRegistry a) ''retrieve_context'' \<noteq> None
    \<and> (\<forall>rn. ag_runner a = ToolCallingRunner rn \<longrightarrow> 0 < rn_MaxToolCalls (rn_cfg rn) \<and> 0 < rn_MaxIterations (rn_cfg rn))"
proof -
  note limits = validated_limits [OF v, folded d]
  have it: "0 < cf_MaxIterations d" using validated(4) [OF v d] by (simp add: feature_checks_def)
  obtain e' m' where em: "new_embedder pl d = Inr (Some e')" "new_chat_model pl d = Inr (Some m')"
    using new_embedder_ok [OF v d emb] new_chat_model_ok [OF v d chat] by blast
  define ch where "ch = \<lparr>chk_size = cf_ChunkSize d, chk_overlap = cf_ChunkOverlap d\<rparr>"
  have ch: "newChunker (cf_ChunkSize d) (cf_ChunkOverlap d) = Inr ch" using limits by (simp add: newChunker_def ch_def)
  define reg' where "reg' = agent_tools (cf_ToolRegistry d) (newRetrievalTool (Some (pl_search pl d store (Some e'))))
    (if cf_EnableWebSearch d then Some (pl_web_tool pl d) else None)"
  have r: "reg_ok reg'" "reg_tools reg' ''retrieve_context'' \<noteq> None"
    using reg by (simp_all add: reg'_def agent_tools_ok registry_config_ok_def agent_tools_nonempty)
  obtain rn where rn: "new_runner d (Some m') reg' = Inr rn"
    "\<forall>r. rn = ToolCallingRunner r \<longrightarrow> 0 < rn_MaxToolCalls (rn_cfg r) \<and> 0 < rn_MaxIterations (rn_cfg r)"
    using new_runner_ok [OF limits(5) it r] by blast
  obtain s where s: "newDirectorySyncState (cf_DataDir d) (pl_manifest pl (cf_DataDir d) w) () = Inr s"
    using newDirectorySyncState_ok [OF man, of "cf_DataDir d" "()"] by (elim exE)
  have "build_agent pl d store w = Inr \<lparr>ag_cfg = d, ag_store = store, ag_embedder = Some e', ag_chunker = ch,
      ag_toolRegistry = reg', ag_runner = rn, ag_dirSync = s\<rparr>"
    unfolding build_agent_def em ch sum.case Let_def reg'_def [symmetric] rn(1) s by (rule refl)
  then show ?thesis using newChunker_ok [OF ch] r(2) rn(2) by simp
qed

text \<open>The stores that are open; opening one that fails leaves none, closing takes it away.\<close>

definition store_ledger :: "('e, 's, 'r, 'w) platform \<Rightarrow> ('w \<Rightarrow> 's set) \<Rightarrow> bool" where
  "store_ledger pl opens \<longleftrightarrow>
     (\<forall>dir w r w'. pl_OpenStore pl dir w = (r, w') \<longrightarrow>
        (case r of Inl _ \<Rightarrow> opens w' = opens w | Inr s \<Rightarrow> s \<notin> opens w \<and> opens w' = insert s (opens w)))
     \<and> (\<forall>s w. opens (pl_CloseStore pl s w) = opens w - {s})"

lemma ledger_open:
  assumes "store_ledger pl opens" "pl_OpenStore pl dir w = (r, w')"
  shows "case r of Inl _ \<Rightarrow> opens w' = opens w | Inr s \<Rightarrow> s \<notin> opens w \<and> opens w' = insert s (opens w)"
proof -
  note c = assms(1) [unfolded store_ledger_def]
  show ?thesis by (rule conjunct1 [OF c, rule_format, OF assms(2)])
qed

lemma build_agent_store: "build_agent pl c s w = Inr a \<Longrightarrow> ag_store a = s"
  by (auto simp: build_agent_def Let_def split: sum.split_asm)

subsection \<open>Properties\<close>

text \<open>C34: A configuration that Validate accepts builds an agent whenever its store opens, its manifest reads
  and the provider clients accept their settings: no constructor of the library refuses what validation let
  through. The chunker never cuts a chunk longer than the evidence budget, the retrieval tool is there, and
  the tool-calling runner has positive bounds.\<close>

theorem valid_config_builds_an_agent:
  assumes "cf_Validate (pl_url pl) c = None" and "d = withDefaults c" and "registry_config_ok d"
    and "newAgentVectorStore pl d w = (Inr store, w')"
    and "cf_RuntimeEmbedder d = None \<Longrightarrow> pl_NewEmbedder pl (pv_normalized (embedding_config d)) = Inr e"
    and "cf_RuntimeChatModel d = None \<Longrightarrow> pl_NewProvider pl (pv_normalized (chat_config d)) = Inr m"
    and "pl_manifest pl (cf_DataDir d) w' = Inr man"
  shows "\<exists>a. new_agent pl c w = (Inr a, w') \<and> ag_store a = store
    \<and> chunker_ok (ag_chunker a) \<and> chk_size (ag_chunker a) \<le> maxEvidenceChars
    \<and> reg_tools (ag_toolRegistry a) ''retrieve_context'' \<noteq> None
    \<and> (\<forall>rn. ag_runner a = ToolCallingRunner rn \<longrightarrow> 0 < rn_MaxToolCalls (rn_cfg rn) \<and> 0 < rn_MaxIterations (rn_cfg rn))"
proof -
  obtain a where "build_agent pl d store w' = Inr a" "ag_store a = store" "chk_size (ag_chunker a) = cf_ChunkSize d"
    "chunker_ok (ag_chunker a)" "reg_tools (ag_toolRegistry a) ''retrieve_context'' \<noteq> None"
    "\<forall>rn. ag_runner a = ToolCallingRunner rn \<longrightarrow> 0 < rn_MaxToolCalls (rn_cfg rn) \<and> 0 < rn_MaxIterations (rn_cfg rn)"
    using build_agent_ok [OF assms(1-3,5-7)] by blast
  moreover from this(1) have "new_agent pl c w = (Inr a, w')"
    using assms(1,4) by (simp add: new_agent_def Let_def assms(2))
  ultimately show ?thesis using validated_limits(2) [OF assms(1)] assms(2) by auto
qed


text \<open>Defaults are applied once and for all, a configuration is as valid with its defaults as without, and
  every refusal is an ErrInvalidConfig.\<close>

theorem validation_is_stable_under_defaults:
  "withDefaults (withDefaults c) = withDefaults c \<and> cf_Validate url (withDefaults c) = cf_Validate url c
   \<and> (\<forall>e. cf_Validate url c = Some e \<longrightarrow> err_is e ErrInvalidConfig)"
  by (simp add: cf_Validate_error)


subsection \<open>Concrete configurations\<close>

definition demo_config :: "(unit, nat, unit, nat set) config" where
  "demo_config = \<lparr>cf_ChatModel = '' m '', cf_ChatBaseURL = ''http://h'', cf_ChatAPIKey = ''k'', cf_EmbeddingModel = ''e'',
     cf_EmbeddingBaseURL = '''', cf_EmbeddingAPIKey = '''', cf_DataDir = '''', cf_TopK = 0, cf_SimilarityThreshold = 0,
     cf_ChunkSize = 0, cf_ChunkOverlap = 100, cf_MaxHistoryRounds = 0, cf_MaxToolCalls = 0, cf_MaxIterations = 0,
     cf_RequestTimeout = 0, cf_MaxExecutionDuration = 0, cf_MaxPromptTokens = 0, cf_MaxHistoryTokens = 0,
     cf_MaxEvidenceTokens = 0, cf_MaxSummaryTokens = 0, cf_MaxMemoryTokens = 0, cf_LongTermMemoryTTL = 0,
     cf_LongTermMemoryMaxStoredRunes = 0, cf_EnablePromptHardening = False,
     cf_AccessBoundary = \<lparr>ab_Namespace = '''', ab_AllowedSourcePaths = [], ab_AllowedSourcePrefixes = [], ab_Policy = None\<rparr>,
     cf_EnableHybridSearch = True, cf_EnableRerank = True, cf_EnableWebSearch = False, cf_EnableToolCalling = False,
     cf_ToolCallPolicy = None, cf_StructuredOutputFormat = FormatOther '''', cf_ReasoningEffort = '''',
     cf_HybridCandidateMultiplier = 0, cf_HybridRRFK = 0, cf_RerankShortlistMultiplier = 0, cf_RuntimeChatModel = None,
     cf_RuntimeEmbedder = None, cf_RuntimeToolCallingRunner = None, cf_StorageVectorStore = None,
     cf_ProviderGovernance = \<lparr>gc_RetryMaxAttempts = 0, gc_RetryBaseDelay = 0, gc_RetryMaxDelay = 0,
       gc_RateLimit = \<lparr>rl_RequestsPerSecond = 0, rl_Burst = 0\<rparr>,
       gc_CircuitBreaker = \<lparr>cb_FailureThreshold = 0, cb_OpenTimeout = 0, cb_HalfOpenMaxCalls = 0\<rparr>,
       gc_Pricing = \<lparr>pr_ChatModels = Map.empty, pr_EmbeddingModels = Map.empty, pr_WebSearchPerCallUSD = 0\<rparr>\<rparr>,
     cf_ToolRegistry = None,
     cf_PDFOCRBridge = \<lparr>br_Command = '''', br_Args = [], br_Env = [], br_WorkDir = '''', br_MinDirectTextRunes = 0\<rparr>,
     cf_ImageTextBridge = \<lparr>br_Command = '''', br_Args = [], br_Env = [], br_WorkDir = '''', br_MinDirectTextRunes = 0\<rparr>,
     cf_WebSearch = \<lparr>ws_APIKey = '''', ws_BaseURL = '''', ws_MaxResults = 0, ws_SearchDepth = '''', ws_Topic = ''''\<rparr>,
     cf_has_Logger = False, cf_LongTermMemoryTopK = 0, cf_LongTermMemoryThreshold = 0\<rparr>"

definition demo_platform :: "bool \<Rightarrow> (unit, nat, unit, nat set) platform" where
  "demo_platform ok = \<lparr>pl_url = \<lambda>_. Inr (''http'', ''h''),
     pl_OpenStore = \<lambda>_ w. if 0 \<in> w then (Inl (errorf ''open'' []), w) else (Inr 0, insert 0 w),
     pl_CloseStore = \<lambda>s w. w - {s}, pl_NewEmbedder = \<lambda>_. if ok then Inr () else Inl (errorf ''no client'' []),
     pl_NewProvider = \<lambda>_. Inr \<lparr>cm_Generate = \<lambda>_ w. ((text_message RoleAssistant ''hi'', None), w),
       cm_Stream = \<lambda>_ w. (StreamEnd () None, w), cm_WithOptions = None\<rparr>,
     pl_resilient = fst, pl_manifest = \<lambda>_ _. Inr None, pl_search = \<lambda>_ _ _ _ w. (Inr [], w),
     pl_web_tool = \<lambda>_. \<lparr>tl_Name = ''search_web'', tl_Description = '''', tl_Structured = None, tl_Run = \<lambda>_ w. (('''', None), w)\<rparr>\<rparr>"

lemma demo_strings: "trim_space '' m '' = ''m''" "trim_space ''http://h'' = ''http://h''" "trim_space ''k'' = ''k''" "trim_space ''e'' = ''e''"
  "trim_space '''' = ''''" "\<not> blank ''http://h''" "\<not> blank ''k''" "\<not> blank ''m''" "\<not> blank ''e''"
  by code_simp+

lemma demo_valid: "cf_Validate (pl_url (demo_platform ok)) demo_config = None"
  by (simp add: cf_Validate_def Let_def first_failure_None ball_Un provider_checks_def limit_checks_def governance_checks_def
      feature_checks_def withDefaults_def cf_normalized_def demo_config_def demo_strings component_check_def chat_config_def
      embedding_config_def pv_Validate_def pv_normalized_def nonzero_def parseAndValidateBaseURL_def demo_platform_def
      ws_validate_def br_validate_def br_normalized_def br_enabled_def gc_normalized_def rl_normalized_def rl_enabled_def
      cb_normalized_def cb_enabled_def is_other_format_def)

theorem valid_config_builds_an_agent_witness:
  "\<exists>a. new_agent (demo_platform True) demo_config {} = (Inr a, {0}) \<and> ag_store a = 0
     \<and> chk_size (ag_chunker a) \<le> maxEvidenceChars"
proof -
  let ?d = "withDefaults demo_config"
  have "registry_config_ok ?d" "newAgentVectorStore (demo_platform True) ?d {} = (Inr 0, {0})"
    "pl_manifest (demo_platform True) (cf_DataDir ?d) {0} = Inr None"
    "pl_NewEmbedder (demo_platform True) (pv_normalized (embedding_config ?d)) = Inr ()"
    by (simp_all add: registry_config_ok_def newAgentVectorStore_def withDefaults_def cf_normalized_def demo_config_def
        demo_platform_def Let_def)
  moreover obtain m where "pl_NewProvider (demo_platform True) (pv_normalized (chat_config ?d)) = Inr m"
    by (simp add: demo_platform_def)
  ultimately show ?thesis
    using valid_config_builds_an_agent [OF demo_valid refl, of True "{}" 0 "{0}"] by blast
qed


theorem validation_is_stable_under_defaults_witness:
  "\<exists>e. cf_Validate (\<lambda>_. Inr (''ftp'', ''h'')) demo_config = Some e \<and> err_is e ErrInvalidConfig"
proof -
  have "cf_Validate (\<lambda>_. Inr (''ftp'', ''h'')) demo_config \<noteq> None"
    by (simp add: cf_Validate_def Let_def first_failure_None provider_checks_def withDefaults_def cf_normalized_def
        demo_config_def demo_strings component_check_def chat_config_def pv_Validate_def pv_normalized_def
        parseAndValidateBaseURL_def)
  then show ?thesis using validation_is_stable_under_defaults by blast
qed

subsection \<open>Findings\<close>

text \<open>The switch of the prompt hardening has no effect, and no top-k of zero turns the long-term memory off.\<close>

lemma hardening_cannot_be_disabled:
  "cf_EnablePromptHardening (withDefaults c)" "cf_LongTermMemoryTopK (withDefaults c) \<noteq> 0"
  by (simp_all add: withDefaults_def nonzero_def Let_def)

end
