(* ===== verification/PgVector.thy ===== *)
theory PgVector
  imports Store Actions Tools
begin

section \<open>The PostgreSQL vector store\<close>

text \<open>
  \<^verbatim>\<open>pgvector_store.go\<close>. The database is a record of the calls that the store makes, each with the text
  of its statement and its arguments; \<open>pg_ok\<close> is what PostgreSQL documents of a transaction and of the
  two statements of \<open>pg_Upsert\<close>. Quoting of identifiers, the text form of a vector and JSON are
  parameters. Timeouts only bound the calls and are left out; the order in which Go runs through the
  map of parents is a parameter.
\<close>

subsection \<open>Configuration\<close>

text \<open>\<open>pgc_Pool\<close>, \<open>pgc_Client\<close> and \<open>pgc_ClientConfig\<close> are the three injected connection sources.\<close>

record ('p, 'c, 'o) pg_config =
  pgc_Pool :: "'p option"
  pgc_Client :: "'c option"
  pgc_ClientConfig :: "'o option"
  pgc_ConnString :: string
  pgc_SchemaName :: string
  pgc_TableName :: string
  pgc_Dimensions :: int
  pgc_DistanceMetric :: string
  pgc_AutoCreateExtension :: bool
  pgc_AutoCreateSchema :: bool
  pgc_AutoCreateTable :: bool
  pgc_AutoCreateIndexes :: bool
  pgc_IndexStrategy :: string
  pgc_UpsertBatchSize :: int
  pgc_HNSWM :: int
  pgc_HNSWEfConstruction :: int
  pgc_HNSWEfSearch :: int
  pgc_IVFFlatLists :: int
  pgc_IVFFlatProbes :: int

definition or_default :: "'a :: zero \<Rightarrow> 'a \<Rightarrow> 'a" where
  "or_default d x = (if x = 0 then d else x)"

definition or_text :: "string \<Rightarrow> string \<Rightarrow> string" where
  "or_text d s = (if s = '''' then d else s)"

definition pgc_normalized :: "('p, 'c, 'o) pg_config \<Rightarrow> ('p, 'c, 'o) pg_config" where
  "pgc_normalized c = c\<lparr>pgc_ConnString := trim_space (pgc_ConnString c),
     pgc_SchemaName := or_text ''public'' (trim_space (pgc_SchemaName c)), pgc_TableName := trim_space (pgc_TableName c),
     pgc_DistanceMetric := or_text ''cosine'' (to_lower (trim_space (pgc_DistanceMetric c))),
     pgc_IndexStrategy := or_text ''none'' (to_lower (trim_space (pgc_IndexStrategy c))),
     pgc_UpsertBatchSize := or_default 200 (pgc_UpsertBatchSize c),
     pgc_AutoCreateExtension := (if \<not> pgc_AutoCreateExtension c then True else pgc_AutoCreateExtension c),
     pgc_AutoCreateSchema := (if \<not> pgc_AutoCreateSchema c then True else pgc_AutoCreateSchema c),
     pgc_AutoCreateTable := (if \<not> pgc_AutoCreateTable c then True else pgc_AutoCreateTable c),
     pgc_AutoCreateIndexes := (if \<not> pgc_AutoCreateIndexes c then True else pgc_AutoCreateIndexes c),
     pgc_HNSWM := or_default 16 (pgc_HNSWM c), pgc_HNSWEfConstruction := or_default 64 (pgc_HNSWEfConstruction c),
     pgc_HNSWEfSearch := or_default 100 (pgc_HNSWEfSearch c), pgc_IVFFlatLists := or_default 100 (pgc_IVFFlatLists c),
     pgc_IVFFlatProbes := or_default 10 (pgc_IVFFlatProbes c)\<rparr>"

definition connectionSourceCount :: "('p, 'c, 'o) pg_config \<Rightarrow> nat" where
  "connectionSourceCount c = of_bool (pgc_Pool c \<noteq> None) + of_bool (pgc_Client c \<noteq> None)
     + of_bool (pgc_ClientConfig c \<noteq> None) + of_bool (pgc_ConnString c \<noteq> '''')"

definition pg_invalid :: "string \<Rightarrow> go_error" where
  "pg_invalid t = invalid_config (''pgvector '' @ t @ '': ragagent: invalid config'')"

definition pgc_validate :: "('p, 'c, 'o) pg_config \<Rightarrow> go_error option" where
  "pgc_validate c0 = (let c = pgc_normalized c0 in
     if connectionSourceCount c = 0 then Some (pg_invalid ''connection source is required'')
     else if connectionSourceCount c > 1 then Some (pg_invalid ''connection sources must be mutually exclusive'')
     else if pgc_TableName c = '''' then Some (pg_invalid ''table name is required'')
     else if pgc_Dimensions c \<le> 0 then Some (pg_invalid ''dimensions must be positive'')
     else if pgc_DistanceMetric c \<noteq> ''cosine''
       then Some (pg_invalid (''distance metric '' @ quoted (pgc_DistanceMetric c) @ '' is unsupported''))
     else if pgc_IndexStrategy c \<notin> {''none'', ''hnsw'', ''ivfflat''}
       then Some (pg_invalid (''index strategy '' @ quoted (pgc_IndexStrategy c) @ '' is unsupported''))
     else if pgc_UpsertBatchSize c \<le> 0 then Some (pg_invalid ''upsert batch size must be positive'')
     else None)"

subsection \<open>Statements and the database\<close>

datatype pg_arg = PText string | PTexts "string list" | PInt int | PReal real

record pg_row =
  pw_ChunkID :: string
  pw_ParentID :: string
  pw_SourcePath :: string
  pw_Title :: string
  pw_Text :: string
  pw_StartRune :: int
  pw_EndRune :: int
  pw_Metadata :: string
  pw_Score :: real

text \<open>\<open>pg_SendBatch\<close> gives the result of every statement of the batch and of closing it; a query gives its
  rows, each scanned or not, and the error of the iteration.\<close>

record 'w database =
  pg_Exec :: "string \<Rightarrow> pg_arg list \<Rightarrow> 'w effect"
  pg_Query :: "string \<Rightarrow> pg_arg list \<Rightarrow> (pg_row result list \<times> go_error option, 'w) action"
  pg_Begin :: "'w effect"
  tx_Exec :: "string \<Rightarrow> pg_arg list \<Rightarrow> 'w effect"
  tx_Query :: "string \<Rightarrow> pg_arg list \<Rightarrow> (pg_row result list \<times> go_error option, 'w) action"
  tx_SendBatch :: "(string \<times> pg_arg list) list \<Rightarrow> 'w \<Rightarrow> (go_error option list \<times> go_error option) \<times> 'w"
  tx_Commit :: "'w effect"
  tx_Rollback :: "'w effect"

record pg_codec =
  pk_Sanitize :: "string list \<Rightarrow> string"
  pk_Vector :: "embedding \<Rightarrow> string"
  pk_Marshal :: "metadata \<Rightarrow> string result"
  pk_Unmarshal :: "string \<Rightarrow> metadata option result"

record pg_store =
  ps_table :: string
  ps_TableName :: string
  ps_SchemaName :: string
  ps_Dimensions :: int
  ps_BatchSize :: int
  ps_IndexStrategy :: string
  ps_HNSW :: "int \<times> int \<times> int"
  ps_IVFFlat :: "int \<times> int"

definition marshalMetadataJSON :: "pg_codec \<Rightarrow> metadata \<Rightarrow> string result" where
  "marshalMetadataJSON k m = (if m = Map.empty then Inr ''{}'' else pk_Marshal k m)"

definition validateChunk :: "pg_store \<Rightarrow> chunk_record \<Rightarrow> go_error option" where
  "validateChunk s c =
     (if cr_ChunkID c = '''' then Some (errorf ''chunk id is empty'' [])
      else if cr_ParentID c = '''' then Some (errorf (''parent id is empty for chunk '' @ quoted (cr_ChunkID c)) [])
      else if int (length (cr_Embedding c)) \<noteq> ps_Dimensions s
        then Some (errorf (''chunk '' @ quoted (cr_ChunkID c) @ '' embedding dimensions '' @ nat_str (length (cr_Embedding c))
          @ '' do not match store dimensions '' @ itoa (ps_Dimensions s)) [])
      else None)"

subsection \<open>Upsert\<close>

definition upsertSQL :: "string \<Rightarrow> string" where
  "upsertSQL table = NL @ ''INSERT INTO '' @ table @ '' ('' @ NL @ ''    chunk_id,'' @ NL @ ''    parent_id,'' @ NL
     @ ''    source_path,'' @ NL @ ''    title,'' @ NL @ ''    content,'' @ NL @ ''    start_rune,'' @ NL @ ''    end_rune,'' @ NL
     @ ''    metadata,'' @ NL @ ''    embedding,'' @ NL @ ''    updated_at'' @ NL @ '') VALUES ('' @ NL
     @ ''    $1, $2, $3, $4, $5, $6, $7, $8::jsonb, $9::vector, now()'' @ NL @ '')'' @ NL
     @ ''ON CONFLICT (chunk_id) DO UPDATE SET'' @ NL @ ''    parent_id = EXCLUDED.parent_id,'' @ NL
     @ ''    source_path = EXCLUDED.source_path,'' @ NL @ ''    title = EXCLUDED.title,'' @ NL
     @ ''    content = EXCLUDED.content,'' @ NL @ ''    start_rune = EXCLUDED.start_rune,'' @ NL
     @ ''    end_rune = EXCLUDED.end_rune,'' @ NL @ ''    metadata = EXCLUDED.metadata,'' @ NL
     @ ''    embedding = EXCLUDED.embedding,'' @ NL @ ''    updated_at = now()''"

definition staleSQL :: "string \<Rightarrow> string" where
  "staleSQL table = ''DELETE FROM '' @ table @ '' WHERE parent_id = $1 AND NOT (chunk_id = ANY($2::text[]))''"

definition upsert_args :: "pg_codec \<Rightarrow> chunk_record \<Rightarrow> pg_arg list result" where
  "upsert_args k c = (case marshalMetadataJSON k (cr_Metadata c) of Inl e \<Rightarrow> Inl (wrap_err ''marshal chunk metadata'' e)
   | Inr j \<Rightarrow> Inr [PText (cr_ChunkID c), PText (cr_ParentID c), PText (cr_SourcePath c), PText (cr_Title c), PText (cr_Text c),
       PInt (cr_StartRune c), PInt (cr_EndRune c), PText j, PText (pk_Vector k (cr_Embedding c))])"

fun queue_batch :: "pg_codec \<Rightarrow> string \<Rightarrow> chunk_record list \<Rightarrow> (string \<times> pg_arg list) list result" where
  "queue_batch k table [] = Inr []"
| "queue_batch k table (c # cs) = (case upsert_args k c of Inl e \<Rightarrow> Inl e
     | Inr args \<Rightarrow> map_sum id ((#) (upsertSQL table, args)) (queue_batch k table cs))"

text \<open>Reading the results of a batch: the first error is reported with the chunk it belongs to.\<close>

fun batch_error :: "chunk_record list \<Rightarrow> go_error option list \<Rightarrow> go_error option" where
  "batch_error (c # cs) (Some e # rs) = Some (wrap_err (''upsert pgvector chunk '' @ quoted (cr_ChunkID c)) e)"
| "batch_error (c # cs) (None # rs) = batch_error cs rs"
| "batch_error cs rs = None"

definition send_batch :: "'w database \<Rightarrow> pg_codec \<Rightarrow> string \<Rightarrow> chunk_record list \<Rightarrow> 'w effect" where
  "send_batch db k table cs w = (case queue_batch k table cs of Inl e \<Rightarrow> (Some e, w)
   | Inr batch \<Rightarrow> (case tx_SendBatch db batch w of ((rs, closing), w) \<Rightarrow>
      (case batch_error cs rs of Some e \<Rightarrow> (Some e, w)
       | None \<Rightarrow> (map_option (wrap_err ''close pgvector upsert batch'') closing, w))))"

text \<open>\<^verbatim>\<open>for start := 0; start < len(chunks); start += size\<close>. A store made by \<^verbatim>\<open>NewPGVectorStore\<close> has a
  positive batch size; the loop does not end with another one, so it stops here.\<close>

function send_batches :: "'w database \<Rightarrow> pg_codec \<Rightarrow> string \<Rightarrow> nat \<Rightarrow> chunk_record list \<Rightarrow> 'w effect" where
  "send_batches db k table sz cs w = (if cs = [] \<or> sz = 0 then (None, w)
     else case send_batch db k table (take sz cs) w of (Some e, w) \<Rightarrow> (Some e, w)
        | (None, w) \<Rightarrow> send_batches db k table sz (drop sz cs) w)"
  by pat_completeness auto
termination by (relation "measure (\<lambda>(db, k, table, sz, cs, w). length cs)") auto

declare send_batches.simps [simp del]

definition chunk_ids :: "chunk_record list \<Rightarrow> string \<Rightarrow> string list" where
  "chunk_ids cs p = map cr_ChunkID (filter (\<lambda>c. cr_ParentID c = p) cs)"

fun delete_stale :: "'w database \<Rightarrow> string \<Rightarrow> chunk_record list \<Rightarrow> string list \<Rightarrow> 'w effect" where
  "delete_stale db table cs [] w = (None, w)"
| "delete_stale db table cs (p # ps) w = (case tx_Exec db (staleSQL table) [PText p, PTexts (chunk_ids cs p)] w of
     (Some e, w) \<Rightarrow> (Some (wrap_err (''delete stale pgvector chunks for parent '' @ quoted p) e), w)
   | (None, w) \<Rightarrow> delete_stale db table cs ps w)"

fun first_invalid :: "pg_store \<Rightarrow> chunk_record list \<Rightarrow> go_error option" where
  "first_invalid s [] = None"
| "first_invalid s (c # cs) = (case validateChunk s c of Some e \<Rightarrow> Some e | None \<Rightarrow> first_invalid s cs)"

definition upsert_tx :: "'w database \<Rightarrow> pg_codec \<Rightarrow> pg_store \<Rightarrow> string list \<Rightarrow> chunk_record list \<Rightarrow> 'w effect" where
  "upsert_tx db k s parents chunks =
     effThen (send_batches db k (ps_table s) (nat (ps_BatchSize s)) chunks)
       (effThen (delete_stale db (ps_table s) chunks parents)
         (\<lambda>w. case tx_Commit db w of (e, w) \<Rightarrow> (map_option (wrap_err ''commit pgvector upsert tx'') e, w)))"

text \<open>\<open>order\<close> is the order in which the map of parents is gone through; the deferred rollback runs however
  the function ends.\<close>

definition pg_Upsert :: "'w database \<Rightarrow> pg_codec \<Rightarrow> (string list \<Rightarrow> string list) \<Rightarrow> pg_store \<Rightarrow> chunk_record list \<Rightarrow> 'w effect" where
  "pg_Upsert db k order s chunks w = (if chunks = [] then (None, w)
     else case first_invalid s chunks of Some e \<Rightarrow> (Some e, w)
     | None \<Rightarrow> (case pg_Begin db w of (Some e, w) \<Rightarrow> (Some (wrap_err ''begin pgvector upsert tx'' e), w)
       | (None, w) \<Rightarrow> (case upsert_tx db k s (order (remdups (map cr_ParentID chunks))) chunks w of
            (e, w) \<Rightarrow> (e, snd (tx_Rollback db w)))))"

subsection \<open>Search\<close>

text \<open>A statement under construction: its text, its arguments and the number of the next placeholder.\<close>

type_synonym statement = "string \<times> pg_arg list \<times> int"

definition add_clause :: "bool \<Rightarrow> string \<Rightarrow> string \<Rightarrow> pg_arg \<Rightarrow> statement \<Rightarrow> statement" where
  "add_clause b before after arg st = (if b then (case st of (sql, args, pos) \<Rightarrow>
     (sql @ before @ ''$'' @ itoa pos @ after, args @ [arg], pos + 1)) else st)"

definition search_head :: "string \<Rightarrow> string" where
  "search_head table = ''SELECT chunk_id, parent_id, source_path, title, content, start_rune, end_rune, metadata, ''
     @ ''1 - (embedding <=> $1::vector) AS score FROM '' @ table @ '' WHERE 1 = 1''"

definition search_statement :: "pg_codec \<Rightarrow> pg_store \<Rightarrow> embedding \<Rightarrow> int \<Rightarrow> real \<Rightarrow> search_filter \<Rightarrow> string \<Rightarrow> statement" where
  "search_statement k s q topK threshold f meta =
     (let st = (search_head (ps_table s), [PText (pk_Vector k q)], 2);
          st = add_clause (sf_SourcePaths f \<noteq> []) '' AND source_path = ANY('' ''::text[])'' (PTexts (sf_SourcePaths f)) st;
          st = add_clause (sf_SourcePrefixes f \<noteq> []) '' AND source_path LIKE ANY('' ''::text[])''
                 (PTexts (map (\<lambda>p. p @ ''%'') (sf_SourcePrefixes f))) st;
          st = add_clause (sf_Metadata f \<noteq> Map.empty) '' AND metadata @> '' ''::jsonb'' (PText meta) st;
          st = add_clause (threshold > -1) '' AND 1 - (embedding <=> $1::vector) >= '' '''' (PReal threshold) st;
          st = (case st of (sql, args, pos) \<Rightarrow> (sql @ '' ORDER BY embedding <=> $1::vector'', args, pos))
      in add_clause True '' LIMIT '' '''' (PInt (min topK 2147483647)) st)"

definition buildSearchSQL ::
  "pg_codec \<Rightarrow> pg_store \<Rightarrow> embedding \<Rightarrow> int \<Rightarrow> real \<Rightarrow> search_filter \<Rightarrow> (string \<times> pg_arg list) result" where
  "buildSearchSQL k s q topK threshold f =
     (case (if sf_Metadata f = Map.empty then Inr '''' else marshalMetadataJSON k (sf_Metadata f)) of
        Inl e \<Rightarrow> Inl (wrap_err ''marshal filter metadata'' e)
      | Inr meta \<Rightarrow> (case search_statement k s q topK threshold f meta of (sql, args, _) \<Rightarrow> Inr (sql, args)))"

text \<open>A query with a setting of its own runs in a transaction; its rows end it when they are closed.\<close>

definition query_in_tx :: "'w database \<Rightarrow> string \<Rightarrow> string \<Rightarrow> pg_arg list \<Rightarrow> (pg_row result list \<times> go_error option, 'w) action" where
  "query_in_tx db setting sql args w = (case pg_Begin db w of (Some e, w) \<Rightarrow> (Inl e, w)
   | (None, w) \<Rightarrow> (case tx_Exec db setting [] w of (Some e, w) \<Rightarrow> (Inl e, snd (tx_Rollback db w))
     | (None, w) \<Rightarrow> (case tx_Query db sql args w of (Inl e, w) \<Rightarrow> (Inl e, snd (tx_Rollback db w))
       | (Inr rows, w) \<Rightarrow> (Inr rows, w))))"

definition queryRows :: "'w database \<Rightarrow> pg_store \<Rightarrow> string \<Rightarrow> pg_arg list \<Rightarrow> (pg_row result list \<times> go_error option, 'w) action" where
  "queryRows db s sql args =
     (if ps_IndexStrategy s = ''hnsw'' then query_in_tx db (''SET LOCAL hnsw.ef_search = '' @ itoa (snd (snd (ps_HNSW s)))) sql args
      else if ps_IndexStrategy s = ''ivfflat'' then query_in_tx db (''SET LOCAL ivfflat.probes = '' @ itoa (snd (ps_IVFFlat s))) sql args
      else pg_Query db sql args)"

definition close_rows :: "'w database \<Rightarrow> pg_store \<Rightarrow> 'w \<Rightarrow> 'w" where
  "close_rows db s w = (if ps_IndexStrategy s \<in> {''hnsw'', ''ivfflat''} then snd (tx_Commit db w) else w)"

definition row_hit :: "pg_codec \<Rightarrow> pg_row \<Rightarrow> search_hit result" where
  "row_hit k r = (case (if pw_Metadata r = '''' then Inr None else pk_Unmarshal k (pw_Metadata r)) of
     Inl e \<Rightarrow> Inl (wrap_err ''unmarshal pgvector row metadata'' e)
   | Inr m \<Rightarrow> Inr \<lparr>hit_Chunk = \<lparr>cr_ChunkID = pw_ChunkID r, cr_ParentID = pw_ParentID r, cr_SourcePath = pw_SourcePath r,
        cr_Title = pw_Title r, cr_Text = pw_Text r, cr_StartRune = pw_StartRune r, cr_EndRune = pw_EndRune r,
        cr_Metadata = (case m of None \<Rightarrow> Map.empty | Some m \<Rightarrow> m), cr_Embedding = []\<rparr>, hit_Score = pw_Score r\<rparr>)"

fun rows_hits :: "pg_codec \<Rightarrow> pg_row result list \<Rightarrow> search_hit list result" where
  "rows_hits k [] = Inr []"
| "rows_hits k (Inl e # rs) = Inl (wrap_err ''scan pgvector search row'' e)"
| "rows_hits k (Inr r # rs) = (case row_hit k r of Inl e \<Rightarrow> Inl e | Inr h \<Rightarrow> map_sum id ((#) h) (rows_hits k rs))"

definition pg_SearchWithFilter ::
  "'w database \<Rightarrow> pg_codec \<Rightarrow> pg_store \<Rightarrow> embedding \<Rightarrow> int \<Rightarrow> real \<Rightarrow> search_filter \<Rightarrow> (search_hit list, 'w) action" where
  "pg_SearchWithFilter db k s q topK threshold f w =
     (if q = [] then (Inl (errorf ''query embedding is empty'' []), w)
      else if topK \<le> 0 then (Inl (errorf ''topK must be > 0'' []), w)
      else if int (length q) \<noteq> ps_Dimensions s
        then (Inl (errorf (''query embedding dimensions '' @ nat_str (length q) @ '' do not match store dimensions ''
          @ itoa (ps_Dimensions s)) []), w)
      else case buildSearchSQL k s q topK threshold f of Inl e \<Rightarrow> (Inl e, w)
      | Inr (sql, args) \<Rightarrow> (case queryRows db s sql args w of
          (Inl e, w) \<Rightarrow> (Inl (wrap_err ''search pgvector store'' e), w)
        | (Inr (rows, iter), w) \<Rightarrow>
           ((case rows_hits k rows of Inl e \<Rightarrow> Inl e
             | Inr hits \<Rightarrow> (case iter of Some e \<Rightarrow> Inl (wrap_err ''iterate pgvector search rows'' e) | None \<Rightarrow> Inr hits)),
            close_rows db s w)))"

definition pg_Search :: "'w database \<Rightarrow> pg_codec \<Rightarrow> pg_store \<Rightarrow> embedding \<Rightarrow> int \<Rightarrow> real \<Rightarrow> (search_hit list, 'w) action" where
  "pg_Search db k s q topK threshold = pg_SearchWithFilter db k s q topK threshold empty_filter"

definition pg_DeleteBySourcePaths :: "'w database \<Rightarrow> pg_store \<Rightarrow> string list \<Rightarrow> 'w effect" where
  "pg_DeleteBySourcePaths db s paths w = (if paths = [] then (None, w)
     else case pg_Exec db (''DELETE FROM '' @ ps_table s @ '' WHERE source_path = ANY($1::text[])'') [PTexts paths] w of
       (e, w) \<Rightarrow> (map_option (wrap_err ''delete pgvector source paths'') e, w))"

subsection \<open>Opening and closing\<close>

record ('p, 'c, 'o, 'w) pg_platform =
  pp_ClientPool :: "'c \<Rightarrow> 'p option"
  pp_OpenClient :: "'o \<Rightarrow> ('c, 'w) action"
  pp_CloseClient :: "'c \<Rightarrow> 'w \<Rightarrow> 'w"
  pp_ParsePool :: "string \<Rightarrow> go_error option"
  pp_NewPool :: "string \<Rightarrow> ('p, 'w) action"
  pp_ClosePool :: "'p \<Rightarrow> 'w \<Rightarrow> 'w"
  pp_database :: "'p option \<Rightarrow> 'w database"
  pp_PgError :: "go_error \<Rightarrow> (string \<times> string) option"

record ('p, 'c) pg_handle =
  ph_store :: pg_store
  ph_pool :: "'p option"
  ph_ownsPool :: bool
  ph_client :: "'c option"
  ph_client_owned :: bool

definition isDuplicateExtensionRace :: "('p, 'c, 'o, 'w) pg_platform \<Rightarrow> go_error \<Rightarrow> bool" where
  "isDuplicateExtensionRace pp e \<longleftrightarrow> (case pp_PgError pp e of None \<Rightarrow> False
     | Some (code, msg) \<Rightarrow> code = ''23505'' \<and> contains msg ''pg_extension_name_index'')"

definition createTableSQL :: "pg_store \<Rightarrow> string" where
  "createTableSQL s = NL @ ''CREATE TABLE IF NOT EXISTS '' @ ps_table s @ '' ('' @ NL @ ''    chunk_id text PRIMARY KEY,'' @ NL
     @ ''    parent_id text NOT NULL,'' @ NL @ ''    source_path text NOT NULL,'' @ NL @ ''    title text NOT NULL,'' @ NL
     @ ''    content text NOT NULL,'' @ NL @ ''    start_rune integer NOT NULL,'' @ NL @ ''    end_rune integer NOT NULL,'' @ NL
     @ ''    metadata jsonb NOT NULL DEFAULT '' @ [CHR 39] @ ''{}'' @ [CHR 39] @ ''::jsonb,'' @ NL
     @ ''    embedding vector('' @ itoa (ps_Dimensions s) @ '') NOT NULL,'' @ NL
     @ ''    created_at timestamptz NOT NULL DEFAULT now(),'' @ NL @ ''    updated_at timestamptz NOT NULL DEFAULT now()'' @ NL @ '')''"

definition create_index :: "pg_codec \<Rightarrow> pg_store \<Rightarrow> string \<Rightarrow> string \<Rightarrow> string" where
  "create_index k s suffix' columns = ''CREATE INDEX IF NOT EXISTS '' @ pk_Sanitize k [ps_TableName s @ suffix'] @ '' ON ''
     @ ps_table s @ '' '' @ columns"

definition indexStatements :: "pg_codec \<Rightarrow> pg_store \<Rightarrow> string list" where
  "indexStatements k s =
     [create_index k s ''_parent_id_idx'' ''(parent_id)'', create_index k s ''_source_path_idx'' ''(source_path)'',
      create_index k s ''_source_path_prefix_idx'' ''(source_path text_pattern_ops)'',
      create_index k s ''_metadata_gin_idx'' ''USING gin (metadata jsonb_path_ops)'']
     @ (if ps_IndexStrategy s = ''hnsw'' then [create_index k s ''_embedding_hnsw_cosine_idx''
          (''USING hnsw (embedding vector_cosine_ops) WITH (m = '' @ itoa (fst (ps_HNSW s)) @ '', ef_construction = ''
            @ itoa (fst (snd (ps_HNSW s))) @ '')'')]
        else if ps_IndexStrategy s = ''ivfflat'' then [create_index k s ''_embedding_ivfflat_cosine_idx''
          (''USING ivfflat (embedding vector_cosine_ops) WITH (lists = '' @ itoa (fst (ps_IVFFlat s)) @ '')'')]
        else [])"

fun exec_all :: "'w database \<Rightarrow> string \<Rightarrow> string list \<Rightarrow> 'w effect" where
  "exec_all db what [] w = (None, w)"
| "exec_all db what (q # qs) w = (case pg_Exec db q [] w of (Some e, w) \<Rightarrow> (Some (wrap_err what e), w)
     | (None, w) \<Rightarrow> exec_all db what qs w)"

definition init_extension :: "('p, 'c, 'o, 'w) pg_platform \<Rightarrow> 'w database \<Rightarrow> 'w effect" where
  "init_extension pp db w = (case pg_Exec db ''CREATE EXTENSION IF NOT EXISTS vector'' [] w of (None, w) \<Rightarrow> (None, w)
     | (Some e, w) \<Rightarrow> (if isDuplicateExtensionRace pp e then None else Some (wrap_err ''create vector extension'' e), w))"

definition pg_init ::
  "('p, 'c, 'o, 'w) pg_platform \<Rightarrow> 'w database \<Rightarrow> pg_codec \<Rightarrow> ('p, 'c, 'o) pg_config \<Rightarrow> pg_store \<Rightarrow> 'w effect" where
  "pg_init pp db k c s =
     effThen (if pgc_AutoCreateExtension c then init_extension pp db else no_effect)
     (effThen (if pgc_AutoCreateSchema c \<and> ps_SchemaName s \<noteq> '''' \<and> ps_SchemaName s \<noteq> ''public''
        then exec_all db ''create schema'' [''CREATE SCHEMA IF NOT EXISTS '' @ pk_Sanitize k [ps_SchemaName s]] else no_effect)
     (effThen (if pgc_AutoCreateTable c then exec_all db ''create table'' [createTableSQL s] else no_effect)
       (if pgc_AutoCreateIndexes c then exec_all db ''create index'' (indexStatements k s) else no_effect)))"

definition connect_pool ::
  "('p, 'c, 'o, 'w) pg_platform \<Rightarrow> ('p, 'c, 'o) pg_config \<Rightarrow> ('p option \<times> bool \<times> 'c option, 'w) action" where
  "connect_pool pp c w = (case pgc_Client c of
     Some client \<Rightarrow> (case pp_ClientPool pp client of
         None \<Rightarrow> (Inl (invalid_config ''pgorm client pool is nil: ragagent: invalid config''), w)
       | Some p \<Rightarrow> (Inr (Some p, False, Some client), w))
   | None \<Rightarrow> (case pgc_ClientConfig c of
       Some cc \<Rightarrow> (case pp_OpenClient pp cc w of (Inl e, w) \<Rightarrow> (Inl (wrap_err ''open pgorm client'' e), w)
         | (Inr client, w) \<Rightarrow> (Inr (pp_ClientPool pp client, False, Some client), w))
     | None \<Rightarrow> (case pgc_Pool c of
         Some p \<Rightarrow> (Inr (Some p, False, None), w)
       | None \<Rightarrow> (case pp_ParsePool pp (pgc_ConnString c) of
           Some e \<Rightarrow> (Inl (wrap_err ''parse pgvector conn string'' e), w)
         | None \<Rightarrow> (case pp_NewPool pp (pgc_ConnString c) w of
             (Inl e, w) \<Rightarrow> (Inl (wrap_err ''create pgvector pool'' e), w)
           | (Inr p, w) \<Rightarrow> (Inr (Some p, True, None), w))))))"

definition pg_store_of :: "pg_codec \<Rightarrow> ('p, 'c, 'o) pg_config \<Rightarrow> pg_store" where
  "pg_store_of k c = \<lparr>ps_table = pk_Sanitize k [pgc_SchemaName c, pgc_TableName c], ps_TableName = pgc_TableName c,
     ps_SchemaName = pgc_SchemaName c, ps_Dimensions = pgc_Dimensions c, ps_BatchSize = pgc_UpsertBatchSize c,
     ps_IndexStrategy = pgc_IndexStrategy c, ps_HNSW = (pgc_HNSWM c, pgc_HNSWEfConstruction c, pgc_HNSWEfSearch c),
     ps_IVFFlat = (pgc_IVFFlatLists c, pgc_IVFFlatProbes c)\<rparr>"

definition newPGVectorStore ::
  "('p, 'c, 'o, 'w) pg_platform \<Rightarrow> pg_codec \<Rightarrow> ('p, 'c, 'o) pg_config \<Rightarrow> (('p, 'c) pg_handle, 'w) action" where
  "newPGVectorStore pp k c0 w = (let c = pgc_normalized c0 in case pgc_validate c of Some e \<Rightarrow> (Inl e, w)
   | None \<Rightarrow> (case connect_pool pp c w of (Inl e, w) \<Rightarrow> (Inl e, w)
     | (Inr (pool, owns, client), w) \<Rightarrow> (case pg_init pp (pp_database pp pool) k c (pg_store_of k c) w of
         (Some e, w) \<Rightarrow> (Inl e, if owns then pp_ClosePool pp (the pool) w else w)
       | (None, w) \<Rightarrow> (Inr \<lparr>ph_store = pg_store_of k c, ph_pool = pool, ph_ownsPool = owns, ph_client = client,
           ph_client_owned = (pgc_ClientConfig c \<noteq> None)\<rparr>, w))))"

definition pg_Close :: "('p, 'c, 'o, 'w) pg_platform \<Rightarrow> ('p, 'c) pg_handle \<Rightarrow> 'w \<Rightarrow> 'w" where
  "pg_Close pp h w = (if ph_client h \<noteq> None \<and> ph_client_owned h then pp_CloseClient pp (the (ph_client h)) w
     else if ph_ownsPool h \<and> ph_pool h \<noteq> None then pp_ClosePool pp (the (ph_pool h)) w else w)"

subsection \<open>What PostgreSQL promises\<close>

text \<open>Tables hold the arguments of the last insert of every chunk id. \<open>committed\<close> is what everyone sees,
  \<open>work\<close> what the open transaction sees, \<open>intx\<close> whether one is open. A commit that reports an error may or may
  not have taken place.\<close>

type_synonym pg_table = "string \<rightharpoonup> pg_arg list"

fun put_row :: "pg_arg list \<Rightarrow> pg_table \<Rightarrow> pg_table" where
  "put_row (PText i # args) t = t(i \<mapsto> PText i # args)"
| "put_row args t = t"

fun row_parent :: "pg_arg list \<Rightarrow> string option" where
  "row_parent (_ # PText p # _) = Some p"
| "row_parent _ = None"

definition drop_rows :: "string \<Rightarrow> string list \<Rightarrow> pg_table \<Rightarrow> pg_table" where
  "drop_rows p ids t i = (case t i of None \<Rightarrow> None
     | Some a \<Rightarrow> if row_parent a = Some p \<and> i \<notin> set ids then None else Some a)"

definition pg_ok ::
  "'w database \<Rightarrow> ('w \<Rightarrow> string \<Rightarrow> pg_table) \<Rightarrow> ('w \<Rightarrow> string \<Rightarrow> pg_table) \<Rightarrow> ('w \<Rightarrow> bool) \<Rightarrow> bool" where
  "pg_ok db committed work intx \<longleftrightarrow>
     (\<forall>w r w'. pg_Begin db w = (r, w') \<longrightarrow> committed w' = committed w
        \<and> (if r = None then intx w' \<and> work w' = committed w else intx w' = intx w))
     \<and> (\<forall>t rows w rs cl w'. tx_SendBatch db (map (Pair (upsertSQL t)) rows) w = ((rs, cl), w') \<longrightarrow>
        committed w' = committed w \<and> intx w' = intx w \<and> length rs = length rows
        \<and> (intx w \<longrightarrow> set rs \<subseteq> {None} \<longrightarrow> cl = None \<longrightarrow> work w' = (work w)(t := fold put_row rows (work w t))))
     \<and> (\<forall>t p ids w w'. tx_Exec db (staleSQL t) [PText p, PTexts ids] w = (None, w') \<longrightarrow> intx w \<longrightarrow>
        work w' = (work w)(t := drop_rows p ids (work w t)))
     \<and> (\<forall>q args w. committed (snd (tx_Exec db q args w)) = committed w \<and> intx (snd (tx_Exec db q args w)) = intx w)
     \<and> (\<forall>q args w. intx (snd (tx_Query db q args w)) = intx w \<and> intx (snd (pg_Query db q args w)) = intx w)
     \<and> (\<forall>w r w'. tx_Commit db w = (r, w') \<longrightarrow> \<not> intx w'
        \<and> (if intx w then (committed w' = work w \<or> r \<noteq> None \<and> committed w' = committed w) else committed w' = committed w))
     \<and> (\<forall>w. committed (snd (tx_Rollback db w)) = committed w \<and> \<not> intx (snd (tx_Rollback db w)))"

lemma pg_okD:
  assumes "pg_ok db committed work intx"
  shows pg_begin: "pg_Begin db w = (r, w') \<Longrightarrow> committed w' = committed w
        \<and> (if r = None then intx w' \<and> work w' = committed w else intx w' = intx w)"
    and pg_batch: "tx_SendBatch db (map (Pair (upsertSQL t)) rows) w = ((rs, cl), w') \<Longrightarrow>
        committed w' = committed w \<and> intx w' = intx w \<and> length rs = length rows
        \<and> (intx w \<longrightarrow> set rs \<subseteq> {None} \<longrightarrow> cl = None \<longrightarrow> work w' = (work w)(t := fold put_row rows (work w t)))"
    and pg_stale: "tx_Exec db (staleSQL t) [PText p, PTexts ids] w = (None, w') \<Longrightarrow> intx w \<Longrightarrow>
        work w' = (work w)(t := drop_rows p ids (work w t))"
    and pg_exec: "tx_Exec db q args w = (r, w') \<Longrightarrow> committed w' = committed w \<and> intx w' = intx w"
    and pg_query: "tx_Query db q args w = (r', w') \<Longrightarrow> intx w' = intx w" "pg_Query db q args w = (r', w') \<Longrightarrow> intx w' = intx w"
    and pg_commit: "tx_Commit db w = (r, w') \<Longrightarrow> \<not> intx w'
        \<and> (if intx w then (committed w' = work w \<or> r \<noteq> None \<and> committed w' = committed w) else committed w' = committed w)"
    and pg_rollback: "committed (snd (tx_Rollback db w)) = committed w \<and> \<not> intx (snd (tx_Rollback db w))"
proof -
  note c = assms [unfolded pg_ok_def]
  note c1 = conjunct2 [OF c] and c2 = conjunct2 [OF conjunct2 [OF c]] and c3 = conjunct2 [OF conjunct2 [OF conjunct2 [OF c]]]
  note c4 = conjunct2 [OF c3] note c5 = conjunct2 [OF c4]
  show "pg_Begin db w = (r, w') \<Longrightarrow> committed w' = committed w
        \<and> (if r = None then intx w' \<and> work w' = committed w else intx w' = intx w)"
    by (rule conjunct1 [OF c, rule_format])
  show "tx_SendBatch db (map (Pair (upsertSQL t)) rows) w = ((rs, cl), w') \<Longrightarrow>
        committed w' = committed w \<and> intx w' = intx w \<and> length rs = length rows
        \<and> (intx w \<longrightarrow> set rs \<subseteq> {None} \<longrightarrow> cl = None \<longrightarrow> work w' = (work w)(t := fold put_row rows (work w t)))"
    by (rule conjunct1 [OF c1, THEN spec, THEN spec, THEN spec, THEN spec, THEN spec, THEN spec, THEN mp])
  show "tx_Exec db (staleSQL t) [PText p, PTexts ids] w = (None, w') \<Longrightarrow> intx w \<Longrightarrow>
        work w' = (work w)(t := drop_rows p ids (work w t))"
    by (rule conjunct1 [OF c2, rule_format])
  show "tx_Exec db q args w = (r, w') \<Longrightarrow> committed w' = committed w \<and> intx w' = intx w"
    using conjunct1 [OF c3, rule_format, of q args w] by simp
  show "tx_Query db q args w = (r', w') \<Longrightarrow> intx w' = intx w" "pg_Query db q args w = (r', w') \<Longrightarrow> intx w' = intx w"
    using conjunct1 [OF c4, rule_format, of q args w] by simp_all
  show "tx_Commit db w = (r, w') \<Longrightarrow> \<not> intx w'
        \<and> (if intx w then (committed w' = work w \<or> r \<noteq> None \<and> committed w' = committed w) else committed w' = committed w)"
    by (rule conjunct1 [OF c5, THEN spec, THEN spec, THEN spec, THEN mp])
  show "committed (snd (tx_Rollback db w)) = committed w \<and> \<not> intx (snd (tx_Rollback db w))"
    by (rule conjunct2 [OF c5, THEN spec])
qed

subsection \<open>Lemmas: an upsert\<close>

definition row_of :: "pg_codec \<Rightarrow> chunk_record \<Rightarrow> pg_arg list" where
  "row_of k c = projr (upsert_args k c)"

text \<open>The table after an upsert: the last chunk of every id in the batch, none of the older rows of its parents,
  and the other rows.\<close>

definition pg_replaced :: "pg_codec \<Rightarrow> chunk_record list \<Rightarrow> pg_table \<Rightarrow> pg_table" where
  "pg_replaced k chunks t i = (case find (\<lambda>c. cr_ChunkID c = i) (rev chunks) of Some c \<Rightarrow> Some (row_of k c)
     | None \<Rightarrow> (case t i of None \<Rightarrow> None
        | Some a \<Rightarrow> if row_parent a \<in> (Some \<circ> cr_ParentID) ` set chunks then None else Some a))"

lemma upsert_args_row:
  assumes "upsert_args k c = Inr a"
  shows "row_of k c = a" "\<exists>rest. a = PText (cr_ChunkID c) # PText (cr_ParentID c) # rest"
  using assms by (auto simp: row_of_def upsert_args_def split: sum.split_asm)

lemma queue_batch_rows:
  "queue_batch k t cs = Inr b \<Longrightarrow> b = map (Pair (upsertSQL t)) (map (row_of k) cs) \<and> (\<forall>c \<in> set cs. \<exists>a. upsert_args k c = Inr a)"
proof (induction cs arbitrary: b)
  case (Cons c cs)
  then obtain a b' where a: "upsert_args k c = Inr a" "queue_batch k t cs = Inr b'" "b = (upsertSQL t, a) # b'"
    by (cases "upsert_args k c"; cases "queue_batch k t cs") auto
  then show ?case using Cons.IH [OF a(2)] upsert_args_row(1) [OF a(1)] by simp
qed simp

lemma batch_error_None: "batch_error cs rs = None \<Longrightarrow> length rs = length cs \<Longrightarrow> set rs \<subseteq> {None}"
  by (induction cs rs rule: batch_error.induct) auto

lemma fold_rows:
  assumes "\<forall>c \<in> set cs. \<exists>a. upsert_args k c = Inr a"
  shows "fold put_row (map (row_of k) cs) t i
    = (case find (\<lambda>c. cr_ChunkID c = i) (rev cs) of Some c \<Rightarrow> Some (row_of k c) | None \<Rightarrow> t i)"
  using assms
proof (induction cs rule: rev_induct)
  case (snoc c cs)
  then obtain a where "upsert_args k c = Inr a" by auto
  from upsert_args_row [OF this] obtain rest where "row_of k c = PText (cr_ChunkID c) # rest" by auto
  then show ?case using snoc by simp
qed simp

lemma fold_drops:
  "fold (\<lambda>p. drop_rows p (ids p)) ps t i = (case t i of None \<Rightarrow> None
     | Some a \<Rightarrow> if \<exists>p \<in> set ps. row_parent a = Some p \<and> i \<notin> set (ids p) then None else Some a)"
  by (induction ps arbitrary: t) (auto simp: drop_rows_def split: option.splits if_splits)

lemma upsert_table:
  assumes rows: "\<forall>c \<in> set cs. \<exists>a. upsert_args k c = Inr a" and ps: "set ps = cr_ParentID ` set cs"
  shows "fold (\<lambda>p. drop_rows p (chunk_ids cs p)) ps (fold put_row (map (row_of k) cs) t) = pg_replaced k cs t"
proof
  fix i
  show "fold (\<lambda>p. drop_rows p (chunk_ids cs p)) ps (fold put_row (map (row_of k) cs) t) i = pg_replaced k cs t i"
  proof (cases "find (\<lambda>c. cr_ChunkID c = i) (rev cs)")
    case None
    then have "i \<notin> set (chunk_ids cs p)" for p by (auto simp: find_None_iff chunk_ids_def)
    then show ?thesis using None ps by (auto simp: fold_drops fold_rows [OF rows] pg_replaced_def split: option.split)
  next
    case (Some c)
    then have c: "c \<in> set cs" "cr_ChunkID c = i"
      by (metis find_Some_iff length_rev nth_mem set_rev, metis (mono_tags) find_Some_iff)
    then obtain a where a: "upsert_args k c = Inr a" using rows by blast
    have "row_parent (row_of k c) = Some (cr_ParentID c)" using upsert_args_row [OF a] by auto
    moreover have "i \<in> set (chunk_ids cs (cr_ParentID c))" using c by (auto simp: chunk_ids_def)
    ultimately show ?thesis using Some by (auto simp: fold_drops fold_rows [OF rows] pg_replaced_def)
  qed
qed

lemma fold_put_append: "fold put_row (map (row_of k) (take n cs) @ map (row_of k) (drop n cs)) = fold put_row (map (row_of k) cs)"
  by (metis append_take_drop_id map_append)

lemma send_batch_effect:
  assumes ok: "pg_ok db committed work intx" and "send_batch db k t cs w = (r, w')" "intx w"
  shows "committed w' = committed w \<and> intx w'
    \<and> (r = None \<longrightarrow> work w' = (work w)(t := fold put_row (map (row_of k) cs) (work w t)) \<and> (\<forall>c \<in> set cs. \<exists>a. upsert_args k c = Inr a))"
proof (cases "queue_batch k t cs")
  case (Inr b)
  obtain rs cl w1 where s: "tx_SendBatch db b w = ((rs, cl), w1)" by (metis surj_pair)
  note b = queue_batch_rows [OF Inr]
  note e = pg_batch [OF ok s [unfolded conjunct1 [OF b]]]
  then have len: "length rs = length cs" by simp
  show ?thesis using assms(2,3) Inr s e b batch_error_None [OF _ len]
    by (auto simp: send_batch_def split: option.split_asm)
qed (use assms(2,3) in \<open>auto simp: send_batch_def\<close>)

lemma send_batches_effect:
  assumes ok: "pg_ok db committed work intx" and "send_batches db k t sz cs w = (r, w')" "intx w" "0 < sz"
  shows "committed w' = committed w \<and> intx w'
    \<and> (r = None \<longrightarrow> work w' = (work w)(t := fold put_row (map (row_of k) cs) (work w t)) \<and> (\<forall>c \<in> set cs. \<exists>a. upsert_args k c = Inr a))"
  using assms(2-)
proof (induction "length cs" arbitrary: cs w rule: less_induct)
  case less
  show ?case
  proof (cases cs)
    case Nil
    then show ?thesis using less.prems by (auto simp: send_batches.simps [of db k t sz])
  next
    case (Cons c cs')
    obtain r1 w1 where s: "send_batch db k t (take sz cs) w = (r1, w1)" by (metis surj_pair)
    note e = send_batch_effect [OF ok s less.prems(2)]
    note run = less.prems(1) [unfolded send_batches.simps [of db k t sz cs]]
    show ?thesis
    proof (cases r1)
      case (Some err)
      then show ?thesis using run s e Cons less.prems(3) by auto
    next
      case None
      then have rest: "send_batches db k t sz (drop sz cs) w1 = (r, w')" using run s Cons less.prems(3) by simp
      have "length (drop sz cs) < length cs" using Cons less.prems(3) by simp
      note ih = less.hyps [OF this rest conjunct1 [OF conjunct2 [OF e]] less.prems(3)]
      have "set cs = set (take sz cs) \<union> set (drop sz cs)" by (metis append_take_drop_id set_append)
      moreover have "fold put_row (map (row_of k) (drop sz cs)) (fold put_row (map (row_of k) (take sz cs)) x)
          = fold put_row (map (row_of k) cs) x" for x
        using fold_put_append [of k sz cs] by (simp add: fun_eq_iff)
      ultimately show ?thesis using ih e None by auto
    qed
  qed
qed

lemma delete_stale_effect:
  assumes ok: "pg_ok db committed work intx" and "delete_stale db t cs ps w = (r, w')" "intx w"
  shows "committed w' = committed w \<and> intx w'
    \<and> (r = None \<longrightarrow> work w' = (work w)(t := fold (\<lambda>p. drop_rows p (chunk_ids cs p)) ps (work w t)))"
  using assms(2-)
proof (induction ps arbitrary: w)
  case (Cons p ps)
  obtain r1 w1 where s: "tx_Exec db (staleSQL t) [PText p, PTexts (chunk_ids cs p)] w = (r1, w1)" by (metis surj_pair)
  note e = pg_exec [OF ok s]
  show ?case
  proof (cases r1)
    case None
    have "work w1 = (work w)(t := drop_rows p (chunk_ids cs p) (work w t))"
      using pg_stale [OF ok s [unfolded None] Cons.prems(2)] .
    moreover have "delete_stale db t cs ps w1 = (r, w')" "intx w1" using Cons.prems s None e by simp_all
    ultimately show ?thesis using Cons.IH [of w1] e by auto
  qed (use Cons.prems s e in auto)
qed auto

lemma upsert_tx_effect:
  assumes ok: "pg_ok db committed work intx" and run: "upsert_tx db k s ps cs w = (r, w')"
    and w: "intx w" "work w = committed w" "0 < ps_BatchSize s" "set ps = cr_ParentID ` set cs"
  shows "let new = (committed w)(ps_table s := pg_replaced k cs (committed w (ps_table s)))
    in if r = None then committed w' = new else committed w' = committed w \<or> committed w' = new"
proof -
  obtain r1 w1 where s1: "send_batches db k (ps_table s) (nat (ps_BatchSize s)) cs w = (r1, w1)" by (metis surj_pair)
  have e1: "committed w1 = committed w" "intx w1"
    using send_batches_effect [OF ok s1 w(1)] w(3) by simp_all
  show ?thesis
  proof (cases r1)
    case None
    obtain r2 w2 where s2: "delete_stale db (ps_table s) cs ps w1 = (r2, w2)" by (metis surj_pair)
    note e2 = delete_stale_effect [OF ok s2 e1(2)]
    show ?thesis
    proof (cases r2)
      case None
      have "work w1 = (work w)(ps_table s := fold put_row (map (row_of k) cs) (work w (ps_table s)))"
        and rows: "\<forall>c \<in> set cs. \<exists>a. upsert_args k c = Inr a"
        using send_batches_effect [OF ok s1 w(1)] w(3) \<open>r1 = None\<close> by simp_all
      then have "work w2 = (committed w)(ps_table s := pg_replaced k cs (committed w (ps_table s)))"
        using e2 None upsert_table [OF rows w(4)] w(2) by simp
      moreover obtain r3 w3 where s3: "tx_Commit db w2 = (r3, w3)" by (metis surj_pair)
      moreover have "r = map_option (wrap_err ''commit pgvector upsert tx'') r3" "w' = w3"
        using run s1 s2 s3 \<open>r1 = None\<close> None by (simp_all add: upsert_tx_def effThen_def)
      ultimately show ?thesis using pg_commit [OF ok s3] e1 e2 by (auto simp: Let_def)
    qed (use run s1 s2 \<open>r1 = None\<close> e1 e2 in \<open>auto simp: upsert_tx_def effThen_def Let_def\<close>)
  qed (use run s1 e1 in \<open>auto simp: upsert_tx_def effThen_def Let_def\<close>)
qed

subsection \<open>Lemmas: the search\<close>

text \<open>The numbers of the placeholders in a statement, as they are written.\<close>

definition is_digit :: "char \<Rightarrow> bool" where
  "is_digit c \<longleftrightarrow> c \<in> set ''0123456789''"

fun placeholders :: "string \<Rightarrow> string list" where
  "placeholders [] = []"
| "placeholders (c # s) = (if c = CHR ''$'' then takeWhile is_digit s # placeholders s else placeholders s)"

lemma placeholders_free: "CHR ''$'' \<notin> set t \<Longrightarrow> placeholders (t @ s) = placeholders s"
  by (induction t) auto

lemma itoa_small: "itoa 1 = ''1''" "itoa 2 = ''2''" "itoa 3 = ''3''" "itoa 4 = ''4''" "itoa 5 = ''5''" "itoa 6 = ''6''"
  by code_simp+

lemma digits_small: "is_digit CHR ''1''" "is_digit CHR ''2''" "is_digit CHR ''3''" "is_digit CHR ''4''" "is_digit CHR ''5''"
  "is_digit CHR ''6''" "\<not> is_digit CHR '':''" "\<not> is_digit CHR '' ''" "\<not> is_digit CHR ''$''"
  by code_simp+

lemma placeholders_head:
  assumes "CHR ''$'' \<notin> set table"
  shows "placeholders (search_head table @ s) = ''1'' # placeholders s"
  by (simp add: search_head_def placeholders_free [OF assms] digits_small)

lemma placeholders_append:
  "t = [] \<or> \<not> is_digit (hd t) \<Longrightarrow> placeholders (s @ t) = placeholders s @ placeholders t"
proof (induction s)
  case (Cons c s)
  have "takeWhile is_digit t = []" using Cons.prems by (cases t) auto
  then have "takeWhile is_digit (s @ t) = takeWhile is_digit s"
    by (cases "\<forall>x \<in> set s. is_digit x") (auto simp: takeWhile_append takeWhile_eq_all_conv [THEN iffD2])
  then show ?case using Cons by simp
qed simp

lemma itoa_digits:
  assumes "2 \<le> pos" "pos \<le> 6" "after = [] \<or> \<not> is_digit (hd after)"
  shows "takeWhile is_digit (itoa pos @ after) = itoa pos" "CHR ''$'' \<notin> set (itoa pos)"
proof -
  have "pos = 2 \<or> pos = 3 \<or> pos = 4 \<or> pos = 5 \<or> pos = 6" using assms(1,2) by linarith
  then have "\<exists>d. itoa pos = [d] \<and> is_digit d" by (elim disjE) (simp_all add: itoa_small digits_small)
  then obtain d where d: "itoa pos = [d]" "is_digit d" by (elim exE conjE)
  have "takeWhile is_digit after = []" using assms(3) by (cases after) auto
  then show "takeWhile is_digit (itoa pos @ after) = itoa pos" "CHR ''$'' \<notin> set (itoa pos)"
    using d digits_small(9) by auto
qed

definition statement_ok :: "int \<Rightarrow> statement \<Rightarrow> bool" where
  "statement_ok n st \<longleftrightarrow> (case st of (sql, args, pos) \<Rightarrow>
     pos = int (length args) + 1 \<and> 2 \<le> pos \<and> pos \<le> n \<and> set (placeholders sql) = itoa ` {1..int (length args)})"

lemma add_clause_ok:
  assumes "statement_ok n st" "n \<le> 6" "\<not> is_digit (hd before)" "before \<noteq> []" "set (placeholders before) \<subseteq> {''1''}"
    "after = [] \<or> \<not> is_digit (hd after)" "placeholders after = []"
  shows "statement_ok (n + 1) (add_clause b before after arg st)"
proof (cases b)
  case True
  obtain sql args pos where st: "st = (sql, args, pos)" by (cases st)
  have pos: "pos = int (length args) + 1" "2 \<le> pos" "pos \<le> n" "set (placeholders sql) = itoa ` {1..int (length args)}"
    using assms(1) by (simp_all add: statement_ok_def st)
  note d = itoa_digits [OF pos(2) order_trans [OF pos(3) assms(2)] assms(6)]
  have "placeholders (sql @ before @ ''$'' @ itoa pos @ after)
      = placeholders sql @ placeholders before @ [itoa pos]"
  proof -
    have "placeholders (''$'' @ itoa pos @ after) = [itoa pos]"
      using d assms(7) by (simp add: placeholders_free)
    moreover have "placeholders (before @ ''$'' @ itoa pos @ after) = placeholders before @ placeholders (''$'' @ itoa pos @ after)"
      by (rule placeholders_append) (simp add: digits_small)
    moreover have "placeholders (sql @ before @ ''$'' @ itoa pos @ after) = placeholders sql @ placeholders (before @ ''$'' @ itoa pos @ after)"
      using assms(3,4) by (intro placeholders_append) simp
    ultimately show ?thesis by simp
  qed
  then have "set (placeholders (sql @ before @ ''$'' @ itoa pos @ after)) = insert (itoa pos) (itoa ` {1..int (length args)} \<union> set (placeholders before))"
    using pos(4) by auto
  moreover have "itoa ` {1..int (length args) + 1} = insert (itoa pos) (itoa ` {1..int (length args)})"
  proof -
    have "{1..int (length args) + 1} = insert pos {1..int (length args)}" using pos by auto
    then show ?thesis by simp
  qed
  moreover have "''1'' \<in> itoa ` {1..int (length args)}" using pos by (intro image_eqI [of _ _ 1]) (simp_all add: itoa_small)
  ultimately have "set (placeholders (sql @ before @ ''$'' @ itoa pos @ after)) = itoa ` {1..int (length args) + 1}"
    using assms(5) by auto
  then show ?thesis using pos(1-3) True by (simp add: statement_ok_def add_clause_def st add.commute)
qed (use assms(1) in \<open>auto simp: statement_ok_def add_clause_def\<close>)

lemma search_statement_ok:
  assumes "CHR ''$'' \<notin> set (ps_table s)"
  shows "statement_ok 7 (search_statement k s q topK threshold f meta)"
proof -
  have start: "statement_ok 2 (search_head (ps_table s), [PText (pk_Vector k q)], 2)"
    using placeholders_head [OF assms, of "[]"] by (simp add: statement_ok_def itoa_small)
  have order: "statement_ok n (case st of (sql, args, pos) \<Rightarrow> (sql @ '' ORDER BY embedding <=> $1::vector'', args, pos))"
    if "statement_ok n st" for n st
  proof -
    obtain sql args pos where st: "st = (sql, args, pos)" by (cases st)
    have "''1'' \<in> itoa ` {1..int (length args)}" using that st
      by (intro image_eqI [of _ _ 1]) (simp_all add: itoa_small statement_ok_def)
    then show ?thesis using that by (auto simp: statement_ok_def st placeholders_append digits_small)
  qed
  note step = add_clause_ok
  show ?thesis unfolding search_statement_def Let_def
    by (rule step [where n = 6, simplified] order step [where n = 5, simplified] step [where n = 4, simplified]
        step [where n = 3, simplified] step [where n = 2, simplified] start
        | simp add: digits_small)+
qed

lemma query_in_tx_intx:
  assumes ok: "pg_ok db committed work intx" and "query_in_tx db q sql args w = (r, w')" "\<not> intx w" and r: "r = Inl e"
  shows "\<not> intx w'"
proof -
  obtain r1 w1 where b: "pg_Begin db w = (r1, w1)" by (metis surj_pair)
  obtain r2 w2 where x: "tx_Exec db q [] w1 = (r2, w2)" by (metis surj_pair)
  obtain r3 w3 where y: "tx_Query db sql args w2 = (r3, w3)" by (metis surj_pair)
  show ?thesis using assms(2,3) b x y r pg_begin [OF ok b] pg_rollback [OF ok]
    by (auto simp: query_in_tx_def split: option.split_asm sum.split_asm)
qed

lemma search_intx:
  assumes ok: "pg_ok db committed work intx" and "pg_SearchWithFilter db k s q topK threshold f w = (r, w')" "\<not> intx w"
  shows "\<not> intx w'"
proof (cases "q = [] \<or> topK \<le> 0 \<or> int (length q) \<noteq> ps_Dimensions s \<or> (\<exists>e. buildSearchSQL k s q topK threshold f = Inl e)")
  case True
  then show ?thesis using assms(2,3) by (auto simp: pg_SearchWithFilter_def split: if_split_asm)
next
  case False
  then obtain sql args where sql: "buildSearchSQL k s q topK threshold f = Inr (sql, args)"
    by (metis sum.exhaust surj_pair)
  obtain res w1 where qr: "queryRows db s sql args w = (res, w1)" by (metis surj_pair)
  have commit: "\<not> intx (snd (tx_Commit db w))" for w by (metis pg_commit [OF ok] prod.collapse)
  have err: "\<not> intx w1" if "res = Inl e" for e
    using qr that assms(3) query_in_tx_intx [OF ok] pg_query(2) [OF ok] by (auto simp: queryRows_def split: if_split_asm)
  have plain: "\<not> intx w1" if "ps_IndexStrategy s \<notin> {''hnsw'', ''ivfflat''}"
    using qr that assms(3) pg_query(2) [OF ok] by (auto simp: queryRows_def split: if_split_asm)
  show ?thesis
  proof (cases res)
    case (Inl e)
    then show ?thesis using assms(2) False sql qr err by (auto simp: pg_SearchWithFilter_def)
  next
    case (Inr rows)
    then have "w' = close_rows db s w1" using assms(2) False sql qr by (cases rows) (auto simp: pg_SearchWithFilter_def)
    then show ?thesis using commit plain by (auto simp: close_rows_def)
  qed
qed

text \<open>A row as the columns of an insert are read back.\<close>

fun arg_text :: "pg_arg \<Rightarrow> string" where
  "arg_text (PText s) = s"
| "arg_text _ = ''''"

fun arg_int :: "pg_arg \<Rightarrow> int" where
  "arg_int (PInt i) = i"
| "arg_int _ = 0"

definition scan_row :: "pg_arg list \<Rightarrow> real \<Rightarrow> pg_row" where
  "scan_row a score = \<lparr>pw_ChunkID = arg_text (a ! 0), pw_ParentID = arg_text (a ! 1), pw_SourcePath = arg_text (a ! 2),
     pw_Title = arg_text (a ! 3), pw_Text = arg_text (a ! 4), pw_StartRune = arg_int (a ! 5), pw_EndRune = arg_int (a ! 6),
     pw_Metadata = arg_text (a ! 7), pw_Score = score\<rparr>"

definition json_ok :: "pg_codec \<Rightarrow> bool" where
  "json_ok k \<longleftrightarrow> (\<forall>m j. pk_Marshal k m = Inr j \<longrightarrow> j \<noteq> '''' \<and> pk_Unmarshal k j = Inr (Some m))
     \<and> pk_Unmarshal k ''{}'' = Inr (Some Map.empty)"

subsection \<open>Properties\<close>

text \<open>C32: An upsert takes place as a whole or not at all: when it succeeds, the table holds the last chunk of
  every id in the batch, no older chunk of the batch's parents, and every other row as it was, whatever the
  size of the batches and the order in which the parents are visited; when it fails, the table is unchanged
  or, where the commit itself reported an error, completely replaced. No transaction stays open.\<close>

theorem pg_upsert_is_atomic:
  assumes "pg_ok db committed work intx" and "0 < ps_BatchSize s" "\<forall>ps. set (order ps) = set ps"
    and "pg_Upsert db k order s chunks w = (r, w')" and "\<not> intx w"
  shows "\<not> intx w' \<and> (let new = (committed w)(ps_table s := pg_replaced k chunks (committed w (ps_table s)))
    in if r = None then committed w' = new else committed w' = committed w \<or> committed w' = new)"
proof (cases "chunks = []")
  case True
  have "pg_replaced k [] t = t" for t by (rule ext) (simp add: pg_replaced_def split: option.split)
  then show ?thesis using assms(4,5) True by (auto simp: pg_Upsert_def)
next
  case chunks: False
  show ?thesis
  proof (cases "first_invalid s chunks")
    case (Some e)
    then show ?thesis using assms(4,5) chunks by (auto simp: pg_Upsert_def)
  next
    case None
    obtain r1 w1 where b: "pg_Begin db w = (r1, w1)" by (metis surj_pair)
    note e = pg_begin [OF assms(1) b]
    show ?thesis
    proof (cases r1)
      case (Some err)
      then show ?thesis using assms(4,5) chunks None b e by (auto simp: pg_Upsert_def)
    next
      case r1: None
      let ?ps = "order (remdups (map cr_ParentID chunks))"
      obtain r2 w2 where u: "upsert_tx db k s ?ps chunks w1 = (r2, w2)" by (metis surj_pair)
      have "r = r2" "w' = snd (tx_Rollback db w2)" using assms(4) chunks None b r1 u by (simp_all add: pg_Upsert_def)
      moreover have "set ?ps = cr_ParentID ` set chunks" using assms(3) by simp
      moreover have "intx w1" "work w1 = committed w1" "committed w1 = committed w" using e r1 by simp_all
      ultimately show ?thesis
        using upsert_tx_effect [OF assms(1) u _ _ assms(2)] pg_rollback [OF assms(1), of w2]
        by (cases r2) (simp_all add: Let_def)
    qed
  qed
qed

text \<open>C33: The search statement uses exactly the arguments it is sent with: its placeholders are the numbers from
  one to the number of arguments, whichever parts of the filter are there; and a search leaves no
  transaction open, however it ends.\<close>

theorem pg_search_is_well_formed:
  assumes "CHR ''$'' \<notin> set (ps_table s)"
  shows "(buildSearchSQL k s q topK threshold f = Inr (sql, args) \<longrightarrow>
      set (placeholders sql) = itoa ` {1..int (length args)})
    \<and> (pg_ok db committed work intx \<longrightarrow> \<not> intx w \<longrightarrow> \<not> intx (snd (pg_SearchWithFilter db k s q topK threshold f w)))"
proof (intro conjI impI)
  assume "buildSearchSQL k s q topK threshold f = Inr (sql, args)"
  then obtain meta pos where "search_statement k s q topK threshold f meta = (sql, args, pos)"
    by (auto simp: buildSearchSQL_def split: sum.split_asm prod.split_asm)
  then show "set (placeholders sql) = itoa ` {1..int (length args)}"
    using search_statement_ok [OF assms, of k q topK threshold f meta] by (simp add: statement_ok_def)
qed (metis search_intx prod.collapse)

text \<open>What an upsert writes is what a search reads: the columns of a chunk scan and decode to the chunk, but
  for its vector, which is not selected.\<close>

theorem pg_row_roundtrip:
  assumes "json_ok k" "upsert_args k c = Inr args"
  shows "row_hit k (scan_row args score) = Inr \<lparr>hit_Chunk = c\<lparr>cr_Embedding := []\<rparr>, hit_Score = score\<rparr>"
  using assms
  by (auto simp: upsert_args_def marshalMetadataJSON_def json_ok_def row_hit_def scan_row_def eval_nat_numeral
      split: if_split_asm sum.split_asm)

subsection \<open>A database and its use\<close>

type_synonym demo_world = "(string \<Rightarrow> pg_table) \<times> (string \<Rightarrow> pg_table) \<times> bool"

definition table_of :: "string \<Rightarrow> nat \<Rightarrow> string \<Rightarrow> string" where
  "table_of q0 n q = take (length q - length q0) (drop n q)"

definition demo_insert :: "string \<times> pg_arg list \<Rightarrow> demo_world \<Rightarrow> demo_world" where
  "demo_insert st w = (case (st, w) of ((q, args), (c, wk, i)) \<Rightarrow>
     (c, wk(table_of (upsertSQL '''') 13 q := put_row args (wk (table_of (upsertSQL '''') 13 q))), i))"

definition demo_delete :: "string \<Rightarrow> pg_arg list \<Rightarrow> demo_world \<Rightarrow> demo_world" where
  "demo_delete q args w = (case args of [PText p, PTexts ids] \<Rightarrow> (case w of (c, wk, i) \<Rightarrow>
       (c, wk(table_of (staleSQL '''') 12 q := drop_rows p ids (wk (table_of (staleSQL '''') 12 q))), i))
     | _ \<Rightarrow> w)"

definition demo_pg :: "demo_world database" where
  "demo_pg = \<lparr>pg_Exec = \<lambda>_ _ w. (None, w), pg_Query = \<lambda>_ _ w. (Inr ([], None), w),
     pg_Begin = \<lambda>(c, _, _). (None, (c, c, True)), tx_Exec = \<lambda>q args w. (None, demo_delete q args w),
     tx_Query = \<lambda>_ _ w. (Inr ([], None), w),
     tx_SendBatch = \<lambda>b w. ((map (\<lambda>_. None) b, None), fold demo_insert b w),
     tx_Commit = \<lambda>(c, wk, i). (None, (if i then wk else c, wk, False)), tx_Rollback = \<lambda>(c, wk, i). (None, (c, wk, False))\<rparr>"

lemma table_of_upsert: "table_of (upsertSQL '''') 13 (upsertSQL t) = t"
  by (simp add: table_of_def upsertSQL_def)

lemma table_of_stale: "table_of (staleSQL '''') 12 (staleSQL t) = t"
  by (simp add: table_of_def staleSQL_def)

lemma fold_demo_insert:
  "fold demo_insert (map (Pair (upsertSQL t)) rows) (c, wk, i) = (c, wk(t := fold put_row rows (wk t)), i)"
  by (induction rows arbitrary: wk) (simp_all add: demo_insert_def table_of_upsert)

lemma demo_delete_keeps: "fst (demo_delete q args w) = fst w" "snd (snd (demo_delete q args w)) = snd (snd w)"
  by (auto simp: demo_delete_def split: list.split pg_arg.split prod.split)

lemma demo_pg_ok: "pg_ok demo_pg fst (\<lambda>w. fst (snd w)) (\<lambda>w. snd (snd w))"
  unfolding pg_ok_def
proof (intro conjI)
  show "\<forall>t rows w rs cl w'. tx_SendBatch demo_pg (map (Pair (upsertSQL t)) rows) w = ((rs, cl), w') \<longrightarrow>
      fst w' = fst w \<and> snd (snd w') = snd (snd w) \<and> length rs = length rows
      \<and> (snd (snd w) \<longrightarrow> set rs \<subseteq> {None} \<longrightarrow> cl = None \<longrightarrow> fst (snd w') = (fst (snd w))(t := fold put_row rows (fst (snd w) t)))"
    by (auto simp: demo_pg_def fold_demo_insert)
  show "\<forall>t p ids w w'. tx_Exec demo_pg (staleSQL t) [PText p, PTexts ids] w = (None, w') \<longrightarrow> snd (snd w) \<longrightarrow>
      fst (snd w') = (fst (snd w))(t := drop_rows p ids (fst (snd w) t))"
    by (auto simp: demo_pg_def demo_delete_def table_of_stale)
qed (auto simp: demo_pg_def demo_delete_keeps)

definition demo_codec :: pg_codec where
  "demo_codec = \<lparr>pk_Sanitize = join_with ''.'', pk_Vector = \<lambda>_. ''[]'',
     pk_Marshal = \<lambda>m. if m = [''k'' \<mapsto> ''v''] then Inr ''{k}'' else Inl (errorf ''unsupported'' []),
     pk_Unmarshal = \<lambda>j. if j = ''{k}'' then Inr (Some [''k'' \<mapsto> ''v'']) else Inr (Some Map.empty)\<rparr>"

definition demo_pg_store :: pg_store where
  "demo_pg_store = \<lparr>ps_table = ''t'', ps_TableName = ''t'', ps_SchemaName = ''public'', ps_Dimensions = 1, ps_BatchSize = 1,
     ps_IndexStrategy = ''hnsw'', ps_HNSW = (16, 64, 100), ps_IVFFlat = (100, 10)\<rparr>"

definition demo_pg_chunk :: "string \<Rightarrow> chunk_record" where
  "demo_pg_chunk i = \<lparr>cr_ChunkID = i, cr_ParentID = ''p'', cr_SourcePath = ''/p'', cr_Title = '''', cr_Text = ''x'',
     cr_StartRune = 0, cr_EndRune = 1, cr_Metadata = [''k'' \<mapsto> ''v''], cr_Embedding = [1]\<rparr>"

definition demo_table :: "string \<Rightarrow> pg_table" where
  "demo_table t = (if t = ''t'' then [''p:9'' \<mapsto> row_of demo_codec (demo_pg_chunk ''p:9'')] else Map.empty)"

lemma demo_row: "row_parent (row_of demo_codec (demo_pg_chunk i)) = Some ''p''"
  by (simp add: row_of_def upsert_args_def marshalMetadataJSON_def demo_codec_def demo_pg_chunk_def)

theorem pg_upsert_is_atomic_witness:
  "\<exists>w'. pg_Upsert demo_pg demo_codec rev demo_pg_store [demo_pg_chunk ''p:0'', demo_pg_chunk ''p:1''] (demo_table, demo_table, False) = (None, w')
     \<and> fst w' ''t'' ''p:9'' = None \<and> fst w' ''t'' ''p:1'' = Some (row_of demo_codec (demo_pg_chunk ''p:1''))"
proof -
  let ?cs = "[demo_pg_chunk ''p:0'', demo_pg_chunk ''p:1'']"
  have args: "\<exists>a. upsert_args demo_codec (demo_pg_chunk i) = Inr a" for i
    by (simp add: upsert_args_def marshalMetadataJSON_def demo_codec_def demo_pg_chunk_def)
  have "fst (send_batches demo_pg demo_codec t (Suc 0) [] w) = None" for t w by (simp add: send_batches.simps)
  then have "fst (pg_Upsert demo_pg demo_codec rev demo_pg_store ?cs (demo_table, demo_table, False)) = None"
    using args [of "''p:0''"] args [of "''p:1''"]
    by (auto simp: pg_Upsert_def validateChunk_def upsert_tx_def effThen_def send_batches.simps send_batch_def demo_pg_def
        demo_pg_store_def split: prod.split option.split) (simp_all add: demo_pg_chunk_def)
  then obtain w' where run: "pg_Upsert demo_pg demo_codec rev demo_pg_store ?cs (demo_table, demo_table, False) = (None, w')"
    by (metis prod.collapse)
  have pos: "0 < ps_BatchSize demo_pg_store" and rev: "\<forall>ps :: string list. set (rev ps) = set ps" by (simp_all add: demo_pg_store_def)
  have "fst w' = demo_table(''t'' := pg_replaced demo_codec ?cs (demo_table ''t''))"
    using pg_upsert_is_atomic [OF demo_pg_ok pos rev run] by (simp add: demo_pg_store_def Let_def)
  then show ?thesis using run
    by (simp add: pg_replaced_def demo_table_def demo_row) (simp add: demo_pg_chunk_def)
qed

theorem pg_search_is_well_formed_witness:
  "(\<exists>sql args. buildSearchSQL demo_codec demo_pg_store [1] 3 (1/2) (empty_filter\<lparr>sf_SourcePrefixes := [''/kb'']\<rparr>) = Inr (sql, args)
     \<and> set (placeholders sql) = {''1'', ''2'', ''3'', ''4''})
   \<and> \<not> snd (snd (snd (pg_SearchWithFilter demo_pg demo_codec demo_pg_store [1] 3 (1/2) empty_filter (demo_table, demo_table, False))))"
proof -
  have t: "CHR ''$'' \<notin> set (ps_table demo_pg_store)" by (simp add: demo_pg_store_def)
  note wf = pg_search_is_well_formed [OF t]
  obtain sql args where s: "buildSearchSQL demo_codec demo_pg_store [1] 3 (1/2) (empty_filter\<lparr>sf_SourcePrefixes := [''/kb'']\<rparr>) = Inr (sql, args)"
    and l: "length args = 4"
    by (simp add: buildSearchSQL_def search_statement_def add_clause_def empty_filter_def Let_def)
  have "{1..int 4} = {1, 2, 3, 4}" by auto
  then have "set (placeholders sql) = {''1'', ''2'', ''3'', ''4''}"
    using wf [THEN conjunct1, rule_format, OF s] l by (simp add: itoa_small)
  moreover have "\<not> snd (snd (snd (pg_SearchWithFilter demo_pg demo_codec demo_pg_store [1] 3 (1/2) empty_filter (demo_table, demo_table, False))))"
    by (rule wf [THEN conjunct2, rule_format, OF demo_pg_ok]) simp
  ultimately show ?thesis using s by blast
qed

theorem pg_row_roundtrip_witness:
  "\<exists>args. upsert_args demo_codec (demo_pg_chunk ''p:0'') = Inr args
     \<and> row_hit demo_codec (scan_row args 1) = Inr \<lparr>hit_Chunk = (demo_pg_chunk ''p:0'')\<lparr>cr_Embedding := []\<rparr>, hit_Score = 1\<rparr>"
proof -
  have "json_ok demo_codec" by (simp add: json_ok_def demo_codec_def)
  moreover obtain args where "upsert_args demo_codec (demo_pg_chunk ''p:0'') = Inr args"
    by (simp add: upsert_args_def marshalMetadataJSON_def demo_codec_def demo_pg_chunk_def)
  ultimately show ?thesis using pg_row_roundtrip by blast
qed

subsection \<open>Findings\<close>

text \<open>A source prefix is sent as a LIKE pattern: it also matches the siblings whose names it begins, which the
  prefixes of the embedded store and of the access boundary do not, and its own wild cards are not quoted.\<close>

lemma pg_prefix_is_wider:
  assumes "\<forall>s p. set p \<inter> set ''%_'' = {} \<longrightarrow> like s (p @ ''%'') = has_prefix s p"
  shows "fst (snd (search_statement k s q 1 (-1) (empty_filter\<lparr>sf_SourcePrefixes := [''/kb/t1'']\<rparr>) meta)) ! 1 = PTexts [''/kb/t1%'']"
    and "like ''/kb/t10/a'' ''/kb/t1%''" and "\<not> sourcePathMatchesPrefix ''/kb/t10/a'' ''/kb/t1''"
proof -
  show "fst (snd (search_statement k s q 1 (-1) (empty_filter\<lparr>sf_SourcePrefixes := [''/kb/t1'']\<rparr>) meta)) ! 1 = PTexts [''/kb/t1%'']"
    by (simp add: search_statement_def add_clause_def empty_filter_def Let_def)
  show "like ''/kb/t10/a'' ''/kb/t1%''"
    using assms [rule_format, of "''/kb/t1''" "''/kb/t10/a''"] by (simp add: has_prefix_def)
  show "\<not> sourcePathMatchesPrefix ''/kb/t10/a'' ''/kb/t1''" by code_simp
qed

text \<open>A client opened from a configuration is not closed when the tables cannot be made.\<close>

lemma failed_init_leaks_client:
  assumes "pgc_validate (pgc_normalized c) = None" "pgc_Client c = None" "pgc_ClientConfig c = Some cc" "pp_OpenClient pp cc w = (Inr client, w1)"
    and "pg_init pp (pp_database pp (pp_ClientPool pp client)) k (pgc_normalized c) (pg_store_of k (pgc_normalized c)) w1 = (Some e, w2)"
  shows "newPGVectorStore pp k c w = (Inl e, w2)"
proof -
  have "pgc_Client (pgc_normalized c) = None" "pgc_ClientConfig (pgc_normalized c) = Some cc"
    using assms(2,3) by (simp_all add: pgc_normalized_def)
  then show ?thesis using assms(1,4,5) by (simp add: newPGVectorStore_def connect_pool_def Let_def)
qed

text \<open>The four switches of the automatic set-up cannot be turned off.\<close>

lemma auto_create_cannot_be_disabled:
  "pgc_AutoCreateExtension (pgc_normalized c) \<and> pgc_AutoCreateSchema (pgc_normalized c)
   \<and> pgc_AutoCreateTable (pgc_normalized c) \<and> pgc_AutoCreateIndexes (pgc_normalized c)"
  by (simp add: pgc_normalized_def)

end
