(* ===== verification/Evaluation.thy ===== *)
theory Evaluation
  imports Ask Config
begin

section \<open>Evaluation\<close>

text \<open>
  \<^verbatim>\<open>evaluation.go\<close>: suites of questions with scores, their report as a JSON payload, and the gate that compares a
  report with thresholds or with a baseline. The agent is the function that answers a question of a session
  (nothing for nil); the JSON text, the files and the formatting of numbers are parameters.
\<close>

subsection \<open>Cases, results and reports\<close>

record eval_case =
  ec_Name :: string
  ec_SessionID :: string
  ec_Query :: string
  ec_Options :: query_options
  ec_WantCitationSources :: "string list"
  ec_WantAnswerContains :: "string list"
  ec_WantGroundedSubstrings :: "string list"
  ec_ExpectRefusal :: bool

record eval_result =
  er_Name :: string
  er_Answer :: answer
  er_RetrievalRecall :: real
  er_CitationPrecision :: real
  er_Groundedness :: real
  er_AnswerMatch :: bool
  er_Refused :: bool
  er_Passed :: bool
  er_Err :: "go_error option"

record eval_summary =
  es_TotalCases :: nat
  es_PassedCases :: nat
  es_RetrievalRecall :: real
  es_CitationPrecision :: real
  es_Groundedness :: real
  es_AnswerMatchRate :: real
  es_RefusalAccuracy :: real

record ('t, 'w) structured_case =
  stc_Name :: string
  stc_SessionID :: string
  stc_Query :: string
  stc_Options :: query_options
  stc_NewTarget :: "'t option"
  stc_Validate :: "('t \<Rightarrow> 'w \<Rightarrow> go_error option) option"

record structured_result =
  sr_Name :: string
  sr_Answer :: structured_answer
  sr_Valid :: bool
  sr_Passed :: bool
  sr_Err :: "go_error option"

record structured_summary =
  ss_TotalCases :: nat
  ss_PassedCases :: nat
  ss_ValidRate :: real

record eval_report =
  rp_Summary :: eval_summary
  rp_Results :: "eval_result list"
  rp_StructuredSummary :: structured_summary
  rp_StructuredResults :: "structured_result list"

record eval_thresholds =
  th_MinRetrievalRecall :: real
  th_MinCitationPrecision :: real
  th_MinGroundedness :: real
  th_MinAnswerMatchRate :: real
  th_MinStructuredOutputValidRate :: real
  th_MinRefusalAccuracy :: real
  th_MaxFailures :: int

subsection \<open>Scores\<close>

definition ratio :: "nat \<Rightarrow> nat \<Rightarrow> real" where
  "ratio a b = real a / real b"

definition count_if :: "('a \<Rightarrow> bool) \<Rightarrow> 'a list \<Rightarrow> nat" where
  "count_if p xs = length (filter p xs)"

definition scoreRecall :: "citation list \<Rightarrow> string list \<Rightarrow> real" where
  "scoreRecall cs want = (if want = [] then 1
     else ratio (count_if (\<lambda>s. list_ex (\<lambda>c. cit_SourcePath c = s) cs) want) (length want))"

definition scorePrecision :: "citation list \<Rightarrow> string list \<Rightarrow> real" where
  "scorePrecision cs want = (if cs = [] then (if want = [] then 1 else 0)
     else if want = [] then 0
     else ratio (count_if (\<lambda>c. cit_SourcePath c \<in> set want) cs) (length cs))"

definition scoreGroundedness :: "string \<Rightarrow> string list \<Rightarrow> real" where
  "scoreGroundedness answer subs = (if subs = [] then 1 else ratio (count_if (contains answer) subs) (length subs))"

definition containsAll :: "string \<Rightarrow> string list \<Rightarrow> bool" where
  "containsAll answer wants \<longleftrightarrow> list_all (contains answer) wants"

definition defaultString :: "string \<Rightarrow> string \<Rightarrow> string" where
  "defaultString value alt = (if \<not> blank value then value else alt)"

definition isRefusalError :: "go_error option \<Rightarrow> bool" where
  "isRefusalError e \<longleftrightarrow> (case e of None \<Rightarrow> False
     | Some e \<Rightarrow> err_is e ErrEvidenceInsufficient \<or> err_is e ErrToolCallLimitExceeded)"

subsection \<open>The suite\<close>

text \<open>\<^verbatim>\<open>AskWithOptions\<close> of the session of an id.\<close>

type_synonym 'w asker = "string \<Rightarrow> string \<Rightarrow> query_options \<Rightarrow> 'w \<Rightarrow> (answer \<times> go_error option) \<times> 'w"

definition blank_result :: "string \<Rightarrow> eval_result" where
  "blank_result name = \<lparr>er_Name = name, er_Answer = no_answer, er_RetrievalRecall = 0, er_CitationPrecision = 0,
     er_Groundedness = 0, er_AnswerMatch = False, er_Refused = False, er_Passed = False, er_Err = None\<rparr>"

definition score_case :: "eval_case \<Rightarrow> answer \<Rightarrow> go_error option \<Rightarrow> eval_result" where
  "score_case c a e = (let r = (blank_result (ec_Name c))\<lparr>er_Answer := a, er_Err := e, er_Refused := isRefusalError e\<rparr> in
     if ec_ExpectRefusal c then r\<lparr>er_Passed := er_Refused r\<rparr>
     else if e = None then
       (let recall = scoreRecall (an_Citations a) (ec_WantCitationSources c);
            precision = scorePrecision (an_Citations a) (ec_WantCitationSources c);
            grounded = scoreGroundedness (an_Text a) (ec_WantGroundedSubstrings c);
            match = containsAll (an_Text a) (ec_WantAnswerContains c)
        in r\<lparr>er_RetrievalRecall := recall, er_CitationPrecision := precision, er_Groundedness := grounded,
             er_AnswerMatch := match, er_Passed := (recall \<ge> 1 \<and> precision \<ge> 1 \<and> grounded \<ge> 1 \<and> match)\<rparr>)
     else r)"

record suite_state =
  su_summary :: eval_summary
  su_answerable :: nat
  su_refusalExpected :: nat
  su_refusalCorrect :: nat
  su_results :: "eval_result list"

definition count_case :: "eval_case \<Rightarrow> eval_result \<Rightarrow> suite_state \<Rightarrow> suite_state" where
  "count_case c r st =
     (let st = (if ec_ExpectRefusal c
        then st\<lparr>su_refusalExpected := su_refusalExpected st + 1, su_refusalCorrect := su_refusalCorrect st + of_bool (er_Passed r)\<rparr>
        else st\<lparr>su_answerable := su_answerable st + 1,
               su_summary := (su_summary st)\<lparr>es_RetrievalRecall := es_RetrievalRecall (su_summary st) + er_RetrievalRecall r,
                 es_CitationPrecision := es_CitationPrecision (su_summary st) + er_CitationPrecision r,
                 es_Groundedness := es_Groundedness (su_summary st) + er_Groundedness r,
                 es_AnswerMatchRate := es_AnswerMatchRate (su_summary st) + of_bool (er_AnswerMatch r)\<rparr>\<rparr>)
      in st\<lparr>su_summary := (su_summary st)\<lparr>es_PassedCases := es_PassedCases (su_summary st) + of_bool (er_Passed r)\<rparr>,
            su_results := su_results st @ [r]\<rparr>)"

fun run_cases :: "'w asker option \<Rightarrow> eval_case list \<Rightarrow> suite_state \<Rightarrow> 'w \<Rightarrow> suite_state \<times> 'w" where
  "run_cases agent [] st w = (st, w)"
| "run_cases None (c # cs) st w = run_cases None cs (st\<lparr>su_results := su_results st @
     [(blank_result (ec_Name c))\<lparr>er_Err := Some (sentinel_error ''ragagent: invalid config'' ErrInvalidConfig)\<rparr>]\<rparr>) w"
| "run_cases (Some ask) (c # cs) st w =
     (case ask (defaultString (ec_SessionID c) (ec_Name c)) (ec_Query c) (ec_Options c) w of ((a, e), w) \<Rightarrow>
        run_cases (Some ask) cs (count_case c (score_case c a e) st) w)"

definition finish_summary :: "suite_state \<Rightarrow> eval_summary" where
  "finish_summary st = (let s = su_summary st; n = real (su_answerable st);
     s = (if su_answerable st > 0 then s\<lparr>es_RetrievalRecall := es_RetrievalRecall s / n,
            es_CitationPrecision := es_CitationPrecision s / n, es_Groundedness := es_Groundedness s / n,
            es_AnswerMatchRate := es_AnswerMatchRate s / n\<rparr> else s)
     in s\<lparr>es_RefusalAccuracy := (if su_refusalExpected st > 0 then ratio (su_refusalCorrect st) (su_refusalExpected st) else 1)\<rparr>)"

definition start_suite :: "eval_case list \<Rightarrow> suite_state" where
  "start_suite cs = \<lparr>su_summary = \<lparr>es_TotalCases = length cs, es_PassedCases = 0, es_RetrievalRecall = 0, es_CitationPrecision = 0,
     es_Groundedness = 0, es_AnswerMatchRate = 0, es_RefusalAccuracy = 0\<rparr>, su_answerable = 0, su_refusalExpected = 0,
     su_refusalCorrect = 0, su_results = []\<rparr>"

definition runEvalSuite :: "'w asker option \<Rightarrow> eval_case list \<Rightarrow> 'w \<Rightarrow> (eval_summary \<times> eval_result list) \<times> 'w" where
  "runEvalSuite agent cs w = (case run_cases agent cs (start_suite cs) w of (st, w) \<Rightarrow> ((finish_summary st, su_results st), w))"

subsection \<open>Structured questions\<close>

text \<open>The target is filled in by the question; validation reads it.\<close>

type_synonym ('t, 'w) structured_asker = "string \<Rightarrow> string \<Rightarrow> query_options \<Rightarrow> 't \<Rightarrow> 'w \<Rightarrow> (structured_answer \<times> go_error option) \<times> 'w"

definition no_structured :: structured_answer where
  "no_structured = \<lparr>sa_Answer = no_answer, sa_RawJSON = ''''\<rparr>"

definition structured_failed :: "string \<Rightarrow> structured_result" where
  "structured_failed name = \<lparr>sr_Name = name, sr_Answer = no_structured, sr_Valid = False, sr_Passed = False,
     sr_Err = Some (sentinel_error ''ragagent: invalid config'' ErrInvalidConfig)\<rparr>"

fun runStructuredEvalSuite ::
  "('t, 'w) structured_asker option \<Rightarrow> ('t, 'w) structured_case list \<Rightarrow> 'w \<Rightarrow> structured_result list \<times> 'w" where
  "runStructuredEvalSuite agent [] w = ([], w)"
| "runStructuredEvalSuite agent (c # cs) w =
     (case (case (agent, stc_NewTarget c) of
        (Some ask, Some target) \<Rightarrow>
          (case ask (defaultString (stc_SessionID c) (stc_Name c)) (stc_Query c) (stc_Options c) target w of ((a, e), w) \<Rightarrow>
            (let valid = (e = None \<and> (case stc_Validate c of None \<Rightarrow> True | Some v \<Rightarrow> v target w = None))
             in (\<lparr>sr_Name = stc_Name c, sr_Answer = a, sr_Valid = valid, sr_Passed = valid, sr_Err = e\<rparr>, w)))
      | _ \<Rightarrow> (structured_failed (stc_Name c), w)) of (r, w) \<Rightarrow>
      (case runStructuredEvalSuite agent cs w of (rs, w) \<Rightarrow> (r # rs, w)))"

definition summarizeStructuredEvalResults :: "structured_result list \<Rightarrow> structured_summary" where
  "summarizeStructuredEvalResults rs = \<lparr>ss_TotalCases = length rs, ss_PassedCases = count_if sr_Passed rs,
     ss_ValidRate = (if rs = [] then 0 else ratio (count_if sr_Valid rs) (length rs))\<rparr>"

subsection \<open>The report as a payload\<close>

record answer_json =
  aj_Text :: string
  aj_Citations :: "citation list"

record eval_result_json =
  ej_Name :: string
  ej_Answer :: answer_json
  ej_RetrievalRecall :: real
  ej_CitationPrecision :: real
  ej_Groundedness :: real
  ej_AnswerMatch :: bool
  ej_Refused :: bool
  ej_Passed :: bool
  ej_Err :: string

record structured_result_json =
  sj_Name :: string
  sj_RawJSON :: string
  sj_Valid :: bool
  sj_Passed :: bool
  sj_Err :: string

record eval_report_json =
  pj_Summary :: eval_summary
  pj_Results :: "eval_result_json list"
  pj_StructuredSummary :: structured_summary
  pj_StructuredResults :: "structured_result_json list"

definition errString :: "go_error option \<Rightarrow> string" where
  "errString e = (case e of None \<Rightarrow> '''' | Some e \<Rightarrow> err_text e)"

definition stringToError :: "string \<Rightarrow> go_error option" where
  "stringToError s = (if blank s then None else Some (errorf s []))"

definition result_to_json :: "eval_result \<Rightarrow> eval_result_json" where
  "result_to_json r = \<lparr>ej_Name = er_Name r,
     ej_Answer = \<lparr>aj_Text = an_Text (er_Answer r), aj_Citations = an_Citations (er_Answer r)\<rparr>,
     ej_RetrievalRecall = er_RetrievalRecall r, ej_CitationPrecision = er_CitationPrecision r,
     ej_Groundedness = er_Groundedness r, ej_AnswerMatch = er_AnswerMatch r, ej_Refused = er_Refused r,
     ej_Passed = er_Passed r, ej_Err = errString (er_Err r)\<rparr>"

definition result_from_json :: "eval_result_json \<Rightarrow> eval_result" where
  "result_from_json j = \<lparr>er_Name = ej_Name j,
     er_Answer = \<lparr>an_Text = aj_Text (ej_Answer j), an_Citations = aj_Citations (ej_Answer j), an_Trace = None\<rparr>,
     er_RetrievalRecall = ej_RetrievalRecall j, er_CitationPrecision = ej_CitationPrecision j,
     er_Groundedness = ej_Groundedness j, er_AnswerMatch = ej_AnswerMatch j, er_Refused = ej_Refused j,
     er_Passed = ej_Passed j, er_Err = stringToError (ej_Err j)\<rparr>"

definition structured_to_json :: "structured_result \<Rightarrow> structured_result_json" where
  "structured_to_json r = \<lparr>sj_Name = sr_Name r, sj_RawJSON = sa_RawJSON (sr_Answer r), sj_Valid = sr_Valid r,
     sj_Passed = sr_Passed r, sj_Err = errString (sr_Err r)\<rparr>"

definition structured_from_json :: "structured_result_json \<Rightarrow> structured_result" where
  "structured_from_json j = \<lparr>sr_Name = sj_Name j, sr_Answer = no_structured\<lparr>sa_RawJSON := sj_RawJSON j\<rparr>,
     sr_Valid = sj_Valid j, sr_Passed = sj_Passed j, sr_Err = stringToError (sj_Err j)\<rparr>"

definition newEvalReportJSON :: "eval_report \<Rightarrow> eval_report_json" where
  "newEvalReportJSON r = \<lparr>pj_Summary = rp_Summary r, pj_Results = map result_to_json (rp_Results r),
     pj_StructuredSummary = rp_StructuredSummary r, pj_StructuredResults = map structured_to_json (rp_StructuredResults r)\<rparr>"

definition toReport :: "eval_report_json \<Rightarrow> eval_report" where
  "toReport j = \<lparr>rp_Summary = pj_Summary j, rp_Results = map result_from_json (pj_Results j),
     rp_StructuredSummary = pj_StructuredSummary j, rp_StructuredResults = map structured_from_json (pj_StructuredResults j)\<rparr>"

text \<open>The files and the JSON text: \<open>ef_Write\<close> puts a file, \<open>ef_Read\<close> reads it.\<close>

record 'w eval_files =
  ef_Marshal :: "eval_report_json \<Rightarrow> string result"
  ef_Unmarshal :: "string \<Rightarrow> eval_report_json result"
  ef_MkdirAll :: "string \<Rightarrow> 'w effect"
  ef_Write :: "string \<Rightarrow> string \<Rightarrow> 'w effect"
  ef_Read :: "string \<Rightarrow> 'w \<Rightarrow> string result"
  ef_Dir :: "string \<Rightarrow> string"

definition writeEvalReportJSON :: "'w eval_files \<Rightarrow> string \<Rightarrow> eval_report \<Rightarrow> 'w effect" where
  "writeEvalReportJSON fs path r w = (case ef_Marshal fs (newEvalReportJSON r) of Inl e \<Rightarrow> (Some e, w)
   | Inr data \<Rightarrow> (case ef_MkdirAll fs (ef_Dir fs path) w of (Some e, w) \<Rightarrow> (Some (wrap_err ''mkdir eval report dir'' e), w)
     | (None, w) \<Rightarrow> (case ef_Write fs path data w of
          (e, w) \<Rightarrow> (map_option (wrap_err (''write eval report json '' @ quoted path)) e, w))))"

definition readEvalReportJSON :: "'w eval_files \<Rightarrow> string \<Rightarrow> 'w \<Rightarrow> eval_report result" where
  "readEvalReportJSON fs path w = (case ef_Read fs path w of
     Inl e \<Rightarrow> Inl (wrap_err (''read eval report json '' @ quoted path) e)
   | Inr data \<Rightarrow> (case ef_Unmarshal fs data of
       Inl e \<Rightarrow> Inl (wrap_err (''unmarshal eval report json '' @ quoted path) e)
     | Inr j \<Rightarrow> Inr (toReport j)))"

subsection \<open>The gate\<close>

definition below :: "(real \<Rightarrow> string) \<Rightarrow> string \<Rightarrow> real \<Rightarrow> real \<Rightarrow> go_error option" where
  "below fmt what x least = (if x < least then Some (errorf (what @ '' '' @ fmt x @ '' is below min '' @ fmt least) []) else None)"

definition eval_failures :: "eval_report \<Rightarrow> int" where
  "eval_failures r = int (es_TotalCases (rp_Summary r)) - int (es_PassedCases (rp_Summary r))"

definition checkEvalThresholds :: "(real \<Rightarrow> string) \<Rightarrow> eval_report \<Rightarrow> eval_thresholds \<Rightarrow> go_error option" where
  "checkEvalThresholds fmt r t = first_failure
     [if th_MaxFailures t \<ge> 0 \<and> eval_failures r > th_MaxFailures t
      then Some (errorf (''eval failures '' @ itoa (eval_failures r) @ '' exceed max '' @ itoa (th_MaxFailures t)) []) else None,
      below fmt ''retrieval recall'' (es_RetrievalRecall (rp_Summary r)) (th_MinRetrievalRecall t),
      below fmt ''citation precision'' (es_CitationPrecision (rp_Summary r)) (th_MinCitationPrecision t),
      below fmt ''groundedness'' (es_Groundedness (rp_Summary r)) (th_MinGroundedness t),
      below fmt ''answer match rate'' (es_AnswerMatchRate (rp_Summary r)) (th_MinAnswerMatchRate t),
      below fmt ''structured output valid rate'' (ss_ValidRate (rp_StructuredSummary r)) (th_MinStructuredOutputValidRate t),
      below fmt ''refusal accuracy'' (es_RefusalAccuracy (rp_Summary r)) (th_MinRefusalAccuracy t)]"

definition compareEvalReportWithBaseline :: "(real \<Rightarrow> string) \<Rightarrow> eval_report \<Rightarrow> eval_report \<Rightarrow> go_error option" where
  "compareEvalReportWithBaseline fmt r b = checkEvalThresholds fmt r
     \<lparr>th_MinRetrievalRecall = es_RetrievalRecall (rp_Summary b), th_MinCitationPrecision = es_CitationPrecision (rp_Summary b),
      th_MinGroundedness = es_Groundedness (rp_Summary b), th_MinAnswerMatchRate = es_AnswerMatchRate (rp_Summary b),
      th_MinStructuredOutputValidRate = ss_ValidRate (rp_StructuredSummary b),
      th_MinRefusalAccuracy = es_RefusalAccuracy (rp_Summary b), th_MaxFailures = eval_failures b\<rparr>"

subsection \<open>Lemmas: scores\<close>

lemma ratio_range: "a \<le> b \<Longrightarrow> 0 \<le> ratio a b \<and> ratio a b \<le> 1"
  by (cases "b = 0") (simp_all add: ratio_def divide_le_eq)

lemma count_if_le: "count_if p xs \<le> length xs"
  by (simp add: count_if_def)

lemma score_range:
  "0 \<le> scoreRecall cs want \<and> scoreRecall cs want \<le> 1" "0 \<le> scorePrecision cs want \<and> scorePrecision cs want \<le> 1"
  "0 \<le> scoreGroundedness t subs \<and> scoreGroundedness t subs \<le> 1"
  by (simp_all add: scoreRecall_def scorePrecision_def scoreGroundedness_def ratio_range count_if_le)

definition result_in_range :: "eval_result \<Rightarrow> bool" where
  "result_in_range r \<longleftrightarrow> {er_RetrievalRecall r, er_CitationPrecision r, er_Groundedness r} \<subseteq> {0..1}"

lemma score_case_range: "result_in_range (score_case c a e)"
  by (simp add: score_case_def result_in_range_def Let_def blank_result_def score_range)

lemma score_case_name [simp]: "er_Name (score_case c a e) = ec_Name c"
  by (simp add: score_case_def Let_def blank_result_def)

lemma full_recall: "scoreRecall cs want \<ge> 1 \<longleftrightarrow> set want \<subseteq> cit_SourcePath ` set cs"
proof (cases "want = []")
  case False
  have "count_if p want \<ge> length want \<longleftrightarrow> (\<forall>s \<in> set want. p s)" for p
    by (metis count_if_def filter_id_conv filter_True length_filter_le le_antisym length_filter_less linorder_not_less)
  with False show ?thesis
    by (auto simp: scoreRecall_def ratio_def le_divide_eq list_ex_iff)
qed (simp add: scoreRecall_def)

subsection \<open>Lemmas: the suite\<close>

definition mean :: "real list \<Rightarrow> real" where
  "mean xs = (if xs = [] then 0 else sum_list xs / real (length xs))"

lemma mean_range:
  assumes "set xs \<subseteq> {0..1}"
  shows "0 \<le> mean xs \<and> mean xs \<le> 1"
proof -
  have "0 \<le> sum_list xs \<and> sum_list xs \<le> real (length xs)" using assms by (induction xs) auto
  then show ?thesis by (simp add: mean_def divide_le_eq)
qed

text \<open>The results of the cases of a kind.\<close>

definition of_kind :: "bool \<Rightarrow> eval_case list \<Rightarrow> eval_result list \<Rightarrow> eval_result list" where
  "of_kind b cs rs = map snd (filter (\<lambda>(c, r). ec_ExpectRefusal c = b) (zip cs rs))"

lemma of_kind_Cons [simp]: "of_kind b (c # cs) (r # rs) = (if ec_ExpectRefusal c = b then r # of_kind b cs rs else of_kind b cs rs)"
  by (simp add: of_kind_def)

lemma of_kind_Nil [simp]: "of_kind b [] rs = []"
  by (simp add: of_kind_def)

lemma set_of_kind: "set (of_kind b cs rs) \<subseteq> set rs"
  by (auto simp: of_kind_def dest: set_zip_rightD)

lemma count_if_Cons [simp]: "count_if p [] = 0" "count_if p (x # xs) = of_bool (p x) + count_if p xs"
  by (simp_all add: count_if_def)

lemma run_cases_results:
  assumes "run_cases (Some ask) cs st w = (st', w')"
  shows "\<exists>rs. su_results st' = su_results st @ rs \<and> map er_Name rs = map ec_Name cs
    \<and> (\<forall>r \<in> set rs. result_in_range r)
    \<and> su_answerable st' = su_answerable st + length (of_kind False cs rs)
    \<and> su_refusalExpected st' = su_refusalExpected st + length (of_kind True cs rs)
    \<and> su_refusalCorrect st' = su_refusalCorrect st + count_if er_Passed (of_kind True cs rs)
    \<and> es_TotalCases (su_summary st') = es_TotalCases (su_summary st)
    \<and> es_PassedCases (su_summary st') = es_PassedCases (su_summary st) + count_if er_Passed rs
    \<and> es_RetrievalRecall (su_summary st') = es_RetrievalRecall (su_summary st) + sum_list (map er_RetrievalRecall (of_kind False cs rs))
    \<and> es_CitationPrecision (su_summary st') = es_CitationPrecision (su_summary st) + sum_list (map er_CitationPrecision (of_kind False cs rs))
    \<and> es_Groundedness (su_summary st') = es_Groundedness (su_summary st) + sum_list (map er_Groundedness (of_kind False cs rs))
    \<and> es_AnswerMatchRate (su_summary st') = es_AnswerMatchRate (su_summary st)
        + sum_list (map (\<lambda>r. of_bool (er_AnswerMatch r)) (of_kind False cs rs))"
  using assms
proof (induction cs arbitrary: st w)
  case Nil
  then show ?case by (intro exI [of _ "[]"]) simp
next
  case (Cons c cs)
  obtain a e w1 where q: "ask (defaultString (ec_SessionID c) (ec_Name c)) (ec_Query c) (ec_Options c) w = ((a, e), w1)"
    by (metis surj_pair)
  let ?r = "score_case c a e"
  have "run_cases (Some ask) cs (count_case c ?r st) w1 = (st', w')" using Cons.prems q by simp
  from Cons.IH [OF this] obtain rs where rs: "su_results st' = su_results (count_case c ?r st) @ rs" "map er_Name rs = map ec_Name cs"
    "\<forall>r \<in> set rs. result_in_range r"
    "su_answerable st' = su_answerable (count_case c ?r st) + length (of_kind False cs rs)"
    "su_refusalExpected st' = su_refusalExpected (count_case c ?r st) + length (of_kind True cs rs)"
    "su_refusalCorrect st' = su_refusalCorrect (count_case c ?r st) + count_if er_Passed (of_kind True cs rs)"
    "es_TotalCases (su_summary st') = es_TotalCases (su_summary (count_case c ?r st))"
    "es_PassedCases (su_summary st') = es_PassedCases (su_summary (count_case c ?r st)) + count_if er_Passed rs"
    "es_RetrievalRecall (su_summary st') = es_RetrievalRecall (su_summary (count_case c ?r st)) + sum_list (map er_RetrievalRecall (of_kind False cs rs))"
    "es_CitationPrecision (su_summary st') = es_CitationPrecision (su_summary (count_case c ?r st)) + sum_list (map er_CitationPrecision (of_kind False cs rs))"
    "es_Groundedness (su_summary st') = es_Groundedness (su_summary (count_case c ?r st)) + sum_list (map er_Groundedness (of_kind False cs rs))"
    "es_AnswerMatchRate (su_summary st') = es_AnswerMatchRate (su_summary (count_case c ?r st))
      + sum_list (map (\<lambda>r. of_bool (er_AnswerMatch r)) (of_kind False cs rs))"
    by blast
  show ?case
    by (rule exI [of _ "?r # rs"]) (simp add: rs score_case_range count_case_def Let_def)
qed

subsection \<open>Properties\<close>

text \<open>C37: The summary of a suite is what its results say: the scores are the means over the cases that expect an
  answer, the refusal accuracy is the share of the refusals expected that happened, the passes are counted
  once, and every rate lies between zero and one.\<close>

theorem eval_summary_is_mean_of_results:
  "\<exists>s rs w'. runEvalSuite (Some ask) cs w = ((s, rs), w') \<and> map er_Name rs = map ec_Name cs
    \<and> es_TotalCases s = length cs \<and> es_PassedCases s = count_if er_Passed rs
    \<and> es_RetrievalRecall s = mean (map er_RetrievalRecall (of_kind False cs rs))
    \<and> es_CitationPrecision s = mean (map er_CitationPrecision (of_kind False cs rs))
    \<and> es_Groundedness s = mean (map er_Groundedness (of_kind False cs rs))
    \<and> es_AnswerMatchRate s = mean (map (\<lambda>r. of_bool (er_AnswerMatch r)) (of_kind False cs rs))
    \<and> es_RefusalAccuracy s = (if of_kind True cs rs = [] then 1
        else ratio (count_if er_Passed (of_kind True cs rs)) (length (of_kind True cs rs)))
    \<and> {es_RetrievalRecall s, es_CitationPrecision s, es_Groundedness s, es_AnswerMatchRate s, es_RefusalAccuracy s} \<subseteq> {0..1}"
proof -
  obtain st w' where run: "run_cases (Some ask) cs (start_suite cs) w = (st, w')" by (metis surj_pair)
  obtain rs where rs: "su_results st = rs" "map er_Name rs = map ec_Name cs" "\<forall>r \<in> set rs. result_in_range r"
    "su_answerable st = length (of_kind False cs rs)" "su_refusalExpected st = length (of_kind True cs rs)"
    "su_refusalCorrect st = count_if er_Passed (of_kind True cs rs)" "es_TotalCases (su_summary st) = length cs"
    "es_PassedCases (su_summary st) = count_if er_Passed rs"
    "es_RetrievalRecall (su_summary st) = sum_list (map er_RetrievalRecall (of_kind False cs rs))"
    "es_CitationPrecision (su_summary st) = sum_list (map er_CitationPrecision (of_kind False cs rs))"
    "es_Groundedness (su_summary st) = sum_list (map er_Groundedness (of_kind False cs rs))"
    "es_AnswerMatchRate (su_summary st) = sum_list (map (\<lambda>r. of_bool (er_AnswerMatch r)) (of_kind False cs rs))"
    using run_cases_results [OF run] by (auto simp: start_suite_def)
  let ?A = "of_kind False cs rs"
  have "\<forall>r \<in> set ?A. result_in_range r" using rs(3) set_of_kind [of False cs rs] by blast
  then have "set (map er_RetrievalRecall ?A) \<subseteq> {0..1}" "set (map er_CitationPrecision ?A) \<subseteq> {0..1}"
    "set (map er_Groundedness ?A) \<subseteq> {0..1}" "set (map (\<lambda>r. of_bool (er_AnswerMatch r)) ?A) \<subseteq> {0..1 :: real}"
    by (auto simp: result_in_range_def)
  note range = this [THEN mean_range]
  have fin: "finish_summary st = (su_summary st)\<lparr>es_RetrievalRecall := mean (map er_RetrievalRecall ?A),
      es_CitationPrecision := mean (map er_CitationPrecision ?A), es_Groundedness := mean (map er_Groundedness ?A),
      es_AnswerMatchRate := mean (map (\<lambda>r. of_bool (er_AnswerMatch r)) ?A),
      es_RefusalAccuracy := (if of_kind True cs rs = [] then 1
        else ratio (count_if er_Passed (of_kind True cs rs)) (length (of_kind True cs rs)))\<rparr>"
    by (cases "su_summary st"; use rs in \<open>simp add: finish_summary_def mean_def Let_def\<close>)
  show ?thesis
    using rs(1,2,7,8) range ratio_range [OF count_if_le [of er_Passed "of_kind True cs rs"]]
    by (intro exI [of _ "finish_summary st"] exI [of _ rs] exI [of _ w']) (simp add: runEvalSuite_def run fin)
qed

text \<open>What the payload holds of a report.\<close>

definition payload_view :: "eval_report \<Rightarrow> eval_report" where
  "payload_view r = r\<lparr>
     rp_Results := map (\<lambda>x. x\<lparr>er_Answer := (er_Answer x)\<lparr>an_Trace := None\<rparr>, er_Err := stringToError (errString (er_Err x))\<rparr>) (rp_Results r),
     rp_StructuredResults := map (\<lambda>x. x\<lparr>sr_Answer := no_structured\<lparr>sa_RawJSON := sa_RawJSON (sr_Answer x)\<rparr>,
       sr_Err := stringToError (errString (sr_Err x))\<rparr>) (rp_StructuredResults r)\<rparr>"

lemma toReport_new: "toReport (newEvalReportJSON r) = payload_view r"
proof -
  have "result_from_json (result_to_json x) = x\<lparr>er_Answer := (er_Answer x)\<lparr>an_Trace := None\<rparr>, er_Err := stringToError (errString (er_Err x))\<rparr>" for x
    by (cases x) (simp add: result_from_json_def result_to_json_def)
  moreover have "structured_from_json (structured_to_json x) = x\<lparr>sr_Answer := no_structured\<lparr>sa_RawJSON := sa_RawJSON (sr_Answer x)\<rparr>,
       sr_Err := stringToError (errString (sr_Err x))\<rparr>" for x
    by (cases x) (simp add: structured_from_json_def structured_to_json_def)
  ultimately show ?thesis by (cases r) (simp add: toReport_def newEvalReportJSON_def payload_view_def)
qed

lemma errString_stringToError: "stringToError (errString (stringToError s)) = stringToError s"
  by (simp add: stringToError_def errString_def)

lemma payload_view_idem: "payload_view (payload_view r) = payload_view r"
  by (simp add: payload_view_def errString_stringToError comp_def no_structured_def)

lemma payload_view_gate: "checkEvalThresholds fmt (payload_view r) t = checkEvalThresholds fmt r t"
  by (simp add: checkEvalThresholds_def payload_view_def eval_failures_def)

definition files_ok :: "'w eval_files \<Rightarrow> bool" where
  "files_ok fs \<longleftrightarrow> (\<forall>j d. ef_Marshal fs j = Inr d \<longrightarrow> ef_Unmarshal fs d = Inr j)
     \<and> (\<forall>path d w w'. ef_Write fs path d w = (None, w') \<longrightarrow> ef_Read fs path w' = Inr d)"

text \<open>C38: Writing a report to a file and reading it back loses only what the payload does not hold: traces,
  structured answers but their JSON, and what an error is made of. The gate decides the same on the report read
  back, and a second round trip changes nothing more.\<close>

theorem report_file_roundtrip:
  assumes "files_ok fs" "writeEvalReportJSON fs path r w = (None, w')"
  shows "readEvalReportJSON fs path w' = Inr (payload_view r) \<and> payload_view (payload_view r) = payload_view r
    \<and> checkEvalThresholds fmt (payload_view r) t = checkEvalThresholds fmt r t"
proof -
  obtain d where d: "ef_Marshal fs (newEvalReportJSON r) = Inr d"
    using assms(2) by (cases "ef_Marshal fs (newEvalReportJSON r)") (auto simp: writeEvalReportJSON_def)
  obtain e1 w1 where m: "ef_MkdirAll fs (ef_Dir fs path) w = (e1, w1)" by (metis surj_pair)
  obtain e2 w2 where wr: "ef_Write fs path d w1 = (e2, w2)" by (metis surj_pair)
  have "e1 = None" "e2 = None" "w' = w2"
    using assms(2) d m wr by (auto simp: writeEvalReportJSON_def split: option.split_asm)
  then show ?thesis using assms(1) d wr
    by (simp add: files_ok_def readEvalReportJSON_def toReport_new payload_view_idem payload_view_gate)
qed

definition demo_report :: eval_report where
  "demo_report = \<lparr>rp_Summary = \<lparr>es_TotalCases = 1, es_PassedCases = 0, es_RetrievalRecall = 0, es_CitationPrecision = 0,
       es_Groundedness = 0, es_AnswerMatchRate = 0, es_RefusalAccuracy = 1\<rparr>,
     rp_Results = [(blank_result ''q'')\<lparr>er_Err := Some (wrap_err ''ask'' (errorf ''x'' []))\<rparr>],
     rp_StructuredSummary = \<lparr>ss_TotalCases = 0, ss_PassedCases = 0, ss_ValidRate = 0\<rparr>, rp_StructuredResults = []\<rparr>"

definition demo_eval_files :: "(string \<times> string) eval_files" where
  "demo_eval_files = \<lparr>ef_Marshal = \<lambda>j. if j = newEvalReportJSON demo_report then Inr ''{}'' else Inl (errorf ''unsupported'' []),
     ef_Unmarshal = \<lambda>_. Inr (newEvalReportJSON demo_report), ef_MkdirAll = \<lambda>_ w. (None, w),
     ef_Write = \<lambda>p d _. (None, (p, d)), ef_Read = \<lambda>p w. if p = fst w then Inr (snd w) else Inl (errorf ''no file'' []), ef_Dir = id\<rparr>"

theorem report_file_roundtrip_witness:
  "\<exists>w'. writeEvalReportJSON demo_eval_files ''r.json'' demo_report ('''', '''') = (None, w')
     \<and> readEvalReportJSON demo_eval_files ''r.json'' w' = Inr (payload_view demo_report)"
proof -
  have ok: "files_ok demo_eval_files" by (auto simp: files_ok_def demo_eval_files_def split: if_split_asm)
  have run: "writeEvalReportJSON demo_eval_files ''r.json'' demo_report ('''', '''') = (None, (''r.json'', ''{}''))"
    by (simp add: writeEvalReportJSON_def demo_eval_files_def)
  then show ?thesis using report_file_roundtrip [OF ok run] by auto
qed

text \<open>A report passes against a baseline exactly when none of its six rates is lower and it has no more
  failed cases (a baseline that counts fewer cases than passes sets no limit), so every report passes against
  itself.\<close>

theorem baseline_gate_is_no_regression:
  "(compareEvalReportWithBaseline fmt r b = None \<longleftrightarrow>
      (eval_failures b < 0 \<or> eval_failures r \<le> eval_failures b)
      \<and> es_RetrievalRecall (rp_Summary b) \<le> es_RetrievalRecall (rp_Summary r)
      \<and> es_CitationPrecision (rp_Summary b) \<le> es_CitationPrecision (rp_Summary r)
      \<and> es_Groundedness (rp_Summary b) \<le> es_Groundedness (rp_Summary r)
      \<and> es_AnswerMatchRate (rp_Summary b) \<le> es_AnswerMatchRate (rp_Summary r)
      \<and> ss_ValidRate (rp_StructuredSummary b) \<le> ss_ValidRate (rp_StructuredSummary r)
      \<and> es_RefusalAccuracy (rp_Summary b) \<le> es_RefusalAccuracy (rp_Summary r))
   \<and> compareEvalReportWithBaseline fmt r r = None"
  by (auto simp: compareEvalReportWithBaseline_def checkEvalThresholds_def first_failure_None below_def)

end
