(* ===== verification/ProviderChat.thy ===== *)
theory ProviderChat
  imports ToolRunner "HOL-Library.AList"
begin

section \<open>The adapter to the model providers\<close>

text \<open>
  \<^verbatim>\<open>internal/llm/provider_chat.go\<close> and \<^verbatim>\<open>openai_embedder.go\<close>: requests of the library in the form the
  provider module takes them, its answers in the form the library uses, and the loop that turns a
  stream of chunks into one message. The provider itself is third-party code and a parameter: what
  \<^verbatim>\<open>Chat\<close> answers, and the events a stream delivers one after the other up to \<^verbatim>\<open>io.EOF\<close>, the end of the
  list. The caller's \<^verbatim>\<open>emit\<close> acts on the same state as the provider.
\<close>

subsection \<open>The provider's types\<close>

datatype provider_role = ProviderSystem | ProviderUser | ProviderAssistant | ProviderTool

record provider_call =
  pc_ID :: string
  pc_Name :: string
  pc_Arguments :: string

record provider_message =
  pm_Role :: provider_role
  pm_Content :: "string list"
  pm_ToolCalls :: "provider_call list"
  pm_ToolCallID :: string

datatype provider_parameters = EmptyObjectSchema | ParameterSchema tool_schema

record provider_tool =
  pt_Name :: string
  pt_Description :: string
  pt_Parameters :: provider_parameters

datatype provider_format = JSONObjectFormat | JSONSchemaFormat string json_value

record provider_request =
  pq_Model :: string
  pq_Messages :: "provider_message list"
  pq_Tools :: "provider_tool list"
  pq_ResponseFormat :: "provider_format option"
  pq_Thinking :: "string option"

record provider_usage =
  ug_PromptTokens :: int
  ug_CompletionTokens :: int
  ug_ReasoningTokens :: int
  ug_TotalTokens :: int

record provider_response =
  ps_Content :: string
  ps_ToolCalls :: "provider_call list"
  ps_Usage :: provider_usage

record call_delta =
  dl_Index :: int
  dl_ID :: string
  dl_Name :: string
  dl_Arguments :: string

record stream_chunk =
  sk_Delta :: string
  sk_ToolCalls :: "call_delta list"
  sk_Usage :: provider_usage

text \<open>One answer of \<^verbatim>\<open>Recv\<close> before the end: a chunk, which may be nil, or an error other than \<^verbatim>\<open>io.EOF\<close>.\<close>

datatype stream_event = StreamChunk "stream_chunk option" | StreamError go_error

record ('s, 'w) provider =
  pr_Chat :: "provider_request \<Rightarrow> (provider_response option, 'w) action"
  pr_ChatStream :: "provider_request \<Rightarrow> ('s \<times> stream_event list, 'w) action"
  pr_Close :: "'s \<Rightarrow> 'w \<Rightarrow> 'w"

record ('s, 'w) provider_chat_model =
  cl_client :: "('s, 'w) provider"
  cl_model :: string

definition newProviderChatModel :: "('s, 'w) provider option \<Rightarrow> string \<Rightarrow> ('s, 'w) provider_chat_model result" where
  "newProviderChatModel client model = (case client of
     None \<Rightarrow> Inl (errorf ''chat provider is required'' [])
   | Some c \<Rightarrow> Inr \<lparr>cl_client = c, cl_model = trim_space model\<rparr>)"

subsection \<open>Requests\<close>

definition toProviderRole :: "role \<Rightarrow> provider_role" where
  "toProviderRole r = (case r of RoleSystem \<Rightarrow> ProviderSystem | RoleAssistant \<Rightarrow> ProviderAssistant
     | RoleTool \<Rightarrow> ProviderTool | RoleUser \<Rightarrow> ProviderUser | RoleNone \<Rightarrow> ProviderUser)"

definition toProviderToolCalls :: "tool_call list \<Rightarrow> provider_call list" where
  "toProviderToolCalls calls = map (\<lambda>c. \<lparr>pc_ID = tc_ID c, pc_Name = tc_Name c, pc_Arguments = tc_Arguments c\<rparr>) calls"

definition fromProviderToolCalls :: "provider_call list \<Rightarrow> tool_call list" where
  "fromProviderToolCalls calls = map (\<lambda>c. \<lparr>tc_ID = pc_ID c, tc_Name = pc_Name c, tc_Arguments = pc_Arguments c\<rparr>) calls"

definition toProviderMessages :: "message list \<Rightarrow> provider_message list" where
  "toProviderMessages input = map (\<lambda>m. \<lparr>pm_Role = toProviderRole (msg_Role m), pm_Content = [msg_Content m],
     pm_ToolCalls = toProviderToolCalls (msg_ToolCalls m), pm_ToolCallID = msg_ToolCallID m\<rparr>) input"

text \<open>A tool without a schema gets the empty object; every definition the library itself makes has one.\<close>

definition provider_parameters :: "tool_schema option \<Rightarrow> provider_parameters" where
  "provider_parameters p = (case p of None \<Rightarrow> EmptyObjectSchema | Some s \<Rightarrow> ParameterSchema s)"

definition toProviderTools :: "tool_definition list \<Rightarrow> provider_tool list" where
  "toProviderTools defs = map (\<lambda>d. \<lparr>pt_Name = td_Name d, pt_Description = td_Description d,
     pt_Parameters = provider_parameters (Some (td_Parameters d))\<rparr>) defs"

definition toProviderResponseFormat :: "response_format \<Rightarrow> provider_format result" where
  "toProviderResponseFormat f = (case rf_Type f of
     ResponseFormatJSONObject \<Rightarrow> Inr JSONObjectFormat
   | ResponseFormatJSONSchema \<Rightarrow> (case rf_Schema f of
        None \<Rightarrow> Inl (errorf ''json_schema response format requires a schema'' [])
      | Some s \<Rightarrow> Inr (JSONSchemaFormat (if blank (rf_Name f) then ''response'' else trim_space (rf_Name f)) s))
   | ResponseFormatOther t \<Rightarrow> Inl (errorf (''unsupported response format '' @ quoted t) []))"

definition chatRequest ::
  "('s, 'w) provider_chat_model option \<Rightarrow> message list \<Rightarrow> generate_options \<Rightarrow> provider_request result" where
  "chatRequest m input opts = (case m of
     None \<Rightarrow> Inl (errorf ''chat model provider is nil'' [])
   | Some m \<Rightarrow>
      (let req = \<lparr>pq_Model = cl_model m, pq_Messages = toProviderMessages input, pq_Tools = toProviderTools (go_Tools opts),
             pq_ResponseFormat = None,
             pq_Thinking = (let effort = trim_space (go_ReasoningEffort opts) in if effort = '''' then None else Some effort)\<rparr>
       in case go_ResponseFormat opts of
            None \<Rightarrow> Inr req
          | Some f \<Rightarrow> map_sum id (\<lambda>g. req\<lparr>pq_ResponseFormat := Some g\<rparr>) (toProviderResponseFormat f)))"

subsection \<open>Answers\<close>

definition no_usage :: provider_usage where
  "no_usage = \<lparr>ug_PromptTokens = 0, ug_CompletionTokens = 0, ug_ReasoningTokens = 0, ug_TotalTokens = 0\<rparr>"

definition usageGenerationInfo :: "provider_usage \<Rightarrow> generation_info" where
  "usageGenerationInfo u = (if u = no_usage then Map.empty
     else [''PromptTokens'' \<mapsto> AnyInt (ug_PromptTokens u), ''CompletionTokens'' \<mapsto> AnyInt (ug_CompletionTokens u),
           ''ReasoningTokens'' \<mapsto> AnyInt (ug_ReasoningTokens u), ''TotalTokens'' \<mapsto> AnyInt (ug_TotalTokens u)])"

definition assistant_message :: "string \<Rightarrow> tool_call list \<Rightarrow> message" where
  "assistant_message content calls =
     \<lparr>msg_Role = RoleAssistant, msg_Content = content, msg_ToolCalls = calls, msg_ToolCallID = ''''\<rparr>"

definition GenerateWithOptions ::
  "('s, 'w) provider_chat_model option \<Rightarrow> message list \<Rightarrow> generate_options \<Rightarrow> (chat_reply, 'w) action" where
  "GenerateWithOptions m input opts w = (case chatRequest m input opts of
     Inl e \<Rightarrow> (Inl e, w)
   | Inr req \<Rightarrow> (case pr_Chat (cl_client (the m)) req w of
        (Inl e, w) \<Rightarrow> (Inl (wrap_err ''generate content'' e), w)
      | (Inr None, w) \<Rightarrow> (Inl (errorf ''generate content returned no response'' []), w)
      | (Inr (Some resp), w) \<Rightarrow>
          (Inr (assistant_message (ps_Content resp) (fromProviderToolCalls (ps_ToolCalls resp)),
                usageGenerationInfo (ps_Usage resp)), w)))"

subsection \<open>The stream loop\<close>

text \<open>The map from indexes to the calls under construction is an association list.\<close>

record stream_state =
  ss_content :: string
  ss_usage :: provider_usage
  ss_calls :: "(int \<times> tool_call) list"

definition stream_start :: stream_state where
  "stream_start = \<lparr>ss_content = '''', ss_usage = no_usage, ss_calls = []\<rparr>"

definition new_call :: tool_call where
  "new_call = \<lparr>tc_ID = '''', tc_Name = '''', tc_Arguments = ''''\<rparr>"

definition extend_call :: "call_delta \<Rightarrow> tool_call \<Rightarrow> tool_call" where
  "extend_call d call =
     (let call = (if dl_ID d \<noteq> '''' then call\<lparr>tc_ID := dl_ID d\<rparr> else call);
          call = (if dl_Name d \<noteq> '''' then call\<lparr>tc_Name := dl_Name d\<rparr> else call)
      in call\<lparr>tc_Arguments := tc_Arguments call @ dl_Arguments d\<rparr>)"

definition add_delta :: "(int \<times> tool_call) list \<Rightarrow> call_delta \<Rightarrow> (int \<times> tool_call) list" where
  "add_delta calls d = AList.update (dl_Index d)
     (extend_call d (case map_of calls (dl_Index d) of Some c \<Rightarrow> c | None \<Rightarrow> new_call)) calls"

definition read_chunk :: "stream_chunk \<Rightarrow> stream_state \<Rightarrow> stream_state" where
  "read_chunk c s = \<lparr>ss_content = ss_content s @ sk_Delta c,
     ss_usage = (if sk_Usage c \<noteq> no_usage then sk_Usage c else ss_usage s),
     ss_calls = foldl add_delta (ss_calls s) (sk_ToolCalls c)\<rparr>"

primrec stream_loop ::
  "(string \<Rightarrow> 'w effect) \<Rightarrow> stream_event list \<Rightarrow> stream_state \<Rightarrow> (stream_state, 'w) action" where
  "stream_loop emit [] s w = (Inr s, w)"
| "stream_loop emit (ev # evs) s w = (case ev of
     StreamError e \<Rightarrow> (Inl (wrap_err ''stream content'' e), w)
   | StreamChunk None \<Rightarrow> stream_loop emit evs s w
   | StreamChunk (Some c) \<Rightarrow>
      (if sk_Delta c = '''' then stream_loop emit evs (read_chunk c s) w
       else (case emit (sk_Delta c) w of
          (Some e, w) \<Rightarrow> (Inl e, w)
        | (None, w) \<Rightarrow> stream_loop emit evs (read_chunk c s) w)))"

definition orderedToolCalls :: "(int \<times> tool_call) list \<Rightarrow> tool_call list" where
  "orderedToolCalls calls = map (\<lambda>i. the (map_of calls i)) (sort (map fst calls))"

definition stream_reply :: "stream_state \<Rightarrow> chat_reply" where
  "stream_reply s = (assistant_message (ss_content s) (orderedToolCalls (ss_calls s)), usageGenerationInfo (ss_usage s))"

definition StreamWithOptions ::
  "('s, 'w) provider_chat_model option \<Rightarrow> message list \<Rightarrow> generate_options \<Rightarrow> (string \<Rightarrow> 'w effect) option
   \<Rightarrow> (chat_reply, 'w) action" where
  "StreamWithOptions m input opts emit w = (case emit of
     None \<Rightarrow> (Inl (errorf ''stream emitter is required'' []), w)
   | Some emit \<Rightarrow> (case chatRequest m input opts of
        Inl e \<Rightarrow> (Inl e, w)
      | Inr req \<Rightarrow> (case pr_ChatStream (cl_client (the m)) req w of
           (Inl e, w) \<Rightarrow> (Inl (wrap_err ''stream content'' e), w)
         | (Inr (s, evs), w) \<Rightarrow> (case stream_loop emit evs stream_start w of
              (r, w) \<Rightarrow> (map_sum id stream_reply r, pr_Close (cl_client (the m)) s w)))))"

definition no_options :: generate_options where
  "no_options = \<lparr>go_Tools = [], go_ResponseFormat = None, go_ReasoningEffort = ''''\<rparr>"

definition provider_Generate :: "('s, 'w) provider_chat_model option \<Rightarrow> message list \<Rightarrow> (chat_reply, 'w) action" where
  "provider_Generate m input = GenerateWithOptions m input no_options"

definition provider_Stream ::
  "('s, 'w) provider_chat_model option \<Rightarrow> message list \<Rightarrow> (string \<Rightarrow> 'w effect) option \<Rightarrow> 'w effect" where
  "provider_Stream m input emit w = (case StreamWithOptions m input no_options emit w of
     (Inl e, w) \<Rightarrow> (Some e, w) | (Inr _, w) \<Rightarrow> (None, w))"

text \<open>The adapter as a chat model of the runners. A model that streams is a script of emissions there, so the
  loop is one that waits for the answer of each; closing the stream is not part of the script.\<close>

primrec stream_script_of :: "stream_event list \<Rightarrow> stream_state \<Rightarrow> chat_reply stream_script" where
  "stream_script_of [] s = StreamEnd (stream_reply s) None"
| "stream_script_of (ev # evs) s = (case ev of
     StreamError e \<Rightarrow> StreamEnd (assistant_message '''' [], Map.empty) (Some (wrap_err ''stream content'' e))
   | StreamChunk None \<Rightarrow> stream_script_of evs s
   | StreamChunk (Some c) \<Rightarrow>
      (if sk_Delta c = '''' then stream_script_of evs (read_chunk c s)
       else StreamEmit (sk_Delta c) (\<lambda>answer. case answer of
          Some e \<Rightarrow> StreamEnd (assistant_message '''' [], Map.empty) (Some e)
        | None \<Rightarrow> stream_script_of evs (read_chunk c s))))"

lemma script_plays_loop:
  "fst (fst (run_stream emit (stream_script_of evs s) chunks w)) =
     (case stream_loop emit evs s w of (Inl e, w') \<Rightarrow> ((assistant_message '''' [], Map.empty), Some e)
      | (Inr s', w') \<Rightarrow> (stream_reply s', None))
   \<and> snd (run_stream emit (stream_script_of evs s) chunks w) = snd (stream_loop emit evs s w)"
  by (induction evs arbitrary: s chunks w) (auto split: stream_event.splits option.splits prod.splits)

subsection \<open>What a stream delivers\<close>

text \<open>The reference: the chunks before the first error, the texts they show, and for each index of their
  tool call deltas, in increasing order, the last id and name given for it and all its arguments.\<close>

definition is_chunk :: "stream_event \<Rightarrow> bool" where
  "is_chunk ev = (case ev of StreamChunk _ \<Rightarrow> True | StreamError _ \<Rightarrow> False)"

definition delivered :: "stream_event list \<Rightarrow> stream_chunk list" where
  "delivered evs = List.map_filter (\<lambda>ev. case ev of StreamChunk c \<Rightarrow> c | StreamError _ \<Rightarrow> None)
     (takeWhile is_chunk evs)"

definition stream_failure :: "stream_event list \<Rightarrow> go_error option" where
  "stream_failure evs = (case dropWhile is_chunk evs of StreamError e # _ \<Rightarrow> Some e | _ \<Rightarrow> None)"

definition shown_texts :: "stream_chunk list \<Rightarrow> string list" where
  "shown_texts cs = filter (\<lambda>t. t \<noteq> '''') (map sk_Delta cs)"

primrec emit_all :: "(string \<Rightarrow> 'w effect) \<Rightarrow> string list \<Rightarrow> 'w effect" where
  "emit_all emit [] w = (None, w)"
| "emit_all emit (t # ts) w = effThen (emit t) (emit_all emit ts) w"

definition last_given :: "string list \<Rightarrow> string" where
  "last_given xs = (case filter (\<lambda>x. x \<noteq> '''') (rev xs) of [] \<Rightarrow> '''' | x # _ \<Rightarrow> x)"

definition merged_call :: "call_delta list \<Rightarrow> tool_call" where
  "merged_call ds = \<lparr>tc_ID = last_given (map dl_ID ds), tc_Name = last_given (map dl_Name ds),
     tc_Arguments = concat (map dl_Arguments ds)\<rparr>"

definition merged_calls :: "call_delta list \<Rightarrow> tool_call list" where
  "merged_calls ds = map (\<lambda>i. merged_call (filter (\<lambda>d. dl_Index d = i) ds)) (sorted_list_of_set (dl_Index ` set ds))"

definition last_usage :: "stream_chunk list \<Rightarrow> provider_usage" where
  "last_usage cs = (case filter (\<lambda>u. u \<noteq> no_usage) (rev (map sk_Usage cs)) of [] \<Rightarrow> no_usage | u # _ \<Rightarrow> u)"

definition merged_reply :: "stream_chunk list \<Rightarrow> chat_reply" where
  "merged_reply cs = (assistant_message (concat (shown_texts cs)) (merged_calls (concat (map sk_ToolCalls cs))),
     usageGenerationInfo (last_usage cs))"

lemma delivered_simps [simp]:
  "delivered [] = []" "delivered (StreamError e # evs) = []" "delivered (StreamChunk None # evs) = delivered evs"
  "delivered (StreamChunk (Some c) # evs) = c # delivered evs"
  by (simp_all add: delivered_def is_chunk_def List.map_filter_simps)

lemma stream_failure_simps [simp]:
  "stream_failure [] = None" "stream_failure (StreamError e # evs) = Some e"
  "stream_failure (StreamChunk c # evs) = stream_failure evs"
  by (simp_all add: stream_failure_def is_chunk_def)

lemma shown_texts_simps [simp]:
  "shown_texts [] = []" "shown_texts (c # cs) = (if sk_Delta c = '''' then shown_texts cs else sk_Delta c # shown_texts cs)"
  by (simp_all add: shown_texts_def)

lemma last_given_snoc [simp]: "last_given (xs @ [x]) = (if x \<noteq> '''' then x else last_given xs)"
  by (simp add: last_given_def)

lemma last_given_Nil [simp]: "last_given [] = ''''"
  by (simp add: last_given_def)

lemma stream_loop_reference:
  "stream_loop emit evs s w = (case emit_all emit (shown_texts (delivered evs)) w of
     (Some e, w') \<Rightarrow> (Inl e, w')
   | (None, w') \<Rightarrow> (case stream_failure evs of
        Some e \<Rightarrow> Inl (wrap_err ''stream content'' e)
      | None \<Rightarrow> Inr (foldl (\<lambda>s c. read_chunk c s) s (delivered evs)), w'))"
  by (induction evs arbitrary: s w)
     (auto simp: effThen_def split: stream_event.splits option.splits prod.splits)

lemma add_delta_keys:
  "fst ` set (foldl add_delta cs ds) = fst ` set cs \<union> dl_Index ` set ds"
  "distinct (map fst cs) \<Longrightarrow> distinct (map fst (foldl add_delta cs ds))"
  by (induction ds arbitrary: cs) (auto simp: add_delta_def dom_update distinct_update)

lemma merged_call_snoc: "merged_call (ds @ [d]) = extend_call d (merged_call ds)"
  by (simp add: merged_call_def extend_call_def Let_def)

lemma merged_call_Nil: "merged_call [] = new_call"
  by (simp add: merged_call_def new_call_def)

lemma add_delta_map:
  "map_of (foldl add_delta [] ds) i =
     (if i \<in> dl_Index ` set ds then Some (merged_call (filter (\<lambda>d. dl_Index d = i) ds)) else None)"
proof (induction ds rule: rev_induct)
  case (snoc d ds)
  then show ?case
    by (auto simp: add_delta_def update_conv' merged_call_snoc merged_call_Nil [symmetric] image_iff
        intro!: arg_cong [of _ _ "extend_call d"] arg_cong [of _ _ merged_call] sym [OF filter_False]) metis
qed simp

lemma ordered_is_merged: "orderedToolCalls (foldl add_delta [] ds) = merged_calls ds"
proof -
  have "sort (map fst (foldl add_delta [] ds)) = sorted_list_of_set (dl_Index ` set ds)"
    using add_delta_keys [of "[]" ds] by (simp add: sorted_list_of_set_sort_remdups [symmetric] distinct_remdups_id
        flip: image_set) (metis distinct_remdups_id list.set_map sorted_list_of_set_sort_remdups sup_bot_left)
  then show ?thesis by (auto simp: orderedToolCalls_def merged_calls_def add_delta_map)
qed

lemma read_chunks:
  "foldl (\<lambda>s c. read_chunk c s) s cs = \<lparr>ss_content = ss_content s @ concat (shown_texts cs),
     ss_usage = (case filter (\<lambda>u. u \<noteq> no_usage) (rev (map sk_Usage cs)) of [] \<Rightarrow> ss_usage s | u # _ \<Rightarrow> u),
     ss_calls = foldl add_delta (ss_calls s) (concat (map sk_ToolCalls cs))\<rparr>"
proof (induction cs rule: rev_induct)
  case (snoc c cs)
  have "shown_texts (cs @ [c]) = shown_texts cs @ (if sk_Delta c = '''' then [] else [sk_Delta c])"
    by (simp add: shown_texts_def)
  then show ?case using snoc by (simp add: read_chunk_def)
qed simp

lemma stream_reply_merged: "stream_reply (foldl (\<lambda>s c. read_chunk c s) stream_start cs) = merged_reply cs"
  by (simp add: read_chunks stream_reply_def merged_reply_def last_usage_def ordered_is_merged stream_start_def
      split: list.split)

text \<open>The token counts that the governor reads back are those of the provider.\<close>

lemma usage_read_back:
  "generationInfoUsage (usageGenerationInfo u) = \<lparr>us_PromptTokens = ug_PromptTokens u,
     us_CompletionTokens = ug_CompletionTokens u, us_TotalTokens = ug_TotalTokens u\<rparr>"
proof (cases "u = no_usage")
  case True
  then show ?thesis by (simp only: usageGenerationInfo_def if_True) (simp add: generationInfoUsage_def intFromAny_def no_usage_def)
qed (simp add: generationInfoUsage_def usageGenerationInfo_def intFromAny_def)

text \<open>The tool calls of a reply are the provider's, and go back to it as they came.\<close>

lemma provider_calls_roundtrip: "toProviderToolCalls (fromProviderToolCalls calls) = calls"
  by (induction calls) (simp_all add: toProviderToolCalls_def fromProviderToolCalls_def)

subsection \<open>Embeddings\<close>

primrec normalize_from :: "nat \<Rightarrow> string list \<Rightarrow> string list result" where
  "normalize_from i [] = Inr []"
| "normalize_from i (t # ts) =
     (if blank t then Inl (errorf (''embedding text at index '' @ itoa (int i) @ '' is blank'') [])
      else map_sum id (\<lambda>rest. trim_space t # rest) (normalize_from (Suc i) ts))"

definition normalizeEmbeddingTexts :: "string list \<Rightarrow> string list result" where
  "normalizeEmbeddingTexts texts = (if texts = [] then Inl (errorf ''embedding texts must not be empty'' [])
     else normalize_from 0 texts)"

text \<open>The batch call of the provider module is the parameter.\<close>

definition EmbedTexts :: "(string list \<Rightarrow> (embedding list, 'w) action) option \<Rightarrow> string list \<Rightarrow> (embedding list, 'w) action" where
  "EmbedTexts embedder texts w = (case normalizeEmbeddingTexts texts of
     Inl e \<Rightarrow> (Inl (wrap_err ''validate embedding input'' e), w)
   | Inr normalized \<Rightarrow> (case embedder of
        None \<Rightarrow> (Inl (errorf ''embedder provider is nil'' []), w)
      | Some batch \<Rightarrow> (case batch normalized w of
           (Inl e, w) \<Rightarrow> (Inl (wrap_err ''embed texts'' e), w)
         | (Inr rows, w) \<Rightarrow> (Inr rows, w))))"

lemma normalize_from_Inr: "normalize_from i texts = Inr out \<Longrightarrow> out = map trim_space texts \<and> (\<forall>t \<in> set texts. \<not> blank t)"
proof (induction texts arbitrary: i out)
  case (Cons t ts)
  then show ?case by (cases "normalize_from (Suc i) ts") (auto split: if_splits)
qed simp

text \<open>A batch goes to the provider only when no text of it is blank, trimmed and in its order.\<close>

lemma embedded_texts:
  assumes "normalizeEmbeddingTexts texts = Inr out"
  shows "out = map trim_space texts \<and> texts \<noteq> [] \<and> (\<forall>t \<in> set texts. \<not> blank t)"
  using assms normalize_from_Inr [of 0 texts out] by (auto simp: normalizeEmbeddingTexts_def split: if_splits)

subsection \<open>Constructors of the root package\<close>

definition config_error :: "go_error \<Rightarrow> go_error" where
  "config_error e = sentinel_first ''ragagent: invalid config'' ErrInvalidConfig (err_text e)"

definition newChatModelFromProvider :: "('s, 'w) provider option \<Rightarrow> string \<Rightarrow> ('s, 'w) provider_chat_model result" where
  "newChatModelFromProvider client model = map_sum config_error id (newProviderChatModel client model)"

definition newProviderEmbedder :: "'e option \<Rightarrow> 'e result" where
  "newProviderEmbedder client = (case client of None \<Rightarrow> Inl (errorf ''embedding provider is required'' []) | Some c \<Rightarrow> Inr c)"

definition newEmbedderFromProvider :: "'e option \<Rightarrow> 'e result" where
  "newEmbedderFromProvider client = map_sum config_error id (newProviderEmbedder client)"

subsection \<open>Property\<close>

text \<open>C39: The message a stream ends with is the merge of its chunks, however the provider cut them: what was
  emitted is the shown text in order, up to the first failing emit; the content is that text; each tool call
  has the last id and name given for its index and all its argument pieces, and the calls come by index; the
  usage is the last one reported. An emit error ends the stream with that error, an error of the stream with
  it wrapped, and in every case the stream is closed, after everything was emitted.\<close>

theorem stream_is_the_merge_of_its_chunks:
  assumes "chatRequest (Some m) input opts = Inr req"
    and "pr_ChatStream (cl_client m) req w = (Inr (s, evs), w1)"
    and "emit_all emit (shown_texts (delivered evs)) w1 = (failed, w2)"
  shows "StreamWithOptions (Some m) input opts (Some emit) w =
    (case failed of
       Some e \<Rightarrow> Inl e
     | None \<Rightarrow> (case stream_failure evs of
          Some e \<Rightarrow> Inl (wrap_err ''stream content'' e)
        | None \<Rightarrow> Inr (merged_reply (delivered evs))),
     pr_Close (cl_client m) s w2)"
  using assms by (simp add: StreamWithOptions_def stream_loop_reference stream_reply_merged split: option.splits)

text \<open>A stream of three chunks with two interleaved tool calls, over a world that logs what was emitted.\<close>

definition demo_deltas :: "stream_event list" where
  "demo_deltas =
    [StreamChunk (Some \<lparr>sk_Delta = ''a'', sk_ToolCalls = [\<lparr>dl_Index = 1, dl_ID = ''y'', dl_Name = ''g'', dl_Arguments = ''{''\<rparr>],
       sk_Usage = no_usage\<rparr>),
     StreamChunk None,
     StreamChunk (Some \<lparr>sk_Delta = '''', sk_ToolCalls = [\<lparr>dl_Index = 0, dl_ID = ''x'', dl_Name = ''f'', dl_Arguments = ''[]''\<rparr>,
       \<lparr>dl_Index = 1, dl_ID = '''', dl_Name = '''', dl_Arguments = ''}''\<rparr>], sk_Usage = no_usage\<rparr>),
     StreamChunk (Some \<lparr>sk_Delta = ''b'', sk_ToolCalls = [], sk_Usage = no_usage\<rparr>)]"

definition demo_provider :: "(unit, string list) provider" where
  "demo_provider = \<lparr>pr_Chat = (\<lambda>_ w. (Inr None, w)), pr_ChatStream = (\<lambda>_ w. (Inr ((), demo_deltas), w)),
     pr_Close = (\<lambda>_ w. w @ [''closed''])\<rparr>"

theorem stream_is_the_merge_of_its_chunks_witness:
  "StreamWithOptions (Some \<lparr>cl_client = demo_provider, cl_model = ''m''\<rparr>) [] no_options (Some (\<lambda>t w. (None, w @ [t]))) [] =
     (Inr (assistant_message ''ab'' [\<lparr>tc_ID = ''x'', tc_Name = ''f'', tc_Arguments = ''[]''\<rparr>,
        \<lparr>tc_ID = ''y'', tc_Name = ''g'', tc_Arguments = ''{}''\<rparr>], Map.empty), [''a'', ''b'', ''closed''])"
proof -
  let ?m = "\<lparr>cl_client = demo_provider, cl_model = ''m''\<rparr>"
  obtain req where req: "chatRequest (Some ?m) [] no_options = Inr req" by (simp add: chatRequest_def no_options_def)
  have reply: "merged_reply (delivered demo_deltas) = (assistant_message ''ab'' [\<lparr>tc_ID = ''x'', tc_Name = ''f'', tc_Arguments = ''[]''\<rparr>,
        \<lparr>tc_ID = ''y'', tc_Name = ''g'', tc_Arguments = ''{}''\<rparr>], Map.empty)"
  proof -
    have "merged_calls (concat (map sk_ToolCalls (delivered demo_deltas))) =
        [\<lparr>tc_ID = ''x'', tc_Name = ''f'', tc_Arguments = ''[]''\<rparr>, \<lparr>tc_ID = ''y'', tc_Name = ''g'', tc_Arguments = ''{}''\<rparr>]"
      by code_simp
    then show ?thesis
      by (simp add: merged_reply_def) (simp add: demo_deltas_def last_usage_def usageGenerationInfo_def)
  qed
  show ?thesis
    using stream_is_the_merge_of_its_chunks [OF req, of "[]" "()" demo_deltas "[]" "\<lambda>t w. (None, w @ [t])" None "[''a'', ''b'']"] reply
    by (simp add: demo_provider_def effThen_def) (simp add: demo_deltas_def effThen_def)
qed

end
