(* ===== verification/HttpClients.thy ===== *)
theory HttpClients
  imports Retriever Tools Config
begin

section \<open>The HTTP clients: reranker, MCP tool and web search\<close>

text \<open>
  \<^verbatim>\<open>openai_reranker.go\<close>, \<^verbatim>\<open>mcp_tool.go\<close> and \<^verbatim>\<open>internal/websearch/tavily.go\<close>. The HTTP module is a
  parameter: what \<^verbatim>\<open>RequestJSON\<close> answers to a method, an address, headers and a body, which is an
  error or a status with the decoded response. The reranker is interpreted as a provider of the contract
  \<open>reranking\<close> that hybrid retrieval relies on, so retrieval with it has the guarantees of retrieval with
  the rule-based one.
\<close>

type_synonym ('q, 'a, 'w) http =
  "string \<Rightarrow> string \<Rightarrow> (string \<times> string) list \<Rightarrow> 'q \<Rightarrow> (int \<times> 'a, 'w) action"

definition bad_status :: "int \<Rightarrow> bool" where
  "bad_status s \<longleftrightarrow> s < 200 \<or> 300 \<le> s"

subsection \<open>The OpenAI-compatible reranker\<close>

record reranker_config =
  rk_BaseURL :: string
  rk_APIKey :: string
  rk_Model :: string

record rerank_request =
  rq_rerankModel :: string
  rq_rerankQuery :: string
  rq_Documents :: "string list"

text \<open>The results of a response: indexes of documents and their scores.\<close>

type_synonym rerank_results = "(int \<times> real) list"
type_synonym 'w rerank_http = "(rerank_request, rerank_results, 'w) http"

definition newOpenAIReranker :: "'w rerank_http option \<Rightarrow> reranker_config \<Rightarrow> ('w rerank_http \<times> reranker_config) result" where
  "newOpenAIReranker http cfg =
     (let cfg = \<lparr>rk_BaseURL = trim_space (rk_BaseURL cfg), rk_APIKey = trim_space (rk_APIKey cfg), rk_Model = trim_space (rk_Model cfg)\<rparr>
      in case http of
           None \<Rightarrow> Inl (config_invalid ''openai reranker http client is required'')
         | Some h \<Rightarrow>
            (if rk_BaseURL cfg = '''' then Inl (config_invalid ''openai reranker base url is required'')
             else if rk_APIKey cfg = '''' then Inl (config_invalid ''openai reranker api key is required'')
             else Inr (h, cfg)))"

text \<open>The loop over the results; \<open>seen\<close> are the indexes already taken.\<close>

fun pick_results ::
  "search_hit list \<Rightarrow> nat \<Rightarrow> nat \<Rightarrow> rerank_results \<Rightarrow> int list \<Rightarrow> search_hit list \<Rightarrow> search_hit list result" where
  "pick_results cands len limit [] seen out = Inr out"
| "pick_results cands len limit ((i, score) # rs) seen out =
     (if length out = limit then Inr out
      else if i < 0 \<or> i \<ge> int len
        then Inl (errorf (''invalid rerank index '' @ itoa i @ '' for '' @ itoa (int len) @ '' candidates'') [])
      else if i \<in> set seen then pick_results cands len limit rs seen out
      else pick_results cands len limit rs (i # seen) (out @ [(cands ! nat i)\<lparr>hit_Score := score\<rparr>]))"

definition openai_Rerank ::
  "'w rerank_http \<times> reranker_config \<Rightarrow> string \<Rightarrow> search_hit list \<Rightarrow> int \<Rightarrow> int \<Rightarrow> (search_hit list, 'w) action" where
  "openai_Rerank r query candidates shortlistSize topK w = (case r of (http, cfg) \<Rightarrow>
     (if blank query then (Inl (errorf ''rerank query is required'' []), w)
      else if shortlistSize \<le> 0 \<or> candidates = [] \<or> topK \<le> 0 then (Inr [], w)
      else let len = nat (min shortlistSize (int (length candidates)));
               documents = map (\<lambda>h. cr_Text (hit_Chunk h)) (take len candidates)
           in case http ''POST'' (rk_BaseURL cfg) [(''Authorization'', ''Bearer '' @ rk_APIKey cfg)]
                  \<lparr>rq_rerankModel = rk_Model cfg, rq_rerankQuery = query, rq_Documents = documents\<rparr> w of
                (Inl e, w) \<Rightarrow> (Inl (wrap_err ''request openai reranker'' e), w)
              | (Inr (status, results), w) \<Rightarrow>
                  (if bad_status status then Inl (errorf (''openai reranker unexpected status '' @ itoa status) [])
                   else pick_results candidates len (nat (min topK (int (length results)))) results [] [], w)))"

text \<open>The reranker as the retriever takes it, in a state in which it is asked.\<close>

definition openai_reranker :: "'w rerank_http \<times> reranker_config \<Rightarrow> 'w \<Rightarrow> reranker" where
  "openai_reranker r w query candidates shortlistSize topK =
     Returned (fst (openai_Rerank r query candidates shortlistSize topK w))"

subsection \<open>What the reranker returns\<close>

text \<open>The first result of each index, and the candidate a result stands for.\<close>

fun first_of_each :: "rerank_results \<Rightarrow> rerank_results" where
  "first_of_each [] = []"
| "first_of_each ((i, score) # rs) = (i, score) # filter (\<lambda>r. fst r \<noteq> i) (first_of_each rs)"

definition rescored :: "search_hit list \<Rightarrow> int \<times> real \<Rightarrow> search_hit" where
  "rescored cands r = (cands ! nat (fst r))\<lparr>hit_Score := snd r\<rparr>"

lemma first_of_each_set: "fst ` set (first_of_each rs) = fst ` set rs" "set (first_of_each rs) \<subseteq> set rs"
  by (induction rs rule: first_of_each.induct) (auto simp: image_iff)

lemma first_of_each_distinct: "distinct (map fst (first_of_each rs))"
  by (induction rs rule: first_of_each.induct) (auto simp: distinct_map_filter)

lemma pick_results_Inr:
  assumes "pick_results cands len limit rs seen out = Inr hits" "length out \<le> limit"
  shows "hits = out @ map (rescored cands) (take (limit - length out) (filter (\<lambda>r. fst r \<notin> set seen) (first_of_each rs)))
    \<and> (\<forall>r \<in> set (take (limit - length out) (filter (\<lambda>r. fst r \<notin> set seen) (first_of_each rs))). 0 \<le> fst r \<and> fst r < int len)"
  using assms
proof (induction cands len limit rs seen out rule: pick_results.induct)
  case (2 cands len limit i score rs seen out)
  show ?case
  proof (cases "length out = limit")
    case False
    with 2(3,4) have n: "limit - length out = Suc (limit - Suc (length out))" and ok: "0 \<le> i" "i < int len"
      by (auto split: if_splits)
    have f: "filter (\<lambda>r. fst r \<notin> set seen) (filter (\<lambda>r. fst r \<noteq> i) xs) = filter (\<lambda>r. fst r \<notin> set (i # seen)) xs" for xs :: rerank_results
      by (simp add: conj_commute)
    show ?thesis
    proof (cases "i \<in> set seen")
      case True
      then have "filter (\<lambda>r. fst r \<notin> set seen) (filter (\<lambda>r. fst r \<noteq> i) (first_of_each rs)) = filter (\<lambda>r. fst r \<notin> set seen) (first_of_each rs)"
        unfolding f by (intro filter_cong) auto
      then show ?thesis using 2 False ok True by simp
    next
      case new: False
      with False ok have "\<not> (i < 0 \<or> i \<ge> int len)" by simp
      from 2(2) [OF False this new] 2(3,4) False new ok show ?thesis
        by (simp add: f n rescored_def del: set_simps) auto
    qed
  qed (use 2 in simp)
qed simp

lemma openai_Rerank_hits:
  assumes "openai_Rerank (http, cfg) query cands s n w = (Inr hits, w')" "hits \<noteq> []"
  obtains results where "hits = map (rescored cands) (take (nat n) (first_of_each results))" "0 < n"
    "\<forall>r \<in> set (take (nat n) (first_of_each results)). 0 \<le> fst r \<and> nat (fst r) < length cands"
proof -
  let ?len = "nat (min s (int (length cands)))"
  from assms obtain results where n: "0 < n" and p: "pick_results cands ?len (nat (min n (int (length results)))) results [] [] = Inr hits"
    by (auto simp: openai_Rerank_def Let_def split: if_splits prod.splits sum.splits)
  have "length (first_of_each results) \<le> length results"
    by (induction results rule: first_of_each.induct) (auto intro: le_trans [OF length_filter_le])
  then have t: "take (nat (min n (int (length results)))) (first_of_each results) = take (nat n) (first_of_each results)"
    using n by (cases "n \<le> int (length results)") (simp_all add: min_def)
  from pick_results_Inr [OF p] have h: "hits = map (rescored cands) (take (nat n) (first_of_each results))"
    and i: "\<forall>r \<in> set (take (nat n) (first_of_each results)). 0 \<le> fst r \<and> fst r < int ?len"
    by (simp_all add: t)
  show ?thesis
  proof (rule that [OF h n], rule ballI)
    fix r assume "r \<in> set (take (nat n) (first_of_each results))"
    with i have "0 \<le> fst r \<and> fst r < int ?len" by blast
    then show "0 \<le> fst r \<and> nat (fst r) < length cands" by linarith
  qed
qed

lemma hit_id_rescored [simp]: "hit_id (rescored cands r) = hit_id (cands ! nat (fst r))"
  by (simp add: rescored_def hit_id_def)

lemma openai_reranking: "reranking (Some (openai_reranker (http, cfg) w))"
proof -
  have "chunks_of hs \<subseteq> chunks_of cs \<and> (0 < n \<longrightarrow> int (length hs) \<le> n)
    \<and> (distinct (map hit_id cs) \<longrightarrow> distinct (map hit_id hs))"
    if r: "safeRerank (Some (openai_reranker (http, cfg) w)) query cs s n = Inr hs" for query cs s n hs
  proof (cases "hs = []")
    case False
    obtain w' where run: "openai_Rerank (http, cfg) query cs s n w = (Inr hs, w')"
      using r by (cases "openai_Rerank (http, cfg) query cs s n w") (auto simp: safeRerank_def recovering_def openai_reranker_def)
    from openai_Rerank_hits [OF run False] obtain results where
      h: "hs = map (rescored cs) (take (nat n) (first_of_each results))" and
      i: "\<forall>r \<in> set (take (nat n) (first_of_each results)). 0 \<le> fst r \<and> nat (fst r) < length cs" by metis
    let ?rs = "take (nat n) (first_of_each results)"
    have "distinct (map fst ?rs)" using first_of_each_distinct [of results] by (simp flip: take_map)
    then have "distinct (map (\<lambda>r. hit_id (cs ! nat (fst r))) ?rs)" if d: "distinct (map hit_id cs)"
      using i nth_eq_iff_index_eq [OF d] by (auto simp: distinct_map inj_on_def) (metis eq_nat_nat_iff fst_conv snd_conv)+
    then show ?thesis using h i by (auto simp: chunks_of_def rescored_def comp_def)
  qed (simp add: chunks_of_def)
  then show ?thesis by unfold_locales blast+
qed

interpretation openai: reranking "Some (openai_reranker (http, cfg) w)" for http cfg w
  by (rule openai_reranking)

text \<open>So retrieval with the reranker of an endpoint stays in its filter and its bound, whatever the endpoint answers.\<close>

lemma retrieval_with_endpoint:
  assumes "chromem_ok col docs sim"
    and "rr_search r = (\<lambda>q n t f. chromem_SearchWithFilter col ks q n t f c)"
    and "rr_reranker r = Some (openai_reranker (http, cfg) w)" and "0 < rr_topK r"
    and "default_SearchDetailed r query f = (hits, m, fbs, e)"
  shows "good (chromem_admits docs ks c) r f hits"
  by (rule reranked_hits_good [OF assms(1,2) _ assms(4,5)]) (simp add: assms(3) openai_reranking)

lemma pick_results_valid:
  "\<forall>r \<in> set rs. 0 \<le> fst r \<and> fst r < int len \<Longrightarrow> \<exists>hits. pick_results cands len limit rs seen out = Inr hits"
  by (induction cands len limit rs seen out rule: pick_results.induct) auto

definition rerank_call :: "reranker_config \<Rightarrow> string \<Rightarrow> search_hit list \<Rightarrow> int \<Rightarrow> rerank_request" where
  "rerank_call cfg query cands s = \<lparr>rq_rerankModel = rk_Model cfg, rq_rerankQuery = query,
     rq_Documents = map (\<lambda>h. cr_Text (hit_Chunk h)) (take (nat s) cands)\<rparr>"

text \<open>C40: The reranker of an OpenAI-compatible endpoint sends the texts of the shortlist and returns the
  candidates in the order of the response: for each index its first result with the score given there, at
  most topK of them, and no candidate twice however often the response names it.\<close>

theorem endpoint_rerank_follows_response:
  assumes "\<not> blank query" "0 < s" "0 < n" "cands \<noteq> []"
    and "http ''POST'' (rk_BaseURL cfg) [(''Authorization'', ''Bearer '' @ rk_APIKey cfg)] (rerank_call cfg query cands s) w
      = (Inr (status, results), w')"
    and "200 \<le> status" "status < 300"
    and valid: "\<forall>r \<in> set results. 0 \<le> fst r \<and> fst r < min s (int (length cands))"
  shows "openai_Rerank (http, cfg) query cands s n w =
      (Inr (map (rescored cands) (take (nat n) (first_of_each results))), w')
    \<and> distinct (map fst (take (nat n) (first_of_each results)))"
proof -
  let ?len = "nat (min s (int (length cands)))"
  have docs: "take ?len cands = take (nat s) cands" using assms(2) by (cases "s \<le> int (length cands)") (simp_all add: min_def)
  from valid have "\<forall>r \<in> set results. 0 \<le> fst r \<and> fst r < int ?len" using assms(2) by auto
  from pick_results_valid [OF this] obtain hits where
    p: "pick_results cands ?len (nat (min n (int (length results)))) results [] [] = Inr hits" by metis
  have run: "openai_Rerank (http, cfg) query cands s n w = (Inr hits, w')"
    using assms(1-7) p docs by (simp add: openai_Rerank_def rerank_call_def bad_status_def)
  have "length (first_of_each results) \<le> length results"
    by (induction results rule: first_of_each.induct) (auto intro: le_trans [OF length_filter_le])
  then have "hits = map (rescored cands) (take (nat n) (first_of_each results))"
    using pick_results_Inr [OF p] assms(3) by (cases "n \<le> int (length results)") (simp_all add: min_def)
  then show ?thesis using run first_of_each_distinct [of results] by (simp flip: take_map)
qed

definition demo_hit :: "string \<Rightarrow> search_hit" where
  "demo_hit i = \<lparr>hit_Chunk = demo_record i i i, hit_Score = 0\<rparr>"

theorem endpoint_rerank_follows_response_witness:
  "openai_Rerank (\<lambda>_ _ _ _ (w :: nat). (Inr (200, [(1, 5), (1, 4), (0, 3)]), w + 1), \<lparr>rk_BaseURL = ''u'', rk_APIKey = ''k'', rk_Model = ''m''\<rparr>)
     ''q'' [demo_hit ''a'', demo_hit ''b''] 2 2 0
   = (Inr [(demo_hit ''b'')\<lparr>hit_Score := 5\<rparr>, (demo_hit ''a'')\<lparr>hit_Score := 3\<rparr>], 1)"
proof -
  have b: "\<not> blank ''q''" by code_simp
  show ?thesis
    using endpoint_rerank_follows_response [of "''q''" 2 2 "[demo_hit ''a'', demo_hit ''b'']" "\<lambda>_ _ _ _ w. (Inr (200, [(1, 5), (1, 4), (0, 3)]), w + 1)"
        "\<lparr>rk_BaseURL = ''u'', rk_APIKey = ''k'', rk_Model = ''m''\<rparr>" "0 :: nat" 200 "[(1, 5), (1, 4), (0, 3)]" 1] b
    by (simp add: rescored_def)
qed

subsection \<open>The MCP tool\<close>

record mcp_config =
  mc_Name :: string
  mc_Description :: string
  mc_Endpoint :: string
  mc_Method :: string
  mc_ToolName :: string

text \<open>\<open>mq_Arguments\<close> is \<open>None\<close> for the nil map that the input \<^verbatim>\<open>null\<close> decodes to.\<close>

record mcp_request =
  mq_JSONRPC :: string
  mq_ID :: int
  mq_Method :: string
  mq_Name :: string
  mq_Arguments :: "arguments option"

record mcp_response =
  mr_Content :: "(string \<times> string) list"
  mr_Text :: string
  mr_Error :: "(int \<times> string) option"

type_synonym 'w mcp_http = "(mcp_request, mcp_response, 'w) http"

definition mcp_normalized :: "mcp_config \<Rightarrow> mcp_config" where
  "mcp_normalized cfg = (let name = trim_space (mc_Name cfg) in
     \<lparr>mc_Name = name, mc_Description = trim_space (mc_Description cfg), mc_Endpoint = trim_space (mc_Endpoint cfg),
      mc_Method = (let m = trim_space (mc_Method cfg) in if m = '''' then ''tools/call'' else m),
      mc_ToolName = (let t = trim_space (mc_ToolName cfg) in if t = '''' then name else t)\<rparr>)"

definition mcp_arguments :: "json_codec \<Rightarrow> string \<Rightarrow> arguments option" where
  "mcp_arguments js input = (if blank input then Some []
     else case jc_Decode js input of Inl _ \<Rightarrow> Some [(''input'', AString input)] | Inr args \<Rightarrow> args)"

definition mcp_text :: "mcp_response \<Rightarrow> string" where
  "mcp_text r = (if \<not> blank (mr_Text r) then mr_Text r
     else join_with NL (filter (\<lambda>t. \<not> blank t) (map snd (mr_Content r))))"

text \<open>A run acts on the sequence number of the tool, a 64-bit counter, and on the outside world.\<close>

definition mcp_Run :: "json_codec \<Rightarrow> 'w mcp_http \<Rightarrow> mcp_config \<Rightarrow> string \<Rightarrow> int \<times> 'w \<Rightarrow> (string \<times> go_error option) \<times> (int \<times> 'w)" where
  "mcp_Run js http cfg input st = (case st of (seq, w) \<Rightarrow>
     (let seq = wrap64 (seq + 1); what = ''run mcp tool '' @ mc_Name cfg in
      case http ''POST'' (mc_Endpoint cfg) [] \<lparr>mq_JSONRPC = ''2.0'', mq_ID = seq, mq_Method = mc_Method cfg,
             mq_Name = mc_ToolName cfg, mq_Arguments = mcp_arguments js input\<rparr> w of
        (Inl e, w) \<Rightarrow> (('''', Some (wrap_err what e)), (seq, w))
      | (Inr (status, response), w) \<Rightarrow>
          ((if bad_status status then ('''', Some (errorf (what @ '': unexpected status '' @ itoa status) []))
            else case mr_Error response of
              Some (code, t) \<Rightarrow> ('''', Some (errorf (what @ '': rpc error '' @ itoa code @ '': '' @ t) []))
            | None \<Rightarrow> (mcp_text response, None)), (seq, w))))"

definition newMCPTool :: "json_codec \<Rightarrow> 'w mcp_http option \<Rightarrow> mcp_config \<Rightarrow> (int \<times> 'w) tool result" where
  "newMCPTool js http cfg0 = (let cfg = mcp_normalized cfg0 in
     case http of
       None \<Rightarrow> Inl (config_invalid ''mcp tool http client is required'')
     | Some h \<Rightarrow>
        (if mc_Name cfg = '''' then Inl (config_invalid ''mcp tool name is required'')
         else if mc_Endpoint cfg = '''' then Inl (config_invalid ''mcp tool endpoint is required'')
         else Inr \<lparr>tl_Name = mc_Name cfg, tl_Description = mc_Description cfg, tl_Structured = None, tl_Run = mcp_Run js h cfg\<rparr>))"

text \<open>The tool shows no schema, so the tool runner gives it the plain one, and its requests carry the
  numbers that follow the last one sent, failed or not.\<close>

lemma mcp_run_counts: "fst (snd (mcp_Run js http cfg input (seq, w))) = wrap64 (seq + 1)"
  by (simp add: mcp_Run_def Let_def split: prod.split sum.split)

lemma mcp_ids_follow:
  assumes "0 \<le> seq" "seq + int (length inputs) < 2 ^ 63"
  shows "fst (fold (\<lambda>input st. snd (mcp_Run js http cfg input st)) inputs (seq, w)) = seq + int (length inputs)"
  using assms
proof (induction inputs arbitrary: seq w)
  case (Cons input inputs)
  obtain w' where "snd (mcp_Run js http cfg input (seq, w)) = (wrap64 (seq + 1), w')"
    using mcp_run_counts [of js http cfg input seq w] by (metis prod.collapse)
  moreover have "wrap64 (seq + 1) = seq + 1" using Cons.prems by (simp add: wrap64_def)
  ultimately show ?case using Cons.IH [of "seq + 1" w'] Cons.prems by simp
qed simp

subsection \<open>The Tavily search client\<close>

record tavily_config =
  tv_BaseURL :: string
  tv_APIKey :: string
  tv_MaxResults :: int
  tv_SearchDepth :: string
  tv_Topic :: string

record tavily_request =
  tr_Query :: string
  tr_SearchDepth :: string
  tr_Topic :: string
  tr_MaxResults :: int

type_synonym 'w tavily_http = "(tavily_request, web_result list, 'w) http"

definition tavily_Search :: "'w tavily_http option \<Rightarrow> tavily_config \<Rightarrow> string \<Rightarrow> (web_result list, 'w) action" where
  "tavily_Search client cfg query w = (case client of
     None \<Rightarrow> (Inl (errorf ''tavily http client is required'' []), w)
   | Some http \<Rightarrow>
      (if blank query then (Inl (errorf ''query is required'' []), w)
       else case http ''POST'' (tv_BaseURL cfg) [(''Authorization'', ''Bearer '' @ tv_APIKey cfg)]
              \<lparr>tr_Query = trim_space query, tr_SearchDepth = tv_SearchDepth cfg, tr_Topic = tv_Topic cfg, tr_MaxResults = tv_MaxResults cfg\<rparr> w of
            (Inl e, w) \<Rightarrow> (Inl (wrap_err ''request tavily search'' e), w)
          | (Inr (status, results), w) \<Rightarrow>
              (if bad_status status then Inl (errorf (''tavily search unexpected status '' @ itoa status) []) else Inr results, w)))"

text \<open>The search of an agent: the client behind the resilient wrapper of the provider \<^verbatim>\<open>tavily\<close>.\<close>

definition newWebSearcher ::
  "'w tavily_http \<Rightarrow> ('e, 's, 'r, 'w) config \<Rightarrow> ((string \<Rightarrow> (web_result list, 'w) action) \<times> resilient_config) option" where
  "newWebSearcher http cfg = (if \<not> cf_EnableWebSearch cfg then None
     else let c = ws_normalized (cf_WebSearch cfg) in
       newResilient (Some (tavily_Search (Some http)
           \<lparr>tv_BaseURL = ws_BaseURL c, tv_APIKey = ws_APIKey c, tv_MaxResults = ws_MaxResults c,
            tv_SearchDepth = ws_SearchDepth c, tv_Topic = ws_Topic c\<rparr>))
         (cf_ProviderGovernance cfg) ''tavily'' '''')"

end
