(* ===== verification/LiveValidation.thy ===== *)
theory LiveValidation
  imports Config
begin

section \<open>Live provider validation\<close>

text \<open>
  \<^verbatim>\<open>production_validation.go\<close>: the settings of a live check, read from the environment, and the check
  itself. The environment is a function from names to values, the chat model and the embedder are actions.
  A configuration comes out only when the switch is on and it passes the validation of the providers;
  otherwise the reason to skip does.
\<close>

subsection \<open>The configuration from the environment\<close>

type_synonym environment = "string \<Rightarrow> string"

record live_provider_config =
  lp_Chat :: provider_config
  lp_Embedding :: provider_config

definition second :: duration where
  "second = 1000000000"

definition liveProviderTimeoutFromEnv :: "environment \<Rightarrow> string + duration" where
  "liveProviderTimeoutFromEnv getenv = (let raw = trim_space (getenv ''RAGAGENT_REQUEST_TIMEOUT_SEC'') in
     if raw = '''' then Inr (30 * second)
     else case atoi raw of
       None \<Rightarrow> Inl ''RAGAGENT_REQUEST_TIMEOUT_SEC must be a positive integer''
     | Some secs \<Rightarrow>
        (if secs \<le> 0 then Inl ''RAGAGENT_REQUEST_TIMEOUT_SEC must be a positive integer''
         else Inr (wrap64 (secs * second))))"

definition missing_names :: "provider_config \<Rightarrow> provider_config \<Rightarrow> string list" where
  "missing_names chat embedding =
     (if pv_Model chat = '''' then [''RAGAGENT_CHAT_MODEL''] else [])
     @ (if pv_BaseURL chat = '''' then [''RAGAGENT_CHAT_BASE_URL''] else [])
     @ (if pv_APIKey chat = '''' then [''RAGAGENT_CHAT_API_KEY''] else [])
     @ (if pv_Model embedding = '''' then [''RAGAGENT_EMBEDDING_MODEL''] else [])
     @ (if pv_BaseURL embedding = '''' then [''RAGAGENT_EMBEDDING_BASE_URL or RAGAGENT_CHAT_BASE_URL''] else [])
     @ (if pv_APIKey embedding = '''' then [''RAGAGENT_EMBEDDING_API_KEY or RAGAGENT_CHAT_API_KEY''] else [])"

definition missingLiveProviderEnvReason :: "provider_config \<Rightarrow> provider_config \<Rightarrow> string" where
  "missingLiveProviderEnvReason chat embedding = (let missing = missing_names chat embedding in
     if missing = [] then '''' else ''missing required live provider env: '' @ join_with '', '' missing)"

definition live_chat :: "environment \<Rightarrow> duration \<Rightarrow> provider_config" where
  "live_chat getenv timeout = \<lparr>pv_Model = trim_space (getenv ''RAGAGENT_CHAT_MODEL''),
     pv_BaseURL = trim_space (getenv ''RAGAGENT_CHAT_BASE_URL''),
     pv_APIKey = trim_space (getenv ''RAGAGENT_CHAT_API_KEY''), pv_Timeout = timeout\<rparr>"

definition live_embedding :: "environment \<Rightarrow> duration \<Rightarrow> provider_config" where
  "live_embedding getenv timeout = (let chat = live_chat getenv timeout;
       url = trim_space (getenv ''RAGAGENT_EMBEDDING_BASE_URL''); key = trim_space (getenv ''RAGAGENT_EMBEDDING_API_KEY'') in
     \<lparr>pv_Model = trim_space (getenv ''RAGAGENT_EMBEDDING_MODEL''),
      pv_BaseURL = (if url = '''' then pv_BaseURL chat else url),
      pv_APIKey = (if key = '''' then pv_APIKey chat else key), pv_Timeout = timeout\<rparr>)"

definition liveProviderConfigFromEnv :: "url_parser \<Rightarrow> environment option \<Rightarrow> string + live_provider_config" where
  "liveProviderConfigFromEnv url env = (let getenv = (case env of None \<Rightarrow> (\<lambda>_. '''') | Some f \<Rightarrow> f) in
     if trim_space (getenv ''RAGAGENT_INTEGRATION_LIVE'') \<noteq> ''1''
     then Inl ''RAGAGENT_INTEGRATION_LIVE=1 is required to run live provider validation''
     else case liveProviderTimeoutFromEnv getenv of
       Inl reason \<Rightarrow> Inl reason
     | Inr timeout \<Rightarrow>
        (let chat = live_chat getenv timeout; embedding = live_embedding getenv timeout;
             reason = missingLiveProviderEnvReason chat embedding in
         if reason \<noteq> '''' then Inl reason
         else case pv_Validate url ''chat'' chat of
           Some e \<Rightarrow> Inl (''invalid chat provider config: '' @ err_text e)
         | None \<Rightarrow> (case pv_Validate url ''embedding'' embedding of
             Some e \<Rightarrow> Inl (''invalid embedding provider config: '' @ err_text e)
           | None \<Rightarrow> Inr \<lparr>lp_Chat = chat, lp_Embedding = embedding\<rparr>)))"

lemma live_config_is_valid:
  assumes "liveProviderConfigFromEnv url (Some getenv) = Inr c"
  shows "trim_space (getenv ''RAGAGENT_INTEGRATION_LIVE'') = ''1'' \<and> pv_Validate url ''chat'' (lp_Chat c) = None
    \<and> pv_Validate url ''embedding'' (lp_Embedding c) = None \<and> pv_Timeout (lp_Chat c) = pv_Timeout (lp_Embedding c)
    \<and> missing_names (lp_Chat c) (lp_Embedding c) = []"
  using assms
  by (auto simp: liveProviderConfigFromEnv_def missingLiveProviderEnvReason_def Let_def live_chat_def live_embedding_def
      split: if_splits sum.splits option.splits)

text \<open>The number of seconds is multiplied in 64 bits: 18446744074 seconds pass as a third of one.\<close>

lemma live_timeout_overflows:
  "liveProviderTimeoutFromEnv (\<lambda>_. ''18446744074'') = Inr 290448384"
proof -
  have t: "trim_space ''18446744074'' = ''18446744074''" by code_simp
  have "unsigned_val ''18446744074'' = Some 18446744074" by (simp add: unsigned_val_def digit_val_def code_of_def)
  then have a: "atoi ''18446744074'' = Some 18446744074" by (simp add: atoi_def in_int64_def int64_range_def)
  show ?thesis by (simp add: liveProviderTimeoutFromEnv_def t a wrap64_def second_def)
qed

subsection \<open>The check\<close>

definition validateLiveProvider ::
  "(message list \<Rightarrow> (message, 'w) action) option \<Rightarrow> (string list \<Rightarrow> (embedding list, 'w) action) option \<Rightarrow> 'w effect" where
  "validateLiveProvider chat embedder w = (case chat of
     None \<Rightarrow> (Some (errorf ''chat provider is required'' []), w)
   | Some generate \<Rightarrow> (case embedder of
        None \<Rightarrow> (Some (errorf ''embedding provider is required'' []), w)
      | Some vectorise \<Rightarrow> (case generate [text_message RoleUser ''Return the single word: ok''] w of
          (Inl e, w) \<Rightarrow> (Some (wrap_err ''chat failed'' e), w)
        | (Inr m, w) \<Rightarrow>
           (if blank (msg_Content m) then (Some (errorf ''chat returned blank content'' []), w)
            else case vectorise [''go-rag-agent live validation''] w of
              (Inl e, w) \<Rightarrow> (Some (wrap_err ''embed failed'' e), w)
            | (Inr vectors, w) \<Rightarrow>
               (if vectors = [] \<or> hd vectors = [] then Some (errorf ''embedding returned empty vector'' []) else None, w)))))"

text \<open>The check passes only when both providers answered with content.\<close>

lemma live_check_passes:
  assumes "validateLiveProvider (Some generate) (Some vectorise) w = (None, w')"
  shows "\<exists>m w1 v vs. generate [text_message RoleUser ''Return the single word: ok''] w = (Inr m, w1) \<and> \<not> blank (msg_Content m)
    \<and> vectorise [''go-rag-agent live validation''] w1 = (Inr (v # vs), w') \<and> v \<noteq> []"
  using assms by (auto simp: validateLiveProvider_def neq_Nil_conv split: prod.splits sum.splits if_splits)

end
