(* ===== verification/Observers.thy ===== *)
theory Observers
  imports Trace Tools
begin

section \<open>Observers: callbacks, trace recorders and loggers\<close>

text \<open>
  \<^verbatim>\<open>internal/telemetry/dispatcher.go\<close>, which fans the events of a question out to the callbacks, and the
  recorders of \<^verbatim>\<open>trace_recorder.go\<close> that write a finished trace as a JSON line or to a logger. A callback
  acts on the outside world and may panic: the dispatcher does not recover, so a panic keeps the later
  callbacks from running and goes to its caller. The JSON encoder and the clock are parameters.
\<close>

subsection \<open>The dispatcher\<close>

record 'w callback =
  cb_OnRetrieveStart :: "string \<Rightarrow> 'w \<Rightarrow> unit outcome \<times> 'w"
  cb_OnRetrieveEnd :: "int \<Rightarrow> go_error option \<Rightarrow> 'w \<Rightarrow> unit outcome \<times> 'w"
  cb_OnToolStart :: "string \<Rightarrow> 'w \<Rightarrow> unit outcome \<times> 'w"
  cb_OnToolEnd :: "string \<Rightarrow> go_error option \<Rightarrow> 'w \<Rightarrow> unit outcome \<times> 'w"
  cb_OnModelStart :: "string \<Rightarrow> 'w \<Rightarrow> unit outcome \<times> 'w"
  cb_OnModelEnd :: "string \<Rightarrow> go_error option \<Rightarrow> 'w \<Rightarrow> unit outcome \<times> 'w"

definition newDispatcher :: "'w callback option list \<Rightarrow> 'w callback list" where
  "newDispatcher callbacks = List.map_filter id callbacks"

text \<open>One event to every callback in order; a panic stops the loop.\<close>

primrec dispatch :: "('w callback \<Rightarrow> 'w \<Rightarrow> unit outcome \<times> 'w) \<Rightarrow> 'w callback list \<Rightarrow> 'w \<Rightarrow> unit outcome \<times> 'w" where
  "dispatch event [] w = (Returned (), w)"
| "dispatch event (cb # cbs) w = (case event cb w of
     (Panicked v, w) \<Rightarrow> (Panicked v, w) | (Returned _, w) \<Rightarrow> dispatch event cbs w)"

definition dispatch_OnRetrieveStart :: "'w callback list \<Rightarrow> string \<Rightarrow> 'w \<Rightarrow> unit outcome \<times> 'w" where
  "dispatch_OnRetrieveStart d query = dispatch (\<lambda>cb. cb_OnRetrieveStart cb query) d"

definition dispatch_OnRetrieveEnd :: "'w callback list \<Rightarrow> int \<Rightarrow> go_error option \<Rightarrow> 'w \<Rightarrow> unit outcome \<times> 'w" where
  "dispatch_OnRetrieveEnd d n err = dispatch (\<lambda>cb. cb_OnRetrieveEnd cb n err) d"

definition dispatch_OnToolStart :: "'w callback list \<Rightarrow> string \<Rightarrow> 'w \<Rightarrow> unit outcome \<times> 'w" where
  "dispatch_OnToolStart d tool = dispatch (\<lambda>cb. cb_OnToolStart cb tool) d"

definition dispatch_OnToolEnd :: "'w callback list \<Rightarrow> string \<Rightarrow> go_error option \<Rightarrow> 'w \<Rightarrow> unit outcome \<times> 'w" where
  "dispatch_OnToolEnd d tool err = dispatch (\<lambda>cb. cb_OnToolEnd cb tool err) d"

definition dispatch_OnModelStart :: "'w callback list \<Rightarrow> string \<Rightarrow> 'w \<Rightarrow> unit outcome \<times> 'w" where
  "dispatch_OnModelStart d model = dispatch (\<lambda>cb. cb_OnModelStart cb model) d"

definition dispatch_OnModelEnd :: "'w callback list \<Rightarrow> string \<Rightarrow> go_error option \<Rightarrow> 'w \<Rightarrow> unit outcome \<times> 'w" where
  "dispatch_OnModelEnd d model err = dispatch (\<lambda>cb. cb_OnModelEnd cb model err) d"

lemma dispatch_append:
  "dispatch event (xs @ ys) w = (case dispatch event xs w of
     (Panicked v, w) \<Rightarrow> (Panicked v, w) | (Returned _, w) \<Rightarrow> dispatch event ys w)"
  by (induction xs arbitrary: w) (auto split: prod.split outcome.split)

text \<open>Without a panic every callback sees the event once, in the order of registration.\<close>

lemma dispatch_reaches_all:
  assumes "\<And>cb w. cb \<in> set cbs \<Longrightarrow> fst (event cb w) = Returned ()"
  shows "dispatch event cbs w = (Returned (), fold (\<lambda>cb w. snd (event cb w)) cbs w)"
  using assms
proof (induction cbs arbitrary: w)
  case (Cons cb cbs)
  then have "event cb w = (Returned (), snd (event cb w))" by (metis list.set_intros(1) prod.collapse)
  then show ?case using Cons by (auto split: prod.split)
qed simp

text \<open>A panic is the first callback's that panics, and the callbacks after it are not called.\<close>

lemma dispatch_panic:
  assumes "dispatch event cbs w = (Panicked v, w')"
  shows "\<exists>xs cb ys w1. cbs = xs @ cb # ys \<and> dispatch event xs w = (Returned (), w1) \<and> event cb w1 = (Panicked v, w')"
  using assms
proof (induction cbs arbitrary: w)
  case (Cons cb cbs)
  obtain r w1 where e: "event cb w = (r, w1)" by (metis surj_pair)
  show ?case
  proof (cases r)
    case (Returned u)
    with Cons.prems e have "dispatch event cbs w1 = (Panicked v, w')" by simp
    from Cons.IH [OF this] obtain xs cb' ys w2 where
      "cbs = xs @ cb' # ys" "dispatch event xs w1 = (Returned (), w2)" "event cb' w2 = (Panicked v, w')" by blast
    then have "cb # cbs = (cb # xs) @ cb' # ys \<and> dispatch event (cb # xs) w = (Returned (), w2) \<and> event cb' w2 = (Panicked v, w')"
      using e Returned by simp
    then show ?thesis by blast
  next
    case (Panicked p)
    then have "cb # cbs = [] @ cb # cbs \<and> dispatch event [] w = (Returned (), w) \<and> event cb w = (Panicked v, w')"
      using Cons.prems e by simp
    then show ?thesis by blast
  qed
qed simp

subsection \<open>The JSON line recorder\<close>

definition milliseconds :: "duration \<Rightarrow> int" where
  "milliseconds d = (if d \<ge> 0 then d div 1000000 else - ((- d) div 1000000))"

definition json_int :: "int \<Rightarrow> json_value" where
  "json_int i = ANumber (Some (of_int i))"

definition trace_record :: "string \<Rightarrow> execution_trace \<Rightarrow> json_value" where
  "trace_record now t = AObject (
     [(''session_id'', AString (et_SessionID t)), (''stream'', ABool (et_Stream t)), (''success'', ABool (et_Success t)),
      (''duration_ms'', json_int (milliseconds (et_Duration t))),
      (''retrieval_hit_count'', json_int (int (rm_FinalHitCount (et_Retrieval t)))),
      (''tool_call_count'', json_int (int (length (et_ToolCalls t)))),
      (''provider_call_count'', json_int (int (length (et_ProviderCalls t)))),
      (''memory_event_count'', json_int (int (length (et_Memory t)))),
      (''citation_count'', json_int (int (length (et_Citations t)))),
      (''fallback_count'', json_int (int (length (et_Fallbacks t)))),
      (''prompt_cache_hit'', ABool (et_PromptCacheHit t)), (''recorded_at'', AString now)]
     @ (case et_Err t of None \<Rightarrow> [] | Some e \<Rightarrow> [(''error'', AString (err_text e))]))"

text \<open>The writer is the text written so far; \<open>None\<close> is a recorder without one. A trace that does not
  encode leaves no line.\<close>

definition jsonl_OnExecutionTrace :: "json_codec \<Rightarrow> string \<Rightarrow> execution_trace \<Rightarrow> string option \<Rightarrow> string option" where
  "jsonl_OnExecutionTrace js now t out = (case out of None \<Rightarrow> None | Some written \<Rightarrow>
     (case jc_Encode js (trace_record now t) of Inl _ \<Rightarrow> Some written | Inr line \<Rightarrow> Some (written @ line @ NL)))"

text \<open>The record is a summary: neither the question nor its rewriting nor a citation is in it.\<close>

lemma trace_record_sanitized:
  "trace_record now (t\<lparr>et_Query := q, et_RewrittenQuery := r, et_Filter := f\<rparr>) = trace_record now t"
  by (simp add: trace_record_def)

lemma jsonl_one_line_each:
  assumes "\<And>t. t \<in> set ts \<Longrightarrow> \<exists>line. jc_Encode js (trace_record now t) = Inr line"
  shows "fold (jsonl_OnExecutionTrace js now) ts (Some out) =
    Some (out @ concat (map (\<lambda>t. projr (jc_Encode js (trace_record now t)) @ NL) ts))"
  using assms
proof (induction ts arbitrary: out)
  case (Cons t ts)
  then obtain line where "jc_Encode js (trace_record now t) = Inr line" by (meson list.set_intros(1))
  then show ?case using Cons by (simp add: jsonl_OnExecutionTrace_def)
qed simp

subsection \<open>The logger recorder\<close>

datatype log_value = LogText string | LogBool bool | LogInt int | LogDuration duration | LogError "go_error option"
  | LogStage fallback_stage | LogTarget fallback_target

datatype log_level = LevelWarn | LevelError | LevelInfo

type_synonym log_line = "log_level \<times> string \<times> (string \<times> log_value) list"

definition fallback_line :: "execution_trace \<Rightarrow> fallback_event \<Rightarrow> log_line" where
  "fallback_line t fb = (LevelWarn, ''ragagent trace fallback'',
     [(''session_id'', LogText (et_SessionID t)), (''stage'', LogStage (fe_Stage fb)),
      (''fallback_to'', LogTarget (fe_FallbackTo fb)), (''error'', LogError (Some (fe_Err fb)))])"

definition complete_line :: "execution_trace \<Rightarrow> log_line" where
  "complete_line t = (if et_Err t \<noteq> None \<or> \<not> et_Success t then LevelError else LevelInfo, ''ragagent trace complete'',
     [(''session_id'', LogText (et_SessionID t)), (''stream'', LogBool (et_Stream t)), (''success'', LogBool (et_Success t)),
      (''duration'', LogDuration (et_Duration t)), (''tool_calls'', LogInt (int (length (et_ToolCalls t)))),
      (''provider_calls'', LogInt (int (length (et_ProviderCalls t)))), (''memory_events'', LogInt (int (length (et_Memory t)))),
      (''citations'', LogInt (int (length (et_Citations t)))), (''error'', LogError (et_Err t))])"

definition logger_OnExecutionTrace :: "(log_line \<Rightarrow> 'w \<Rightarrow> 'w) option \<Rightarrow> execution_trace \<Rightarrow> 'w \<Rightarrow> 'w" where
  "logger_OnExecutionTrace logger t w = (case logger of None \<Rightarrow> w
     | Some write \<Rightarrow> write (complete_line t) (fold (\<lambda>fb. write (fallback_line t fb)) (et_Fallbacks t) w))"

lemma logger_lines:
  "logger_OnExecutionTrace (Some (\<lambda>l ls. ls @ [l])) t ls = ls @ map (fallback_line t) (et_Fallbacks t) @ [complete_line t]"
proof -
  have "fold (\<lambda>fb ls. ls @ [fallback_line t fb]) fbs ls = ls @ map (fallback_line t) fbs" for fbs ls
    by (induction fbs arbitrary: ls) simp_all
  then show ?thesis by (simp add: logger_OnExecutionTrace_def)
qed

end
