(* ===== verification/Spec2Isabelle.thy ===== *)
theory Spec2Isabelle
  imports History PromptCache RedisCache Governor Resilience Retrieval Rag Paths Store AccessBoundary Retriever
    Session Knowledge Prompt Actions Memory Trace Ask Tools Structured ToolRunner
    Bridge Config PgVector Evaluation ProviderChat HttpClients LiveValidation Observers
begin

text \<open>
  A model of the Go library go-rag-agent: an agent that answers questions from documents it has imported.
  File names below are those under \<^verbatim>\<open>src/\<close>; a definition has the name of the function, method or type it
  models, with a short prefix where several types share a name (\<open>pc_Get\<close>, \<open>rp_Get\<close>).

  \<^bold>\<open>The program and how its parts interact.\<close> \<^verbatim>\<open>New\<close> checks a configuration and wires the parts. \<^verbatim>\<open>AddKnowledge\<close> turns
  files into documents, cuts them into chunks, embeds these and puts them into a vector store, within the limits
  of an access boundary; a manifest remembers which files a directory gave. A question goes through a session,
  which admits one at a time: the agent loads the history, rewrites a follow-up, recalls long-term memories,
  retrieves chunks (by vectors, by words, fused and reranked), assembles the evidence within a budget, builds a
  prompt or takes it from a cache, asks the model directly or in a loop of tool calls, and commits the turn. Every
  call of a provider passes a rate limiter, a circuit breaker and a retry loop; callbacks and traces report what
  happened. Suites of questions evaluate an agent against a baseline.

  \<^bold>\<open>Theories.\<close>
  \<^item> \<open>Prelude\<close>: Go strings, integers and errors, with the functions of the standard library that the source calls;
    \<open>Domain\<close>: the structs that travel between parts; \<open>Actions\<close>: functions with effects and an early return.
  \<^item> \<open>History\<close>: \<^verbatim>\<open>internal/memory/history.go\<close>, \<^verbatim>\<open>history_store.go\<close>. Both stores are interpretations of the
    locale \<open>round_store\<close> and keep the last rounds of a conversation.
  \<^item> \<open>PromptCache\<close>, \<open>RedisCache\<close>: \<^verbatim>\<open>prompt_cache.go\<close>. The heap of list elements of the in-memory cache refines a
    bounded LRU list; the two-level cache is a locale over two sound caches; clearing the Redis cache is exact for
    prefixes without pattern characters.
  \<^item> \<open>Governor\<close>, \<open>Resilience\<close>: \<^verbatim>\<open>provider_governance.go\<close>, \<^verbatim>\<open>provider_governor.go\<close>, \<^verbatim>\<open>provider_resilience.go\<close>,
    \<^verbatim>\<open>provider_trace_context.go\<close>. Breaker and limiter as transition systems under any interleaving of callers (an
    invariant that ties the counter to the outstanding probes, a bound on the throughput), the retry loop with its
    accounting and what a retried stream may have shown.
  \<^item> \<open>Retrieval\<close>, \<open>Retriever\<close>: \<^verbatim>\<open>internal/retrieval\<close>, \<^verbatim>\<open>rootRetriever\<close> of \<^verbatim>\<open>agent.go\<close>, \<^verbatim>\<open>reranker.go\<close>,
    \<^verbatim>\<open>retriever.go\<close>. Fusion as the top sums of reciprocal ranks; hybrid retrieval in a locale over what it relies on
    in a store (\<open>vector_search\<close>) and a reranker (\<open>reranking\<close>), interpreted on the embedded store, the rule-based
    reranker and the endpoint reranker of \<open>HttpClients\<close>.
  \<^item> \<open>Rag\<close>: \<^verbatim>\<open>internal/rag\<close>. Splitting covers a document, the evidence fits its budget, front matter reads back.
  \<^item> \<open>Paths\<close>, \<open>Store\<close>, \<open>AccessBoundary\<close>: \<^verbatim>\<open>internal/storage\<close>, \<^verbatim>\<open>access_boundary.go\<close>. Upserts replace parents, searches
    return the best chunks that pass their filter, and a static namespace isolates.
  \<^item> \<open>PgVector\<close>: \<^verbatim>\<open>pgvector_store.go\<close> over a database with the documented laws of transactions: upserts are
    atomic, statements use exactly their arguments, no transaction stays open.
  \<^item> \<open>Session\<close>: the locks, slots and counters of \<^verbatim>\<open>session.go\<close> and \<^verbatim>\<open>agent.go\<close> as one step relation over any number of
    sessions and callers, with its invariant and the properties of \<^verbatim>\<open>Close\<close>.
  \<^item> \<open>Knowledge\<close>: \<^verbatim>\<open>source.go\<close>, \<^verbatim>\<open>sidecar_metadata.go\<close>, \<^verbatim>\<open>document_converter.go\<close>, \<^verbatim>\<open>directory_sync.go\<close>,
    \<^verbatim>\<open>knowledge_lifecycle.go\<close>; \<open>Bridge\<close>: \<^verbatim>\<open>ocr_bridge.go\<close>, \<^verbatim>\<open>image_bridge.go\<close>. An import leaves exactly the chunks of the
    files that are there; bridges clean up after themselves.
  \<^item> \<open>Prompt\<close>: \<^verbatim>\<open>internal/graph\<close>. Budgets of the prompt, removal of injection phrases, cache keys, the chat runner.
  \<^item> \<open>Memory\<close>: \<^verbatim>\<open>long_term_memory.go\<close>, \<^verbatim>\<open>memory_provider.go\<close>, \<^verbatim>\<open>query_options.go\<close>. Scope and expiry of memories.
  \<^item> \<open>Trace\<close>, \<open>Observers\<close>: \<^verbatim>\<open>trace.go\<close>, \<^verbatim>\<open>trace_summary.go\<close>, \<^verbatim>\<open>trace_store.go\<close>, \<^verbatim>\<open>trace_recorder.go\<close>,
    \<^verbatim>\<open>web_citations.go\<close>, \<^verbatim>\<open>internal/telemetry\<close>. Well-formed traces, the bounded trace store, recorders.
  \<^item> \<open>Ask\<close>: \<^verbatim>\<open>askWithFormatLocked\<close>, \<^verbatim>\<open>askStreamLocked\<close> and the steps they compose; its properties span the retriever,
    the boundary, the tools and the trace.
  \<^item> \<open>Tools\<close>, \<open>ToolRunner\<close>, \<open>Structured\<close>: \<^verbatim>\<open>tool_registry.go\<close>, \<^verbatim>\<open>structured_tool.go\<close>, \<^verbatim>\<open>internal/tools\<close>,
    \<^verbatim>\<open>tool_calling_runner.go\<close>, \<^verbatim>\<open>structured_output.go\<close>. Validation is conformance to the schema, the loop stays in its
    bounds and under its policy, streamed or not, and JSON in an answer is found.
  \<^item> \<open>Config\<close>: \<^verbatim>\<open>config.go\<close>, \<^verbatim>\<open>web_search.go\<close>, the configurations of \<^verbatim>\<open>internal/llm\<close> and \<^verbatim>\<open>New\<close>. What validation
    accepts, the constructors accept; a failed construction closes its store.
  \<^item> \<open>ProviderChat\<close>: \<^verbatim>\<open>internal/llm/provider_chat.go\<close>, \<^verbatim>\<open>openai_embedder.go\<close>, \<^verbatim>\<open>embedder.go\<close>, \<^verbatim>\<open>runtime.go\<close>. A stream
    ends with the merge of its chunks.
  \<^item> \<open>HttpClients\<close>: \<^verbatim>\<open>openai_reranker.go\<close>, \<^verbatim>\<open>mcp_tool.go\<close>, \<^verbatim>\<open>internal/websearch/tavily.go\<close>; \<open>LiveValidation\<close>:
    \<^verbatim>\<open>production_validation.go\<close>; \<open>Evaluation\<close>: \<^verbatim>\<open>evaluation.go\<close>, whose summary is the mean of its results, whose
    report reads back, and whose gate is the absence of regressions.

  \<^bold>\<open>Conventions.\<close> A Go string is a list of characters, \<^verbatim>\<open>int\<close> is unbounded except where wrap-around matters
  (\<open>wrap64\<close>), floats are exact reals, an error is a value with its text, its sentinel and what it wraps, a nil
  pointer is \<open>None\<close>, a panic an outcome. A map whose iteration order can be seen is a list. Code that is
  not in the repository (database modules, HTTP, providers, JSON, the file system, tokenizers, hashes, the clock)
  is a parameter; where a proof relies on its documented behaviour a predicate states it
  (\<open>chromem_ok\<close>, \<open>pg_ok\<close>, \<open>scan_laws\<close>) and a theorem shows that it can hold.

  \<^bold>\<open>Termination and fuel.\<close> The loop of the splitter and that of the cache eviction are partial functions whose
  properties include that they return. \<^verbatim>\<open>describeStructuredType\<close> takes fuel, since it does not return on a type
  that refers back to itself; with as much fuel as there are declared types it returns on every other. The
  loops of the tool runner recurse on \<^verbatim>\<open>MaxIterations\<close>, the retry loop on the attempts left, the search for the
  longest prefix on its interval, and the batches of an upsert on the chunks left, for a positive batch size as
  the normalised configuration has it. A stream is the finite list of events it delivers.

  \<^bold>\<open>What modelling showed.\<close> Lemmas next to the definitions state where the code departs from its intent: a namespace
  escapes by an untrimmed key, prefixes can be widened or match sibling directories, stale probes exceed the
  half-open limit, an external clear can be lost, cache keys collide, switches cannot be turned off.

  \<^bold>\<open>Not modelled.\<close> \<^verbatim>\<open>component_adapters.go\<close>, \<^verbatim>\<open>vector_store.go\<close> and \<^verbatim>\<open>document_loader.go\<close> copy between structs of
  the same fields or rename interfaces; one record stands for both sides. \<^verbatim>\<open>internal/baselineassets\<close> and \<^verbatim>\<open>cmd/\<close>
  generate demonstration reports, \<^verbatim>\<open>examples/\<close> are programs that only call the library. Data races are left out: an
  operation under a mutex is one step. Unicode beyond Latin-1, rounding of floats and the texts of third-party
  errors are left out. The pipeline of \<open>Ask\<close> does not trace provider calls made inside the retriever.
\<close>

end
